(* ===== verification/Prelude.thy ===== *)
theory Prelude
  imports Main "HOL-Library.List_Lexorder" "HOL-Library.Char_ord" "HOL-Library.Product_Lexorder"
begin

section \<open>Prelude: identifiers, time, errors as values, rows of a table\<close>

text \<open>
  What every component shares. Identifiers are the 128 bits of a UUID as a number, whose order
  is the order of the lower-case hexadecimal text. Instants are microseconds since the Unix
  epoch (an aware Python datetime has microsecond resolution). A step that may raise is a value
  of a sum type, \<open>Inl\<close> for the exception. A table is the list of its rows; \<open>update_where\<close> is an
  UPDATE, \<open>filter\<close> a SELECT or, negated, a DELETE, \<open>sort_key\<close> an ORDER BY.
\<close>

type_synonym uuid = nat
type_synonym instant = int

definition seconds :: "int \<Rightarrow> int" where
  "seconds n = n * 1000000"

definition minutes :: "int \<Rightarrow> int" where
  "minutes n = seconds (60 * n)"

definition days :: "int \<Rightarrow> int" where
  "days n = seconds (86400 * n)"

named_theorems row_simps \<open>how an operation changes the rows of each table\<close>
named_theorems inv_intros \<open>operations that keep an invariant\<close>

subsection \<open>Errors as values\<close>

text \<open>\<open>try_then m f\<close> runs \<open>f\<close> on the value of \<open>m\<close>; an exception of \<open>m\<close> ends the computation.\<close>

definition try_then :: "'e + 'a \<Rightarrow> ('a \<Rightarrow> 'e + 'b) \<Rightarrow> 'e + 'b" where
  "try_then m f = (case m of Inl e \<Rightarrow> Inl e | Inr x \<Rightarrow> f x)"

declare try_then_def [code_unfold]

lemma try_then_weak_cong [cong]: "m = m' \<Longrightarrow> try_then m f = try_then m' f"
  by simp

lemma try_then_simps [simp]:
  "try_then (Inl e) f = Inl e"
  "try_then (Inr x) f = f x"
  by (simp_all add: try_then_def)

lemma try_then_eq_Inr [simp]: "try_then m f = Inr y \<longleftrightarrow> (\<exists>x. m = Inr x \<and> f x = Inr y)"
  by (cases m) simp_all

lemma try_then_eq_Inl: "try_then m f = Inl e \<longleftrightarrow> m = Inl e \<or> (\<exists>x. m = Inr x \<and> f x = Inl e)"
  by (cases m) simp_all

lemma try_then_assoc: "try_then (try_then m f) g = try_then m (\<lambda>x. try_then (f x) g)"
  by (cases m) simp_all

lemma try_then_cong [fundef_cong]:
  "m = m' \<Longrightarrow> (\<And>x. m' = Inr x \<Longrightarrow> f x = f' x) \<Longrightarrow> try_then m f = try_then m' f'"
  by (cases m') simp_all

text \<open>A loop over a list whose body may raise: the first exception ends it.\<close>

fun fold_ok :: "('a \<Rightarrow> 's \<Rightarrow> 'e + 's) \<Rightarrow> 'a list \<Rightarrow> 's \<Rightarrow> 'e + 's" where
  "fold_ok f [] s = Inr s"
| "fold_ok f (x # xs) s = try_then (f x s) (fold_ok f xs)"

lemma fold_ok_invariant:
  assumes "fold_ok f xs s = Inr t" and "P s"
    and "\<And>x s t. x \<in> set xs \<Longrightarrow> P s \<Longrightarrow> f x s = Inr t \<Longrightarrow> P t"
  shows "P t"
  using assms by (induction xs arbitrary: s) auto

lemma fold_invariant_set:
  assumes "P s" and "\<And>x s. x \<in> set xs \<Longrightarrow> P s \<Longrightarrow> P (f x s)"
  shows "P (fold f xs s)"
  using assms by (induction xs arbitrary: s) auto

lemma fold_constant:
  assumes "\<And>x s. g (f x s) = g s"
  shows "g (fold f xs s) = g s"
  using assms by (induction xs arbitrary: s) auto

lemma sorted_insert_least:
  fixes x :: "'a::linorder"
  assumes "finite A" "\<forall>a \<in> A. x < a"
  shows "sorted_list_of_set (insert x A) = x # sorted_list_of_set A"
proof -
  have "x \<notin> A" using assms(2) by blast
  then have "sorted_list_of_set (insert x A) = insort x (sorted_list_of_set A)"
    using assms(1) by simp
  also have "\<dots> = x # sorted_list_of_set A"
    using assms by (intro insort_is_Cons) (auto simp: less_imp_le)
  finally show ?thesis .
qed

subsection \<open>Rows of a table\<close>

definition update_where :: "('r \<Rightarrow> bool) \<Rightarrow> ('r \<Rightarrow> 'r) \<Rightarrow> 'r list \<Rightarrow> 'r list" where
  "update_where p f rows = map (\<lambda>r. if p r then f r else r) rows"

lemma set_update_where [row_simps]:
  "r \<in> set (update_where p f rows) \<longleftrightarrow>
     (\<exists>r0 \<in> set rows. r = (if p r0 then f r0 else r0))"
  by (auto simp: update_where_def)

lemma updated_row:
  assumes "x \<in> set (update_where p g rows)"
  obtains y where "y \<in> set rows" "x = (if p y then g y else y)"
  using assms by (auto simp: set_update_where)

lemma length_update_where [simp]: "length (update_where p f rows) = length rows"
  by (simp add: update_where_def)

lemma update_where_append [simp]:
  "update_where p f (xs @ ys) = update_where p f xs @ update_where p f ys"
  by (simp add: update_where_def)

lemma update_where_Nil [simp]: "update_where p f [] = []"
  by (simp add: update_where_def)

lemma map_update_where [simp]:
  assumes "\<And>r. g (f r) = g r"
  shows "map g (update_where p f rows) = map g rows"
  using assms by (simp add: update_where_def)

lemma image_update_where [simp]:
  assumes "\<And>r. g (f r) = g r"
  shows "g ` set (update_where p f rows) = g ` set rows"
  using map_update_where [of g f p rows] assms by (metis list.set_map)

lemma update_where_id: "(\<And>r. r \<in> set rows \<Longrightarrow> \<not> p r) \<Longrightarrow> update_where p f rows = rows"
  unfolding update_where_def by (rule map_idI) auto

lemma find_Some_set: "find p xs = Some x \<Longrightarrow> x \<in> set xs \<and> p x"
  by (auto simp: find_Some_iff)

lemma find_None_set: "find p xs = None \<longleftrightarrow> (\<forall>x \<in> set xs. \<not> p x)"
  by (auto simp: find_None_iff)

lemma find_exists: "x \<in> set xs \<Longrightarrow> p x \<Longrightarrow> \<exists>y. find p xs = Some y"
  by (metis find_None_set not_None_eq)

lemma find_append:
  "find p (xs @ ys) = (case find p xs of None \<Rightarrow> find p ys | Some x \<Rightarrow> Some x)"
  by (induction xs) auto

text \<open>The rows a batch locks are rows of the table, each once.\<close>

lemma batch_distinct:
  assumes "distinct (map f xs)"
  shows "distinct (map f (take k (sort_key key (filter p xs))))"
proof -
  have "distinct (map f (filter p xs))" using assms by (simp add: distinct_map_filter)
  then have "distinct (map f (sort_key key (filter p xs)))" by (simp add: distinct_map)
  then show ?thesis unfolding take_map [symmetric] by (rule distinct_take)
qed

lemma distinct_map_eqD: "distinct (map f xs) \<Longrightarrow> x \<in> set xs \<Longrightarrow> y \<in> set xs \<Longrightarrow> f x = f y \<Longrightarrow> x = y"
  by (auto simp: distinct_map inj_on_def)

text \<open>
  The interface every table gives its clients: rows have an identifier, and an UPDATE of a row
  keeps it. A lookup by identifier then finds exactly the row, and an UPDATE by identifier is
  seen by the next lookup of that identifier and by no other.
\<close>

locale keyed_rows =
  fixes pk :: "'r \<Rightarrow> uuid" and step :: "'r \<Rightarrow> 'r"
  assumes pk_step: "pk (step r) = pk r"
begin

lemma find_pk:
  assumes "distinct (map pk rows)"
  shows "find (\<lambda>r. pk r = i) rows = Some r \<longleftrightarrow> r \<in> set rows \<and> pk r = i"
proof
  assume "find (\<lambda>r. pk r = i) rows = Some r"
  then show "r \<in> set rows \<and> pk r = i" by (auto dest: find_Some_set)
next
  assume r: "r \<in> set rows \<and> pk r = i"
  then obtain r' where r': "find (\<lambda>r. pk r = i) rows = Some r'"
    using find_exists [of r rows "\<lambda>r. pk r = i"] by auto
  then have "r' \<in> set rows" "pk r' = i" by (auto dest: find_Some_set)
  with r r' assms show "find (\<lambda>r. pk r = i) rows = Some r" by (metis distinct_map_eqD)
qed

lemma update_pks: "map pk (update_where p step rows) = map pk rows"
  by (simp add: pk_step)

lemma find_update_same:
  "find (\<lambda>r. pk r = i) (update_where (\<lambda>r. pk r = i) step rows) =
     map_option step (find (\<lambda>r. pk r = i) rows)"
  by (induction rows) (auto simp: update_where_def pk_step)

lemma find_update_other:
  "i \<noteq> j \<Longrightarrow> find (\<lambda>r. pk r = i) (update_where (\<lambda>r. pk r = j) step rows) =
     find (\<lambda>r. pk r = i) rows"
  by (induction rows) (auto simp: update_where_def pk_step)

end

end
