(* ===== verification/PyDate.thy ===== *)
theory PyDate
  imports Prelude
begin

section \<open>Calendar dates and naive local datetimes\<close>

text \<open>
  The parts of Python's \<open>datetime\<close> and \<open>calendar\<close> modules that the recurrence code computes
  with. A \<open>date\<close> has a year in 1..9999, a month and a day; adding a day past 9999-12-31 raises
  \<open>OverflowError\<close> and \<open>replace\<close> with a component out of range raises \<open>ValueError\<close>, both \<open>None\<close>
  here. A naive datetime is a date and the microseconds since local midnight.
\<close>

datatype date = Date (year: nat) (month: nat) (day: nat)

instantiation date :: linorder
begin

definition less_eq_date :: "date \<Rightarrow> date \<Rightarrow> bool" where
  "a \<le> b \<longleftrightarrow> (year a, month a, day a) \<le> (year b, month b, day b)"

definition less_date :: "date \<Rightarrow> date \<Rightarrow> bool" where
  "a < b \<longleftrightarrow> (year a, month a, day a) < (year b, month b, day b)"

instance
  by standard (auto simp: less_eq_date_def less_date_def date.expand)

end

lemma date_less_iff:
  "Date y m d < Date y' m' d' \<longleftrightarrow> y < y' \<or> y = y' \<and> (m < m' \<or> m = m' \<and> d < d')"
  by (auto simp: less_date_def)

lemma date_le_iff:
  "Date y m d \<le> Date y' m' d' \<longleftrightarrow> y < y' \<or> y = y' \<and> (m < m' \<or> m = m' \<and> d \<le> d')"
  by (auto simp: less_eq_date_def)

definition is_leap :: "nat \<Rightarrow> bool" where
  "is_leap y \<longleftrightarrow> 4 dvd y \<and> (\<not> 100 dvd y \<or> 400 dvd y)"

text \<open>The second component of \<open>calendar.monthrange\<close>.\<close>

definition days_in_month :: "nat \<Rightarrow> nat \<Rightarrow> nat" where
  "days_in_month y m =
     (if m = 2 then (if is_leap y then 29 else 28)
      else if m \<in> {4, 6, 9, 11} then 30 else 31)"

fun valid_date :: "date \<Rightarrow> bool" where
  "valid_date (Date y m d) \<longleftrightarrow>
     1 \<le> y \<and> y \<le> 9999 \<and> 1 \<le> m \<and> m \<le> 12 \<and> 1 \<le> d \<and> d \<le> days_in_month y m"

text \<open>\<open>date.replace\<close> and the constructor: \<open>None\<close> is the \<open>ValueError\<close>.\<close>

definition mk_date :: "nat \<Rightarrow> nat \<Rightarrow> nat \<Rightarrow> date option" where
  "mk_date y m d = (if valid_date (Date y m d) then Some (Date y m d) else None)"

text \<open>\<open>d + timedelta(days=1)\<close>: \<open>None\<close> is the \<open>OverflowError\<close> after 9999-12-31.\<close>

fun next_day :: "date \<Rightarrow> date option" where
  "next_day (Date y m d) =
     (if d < days_in_month y m then Some (Date y m (Suc d))
      else if m < 12 then Some (Date y (Suc m) 1)
      else if y < 9999 then Some (Date (Suc y) 1 1)
      else None)"

fun add_days :: "nat \<Rightarrow> date \<Rightarrow> date option" where
  "add_days 0 d = Some d"
| "add_days (Suc n) d = (case next_day d of None \<Rightarrow> None | Some d' \<Rightarrow> add_days n d')"

lemma add_days_numeral [simp]:
  "add_days (numeral k) d = (case next_day d of None \<Rightarrow> None | Some d' \<Rightarrow> add_days (pred_numeral k) d')"
  by (simp add: numeral_eq_Suc)

text \<open>\<open>d - timedelta(days=1)\<close>: \<open>None\<close> is the \<open>OverflowError\<close> before 0001-01-01.\<close>

fun prev_day :: "date \<Rightarrow> date option" where
  "prev_day (Date y m d) =
     (if 1 < d then Some (Date y m (d - 1))
      else if 1 < m then Some (Date y (m - 1) (days_in_month y (m - 1)))
      else if 1 < y then Some (Date (y - 1) 12 31)
      else None)"

text \<open>\<open>date.toordinal\<close>: 0001-01-01 is day 1.\<close>

definition days_before_year :: "nat \<Rightarrow> nat" where
  "days_before_year y = (let p = y - 1 in 365 * p + p div 4 - p div 100 + p div 400)"

definition days_before_month :: "nat \<Rightarrow> nat \<Rightarrow> nat" where
  "days_before_month y m = sum_list (map (days_in_month y) [1..<m])"

fun toordinal :: "date \<Rightarrow> nat" where
  "toordinal (Date y m d) = days_before_year y + days_before_month y m + d"

text \<open>
  A naive datetime, and a datetime with the value of \<open>utcoffset()\<close> in microseconds: \<open>None\<close> is
  naive. An aware datetime denotes an instant; 1970-01-01 has the ordinal 719163.
\<close>

datatype local = Local (local_date: date) (local_time: nat)

record datetime =
  dt_local :: local
  dt_offset :: "int option"

definition local_micros :: "local \<Rightarrow> int" where
  "local_micros l = days (int (toordinal (local_date l)) - 719163) + int (local_time l)"

definition dt_instant :: "datetime \<Rightarrow> instant option" where
  "dt_instant t = map_option (\<lambda>off. local_micros (dt_local t) - off) (dt_offset t)"

subsection \<open>Bounds of months and years\<close>

lemma days_in_month_bounds: "28 \<le> days_in_month y m" "days_in_month y m \<le> 31"
  by (auto simp: days_in_month_def)

lemma days_in_month_first [simp]: "Suc 0 \<le> days_in_month y m"
  using days_in_month_bounds(1) [of y m] by linarith

lemma days_in_month_12 [simp]: "days_in_month y 12 = 31"
  by (simp add: days_in_month_def)

lemma days_before_month_Suc:
  "1 \<le> m \<Longrightarrow> days_before_month y (Suc m) = days_before_month y m + days_in_month y m"
  by (simp add: days_before_month_def)

lemma days_before_month_1 [simp]: "days_before_month y (Suc 0) = 0"
  by (simp add: days_before_month_def)

lemma days_before_month_mono:
  assumes "1 \<le> m" "m < m'"
  shows "days_before_month y m + days_in_month y m \<le> days_before_month y m'"
proof -
  from assms have "Suc m \<le> m'" by simp
  then show ?thesis
  proof (induction m' rule: dec_induct)
    case base
    then show ?case using assms by (simp add: days_before_month_Suc)
  next
    case (step n)
    with assms show ?case by (simp add: days_before_month_Suc)
  qed
qed

lemma year_length: "days_before_month y 12 + 31 = (if is_leap y then 366 else 365)"
  by (simp add: days_before_month_def upt_rec days_in_month_def)

lemma leap_day_count:
  "(c \<Longrightarrow> a) \<Longrightarrow> (d \<Longrightarrow> c) \<Longrightarrow>
    365 + (if a then 1 else 0) + (if d then 1 else 0) - (if c then 1 else 0) =
    (if a \<and> (\<not> c \<or> d) then 366 else (365 :: nat))"
  by (cases a; cases c; cases d) simp_all

lemma days_before_year_Suc:
  assumes "1 \<le> y"
  shows "days_before_year (Suc y) = days_before_year y + (if is_leap y then 366 else 365)"
proof -
  obtain p where y: "y = Suc p" using assms by (cases y) auto
  have 4: "Suc p div 4 = p div 4 + (if 4 dvd Suc p then 1 else 0)"
    by (simp add: div_Suc dvd_eq_mod_eq_0)
  have 100: "Suc p div 100 = p div 100 + (if 100 dvd Suc p then 1 else 0)"
    by (simp add: div_Suc dvd_eq_mod_eq_0)
  have 400: "Suc p div 400 = p div 400 + (if 400 dvd Suc p then 1 else 0)"
    by (simp add: div_Suc dvd_eq_mod_eq_0)
  have dvds: "100 dvd Suc p \<Longrightarrow> 4 dvd Suc p" "400 dvd Suc p \<Longrightarrow> 100 dvd Suc p"
    by (rule dvd_trans; simp)+
  have split: "(q + 365) + (a + i) - (b + j) + (c + k) = q + a - b + c + (365 + i + k - j)"
    if "b \<le> q" "j \<le> 1" for a b c i j k q :: nat
  proof -
    obtain x where "q = b + x" using \<open>b \<le> q\<close> by (auto simp: le_iff_add)
    moreover have "j = 0 \<or> j = 1" using \<open>j \<le> 1\<close> by linarith
    ultimately show ?thesis by (elim disjE) simp_all
  qed
  have q: "p div 100 \<le> 365 * p" by (rule order_trans [OF div_le_dividend]) simp
  have q': "365 * Suc p = 365 * p + 365" by simp
  have "days_before_year (Suc (Suc p)) = days_before_year (Suc p) +
      (365 + (if 4 dvd Suc p then 1 else 0) + (if 400 dvd Suc p then 1 else 0)
        - (if 100 dvd Suc p then 1 else 0))"
    unfolding days_before_year_def Let_def diff_Suc_1 4 100 400 q'
    by (rule trans [OF split [OF q]]) (split if_split, simp, rule refl)
  then show ?thesis unfolding y is_leap_def by (simp only: leap_day_count [OF dvds])
qed

subsection \<open>The order of dates and their ordinals\<close>

lemma toordinal_mono_year:
  "1 \<le> y \<Longrightarrow> y < y' \<Longrightarrow> days_before_year y + (if is_leap y then 366 else 365) \<le> days_before_year y'"
proof (induction y' rule: less_induct)
  case (less y')
  show ?case
  proof (cases "y' = Suc y")
    case True
    with less.prems show ?thesis by (simp add: days_before_year_Suc)
  next
    case False
    with less.prems obtain z where z: "y' = Suc z" "y < z" by (cases y') auto
    with less have "days_before_year y + (if is_leap y then 366 else 365) \<le> days_before_year z" by simp
    also have "\<dots> \<le> days_before_year y'" using z less.prems by (simp add: days_before_year_Suc)
    finally show ?thesis .
  qed
qed

lemma day_of_year_le:
  assumes "valid_date (Date y m d)"
  shows "days_before_month y m + d \<le> (if is_leap y then 366 else 365)"
proof (cases "m = 12")
  case True
  with assms have "d \<le> 31" by simp
  with True year_length [of y] show ?thesis by (simp split: if_splits)
next
  case False
  with assms have "days_before_month y m + days_in_month y m \<le> days_before_month y 12"
    by (intro days_before_month_mono) auto
  moreover have "d \<le> days_in_month y m" using assms by simp
  ultimately show ?thesis using year_length [of y] by linarith
qed

lemma toordinal_strict_mono:
  assumes "valid_date a" "valid_date b" "a < b"
  shows "toordinal a < toordinal b"
proof -
  obtain y m d where a: "a = Date y m d" by (cases a)
  obtain y' m' d' where b: "b = Date y' m' d'" by (cases b)
  consider "y < y'" | "y = y'" "m < m'" | "y = y'" "m = m'" "d < d'"
    using assms(3) by (auto simp: a b date_less_iff)
  then show ?thesis
  proof cases
    case 1
    then have "days_before_year y + (if is_leap y then 366 else 365) \<le> days_before_year y'"
      using assms(1) by (intro toordinal_mono_year) (auto simp: a)
    moreover have "1 \<le> d'" using assms(2) by (simp add: b)
    ultimately show ?thesis using day_of_year_le [of y m d] assms(1) by (simp add: a b)
  next
    case 2
    then have "days_before_month y m + days_in_month y m \<le> days_before_month y m'"
      using assms(1) by (intro days_before_month_mono) (auto simp: a)
    then show ?thesis using 2 assms(1,2) by (simp add: a b)
  qed (simp add: a b)
qed

lemma toordinal_less_iff:
  "valid_date a \<Longrightarrow> valid_date b \<Longrightarrow> toordinal a < toordinal b \<longleftrightarrow> a < b"
  by (metis less_asym not_less_iff_gr_or_eq toordinal_strict_mono)

lemma toordinal_le_iff:
  "valid_date a \<Longrightarrow> valid_date b \<Longrightarrow> toordinal a \<le> toordinal b \<longleftrightarrow> a \<le> b"
  by (metis linorder_not_less toordinal_less_iff)

lemma toordinal_eq_iff:
  "valid_date a \<Longrightarrow> valid_date b \<Longrightarrow> toordinal a = toordinal b \<longleftrightarrow> a = b"
  by (metis linorder_neq_iff toordinal_less_iff)

subsection \<open>Stepping a date\<close>

lemma next_day_Some:
  assumes "valid_date d" "next_day d = Some d'"
  shows "valid_date d'" "toordinal d' = Suc (toordinal d)"
proof -
  obtain y m k where d: "d = Date y m k" by (cases d)
  have "valid_date d' \<and> toordinal d' = Suc (toordinal d)"
  proof (cases "k < days_in_month y m")
    case True
    with assms show ?thesis by (auto simp: d)
  next
    case k: False
    with assms(1) have k': "k = days_in_month y m" by (simp add: d)
    show ?thesis
    proof (cases "m < 12")
      case True
      with k k' assms show ?thesis by (auto simp: d days_before_month_Suc)
    next
      case False
      with assms(1) have "m = 12" by (simp add: d)
      with k k' assms show ?thesis using year_length [of y]
        by (auto simp: d days_before_year_Suc split: if_splits)
    qed
  qed
  then show "valid_date d'" "toordinal d' = Suc (toordinal d)" by simp_all
qed

lemma next_day_None:
  assumes "valid_date d"
  shows "next_day d = None \<longleftrightarrow> d = Date 9999 12 31"
  using assms by (cases d) (auto simp: days_in_month_def split: if_splits)

definition date_measure :: "(date \<times> date) set" where
  "date_measure = measures [\<lambda>d. 10000 - year d, \<lambda>d. 12 - month d, \<lambda>d. 31 - day d]"

lemma wf_date_measure [simp]: "wf date_measure"
  by (simp add: date_measure_def)

lemma date_measure_trans: "(a, b) \<in> date_measure \<Longrightarrow> (b, c) \<in> date_measure \<Longrightarrow> (a, c) \<in> date_measure"
  by (auto simp: date_measure_def)

lemma next_day_measure: "next_day d = Some d' \<Longrightarrow> (d', d) \<in> date_measure"
  using days_in_month_bounds(2) [of "year d" "month d"]
  by (cases d) (auto simp: date_measure_def split: if_splits)

lemma add_days_measure: "0 < n \<Longrightarrow> add_days n d = Some d' \<Longrightarrow> (d', d) \<in> date_measure"
proof (induction n arbitrary: d)
  case 0
  then show ?case by simp
next
  case (Suc n)
  then obtain e where e: "next_day d = Some e" "add_days n e = Some d'" by (auto split: option.splits)
  show ?case
  proof (cases n)
    case 0
    with e show ?thesis by (simp add: next_day_measure)
  next
    case (Suc k)
    with Suc.IH [OF _ e(2)] have "(d', e) \<in> date_measure" by simp
    with next_day_measure [OF e(1)] show ?thesis by (metis date_measure_trans)
  qed
qed

lemma add_days_Some:
  assumes "valid_date d" "add_days n d = Some d'"
  shows "valid_date d' \<and> toordinal d' = toordinal d + n"
  using assms
proof (induction n arbitrary: d)
  case (Suc n)
  then obtain e where e: "next_day d = Some e" "add_days n e = Some d'" by (auto split: option.splits)
  with Suc.prems have "valid_date e" "toordinal e = Suc (toordinal d)" by (auto dest: next_day_Some)
  with Suc.IH e(2) show ?case by simp
qed simp

lemma valid_ordinal_le: "valid_date d \<Longrightarrow> toordinal d \<le> toordinal (Date 9999 12 31)"
  by (subst toordinal_le_iff) (cases d; auto simp: date_le_iff days_in_month_def)+

lemma add_days_None:
  assumes "valid_date d"
  shows "add_days n d = None \<longleftrightarrow> toordinal (Date 9999 12 31) < toordinal d + n"
  using assms
proof (induction n arbitrary: d)
  case 0
  then show ?case using valid_ordinal_le [of d] by simp
next
  case (Suc n)
  show ?case
  proof (cases "next_day d")
    case None
    with Suc.prems show ?thesis by (simp add: next_day_None)
  next
    case (Some e)
    with Suc.prems have "valid_date e" "toordinal e = Suc (toordinal d)" by (auto dest: next_day_Some)
    with Suc.IH Some show ?thesis by simp
  qed
qed

lemma prev_day_Some:
  assumes "valid_date d" "prev_day d = Some d'"
  shows "valid_date d'" "next_day d' = Some d" "Suc (toordinal d') = toordinal d"
proof -
  show v: "valid_date d'" using assms by (cases d) (auto split: if_splits)
  show n: "next_day d' = Some d" using assms by (cases d) (auto split: if_splits)
  show "Suc (toordinal d') = toordinal d" using next_day_Some(2) [OF v n] by simp
qed

end
