(* ===== verification/PyText.thy ===== *)
theory PyText
  imports Prelude
begin

section \<open>Strings: the str methods and the two regular expressions of the program\<close>

text \<open>
  A Python string is a list of code points; the model's \<open>char\<close> covers the code points below 256,
  where \<open>is_space\<close> is \<open>str.isspace\<close> (and the \<open>\s\<close> of a str pattern). \<open>lower\<close> is \<open>str.lower\<close> on
  that range, \<open>upper\<close> is \<open>str.upper\<close> on ASCII, the only range the program applies it to.
  \<open>str.casefold\<close> leaves the range and is a parameter where it is used.
\<close>

definition code_point :: "char \<Rightarrow> nat" where
  "code_point c = of_char c"

definition is_space :: "char \<Rightarrow> bool" where
  "is_space c \<longleftrightarrow> code_point c \<in> {9, 10, 11, 12, 13, 28, 29, 30, 31, 32, 133, 160}"

definition strip :: "string \<Rightarrow> string" where
  "strip s = rev (dropWhile is_space (rev (dropWhile is_space s)))"

definition lower_char :: "char \<Rightarrow> char" where
  "lower_char c =
     (if 65 \<le> code_point c \<and> code_point c \<le> 90 \<or> 192 \<le> code_point c \<and> code_point c \<le> 222 \<and> code_point c \<noteq> 215
      then char_of (code_point c + 32) else c)"

definition lower :: "string \<Rightarrow> string" where
  "lower s = map lower_char s"

definition upper :: "string \<Rightarrow> string" where
  "upper s = map (\<lambda>c. if 97 \<le> code_point c \<and> code_point c \<le> 122 then char_of (code_point c - 32) else c) s"

text \<open>\<open>s.partition(c)\<close> for a one-character separator.\<close>

definition partition_at :: "char \<Rightarrow> string \<Rightarrow> string \<times> string \<times> string" where
  "partition_at c s =
     (case dropWhile (\<lambda>x. x \<noteq> c) s of
        [] \<Rightarrow> (s, [], [])
      | x # rest \<Rightarrow> (takeWhile (\<lambda>x. x \<noteq> c) s, [x], rest))"

definition startswith :: "string \<Rightarrow> string \<Rightarrow> bool" where
  "startswith s p \<longleftrightarrow> take (length p) s = p"

definition removeprefix :: "string \<Rightarrow> string \<Rightarrow> string" where
  "removeprefix s p = (if startswith s p then drop (length p) s else s)"

text \<open>\<open>p in s\<close>, \<open>s.split(c, 1)[0]\<close> and \<open>str(n)\<close> of an int.\<close>

fun contains :: "string \<Rightarrow> string \<Rightarrow> bool" where
  "contains p [] = (p = [])"
| "contains p (c # cs) = (startswith (c # cs) p \<or> contains p cs)"

definition split_first :: "char \<Rightarrow> string \<Rightarrow> string" where
  "split_first c s = takeWhile (\<lambda>x. x \<noteq> c) s"

fun show_nat :: "nat \<Rightarrow> string" where
  "show_nat n = (if n < 10 then [char_of (48 + n)] else show_nat (n div 10) @ [char_of (48 + n mod 10)])"

declare show_nat.simps [simp del]

definition show_int :: "int \<Rightarrow> string" where
  "show_int i = (if i < 0 then CHR ''-'' # show_nat (nat (- i)) else show_nat (nat i))"

subsection \<open>Whitespace\<close>

lemma strip_no_space_left: "strip s = c # t \<Longrightarrow> \<not> is_space c"
proof -
  assume s: "strip s = c # t"
  let ?d = "dropWhile is_space s"
  have "?d \<noteq> []"
  proof
    assume "?d = []"
    then have "strip s = []" by (simp only: strip_def) simp
    with s show False by simp
  qed
  then obtain x xs where d: "?d = x # xs" by (cases ?d) auto
  then have x: "\<not> is_space x" by (metis hd_dropWhile list.distinct(1) list.sel(1))
  have "dropWhile is_space (rev xs @ [x]) = dropWhile is_space (rev xs) @ [x]"
    using x by (induction "rev xs" rule: rev_induct) (auto simp: dropWhile_append)
  then have "strip s = x # rev (dropWhile is_space (rev xs))" by (simp add: strip_def d)
  with s x show ?thesis by simp
qed

lemma set_dropWhile_subset: "set (dropWhile p xs) \<subseteq> set xs"
  by (metis set_dropWhileD subsetI)

lemma set_strip: "set (strip s) \<subseteq> set s"
  unfolding strip_def by (metis order_trans set_dropWhile_subset set_rev)

lemma length_strip: "length (strip s) \<le> length s"
  by (metis (no_types, lifting) length_dropWhile_le length_rev order_trans strip_def)

lemma dropWhile_id: "(xs = [] \<or> \<not> p (hd xs)) \<Longrightarrow> dropWhile p xs = xs"
  by (cases xs) auto

lemma last_strip: "strip s \<noteq> [] \<Longrightarrow> \<not> is_space (last (strip s))"
  unfolding strip_def by (metis hd_dropWhile last_rev rev_is_Nil_conv)

lemma strip_strip [simp]: "strip (strip s) = strip s"
proof (cases "strip s")
  case Nil
  have "strip [] = []" by (simp add: strip_def)
  with Nil show ?thesis by simp
next
  case (Cons c t)
  then have "dropWhile is_space (strip s) = strip s"
    using strip_no_space_left [of s c t] by simp
  moreover have "dropWhile is_space (rev (strip s)) = rev (strip s)"
    using last_strip [of s] Cons by (intro dropWhile_id) (metis hd_rev list.distinct(1))
  ultimately show ?thesis by (metis rev_rev_ident strip_def)
qed

lemma strip_id_no_space: "\<forall>c \<in> set s. \<not> is_space c \<Longrightarrow> strip s = s"
  unfolding strip_def by (metis dropWhile_id hd_in_set rev_rev_ident set_rev)

subsection \<open>partition\<close>

lemma partition_at_concat: "partition_at c s = (a, b, d) \<Longrightarrow> s = a @ b @ d"
  by (auto simp: partition_at_def split: list.splits) (metis takeWhile_dropWhile_id)

lemma partition_at_found:
  "c \<notin> set a \<Longrightarrow> partition_at c (a @ c # d) = (a, [c], d)"
  by (induction a) (auto simp: partition_at_def split: list.splits)

lemma partition_at_sep:
  assumes "partition_at c s = (a, b, d)"
  shows "c \<notin> set a" "b = (if c \<in> set s then [c] else [])"
proof -
  show "c \<notin> set a"
    using assms by (auto simp: partition_at_def split: list.splits dest: set_takeWhileD)
  show "b = (if c \<in> set s then [c] else [])"
  proof (cases "dropWhile (\<lambda>x. x \<noteq> c) s")
    case Nil
    then have "partition_at c s = (s, [], [])" by (simp only: partition_at_def list.case)
    moreover from Nil have "c \<notin> set s" by auto
    ultimately show ?thesis using assms by simp
  next
    case (Cons x xs)
    then have "x = c" by (metis (mono_tags, lifting) hd_dropWhile list.distinct(1) list.sel(1))
    moreover have "x \<in> set s" using Cons by (metis list.set_intros(1) set_dropWhileD)
    ultimately show ?thesis using assms Cons by (auto simp: partition_at_def)
  qed
qed

subsection \<open>The e-mail pattern\<close>

text \<open>
  \<open>email_matches\<close> decides \<^verbatim>\<open>^[^@\s]+@[^@\s]+\.[^@\s]+$\<close> under \<open>fullmatch\<close>: the text before the only
  at-sign is not empty, and the text after it has a dot that is neither its first nor its last
  character. \<open>email_language\<close> is the pattern read as a concatenation.
\<close>

definition plain :: "char \<Rightarrow> bool" where
  "plain c \<longleftrightarrow> c \<noteq> CHR ''@'' \<and> \<not> is_space c"

definition email_matches :: "string \<Rightarrow> bool" where
  "email_matches s =
     (case partition_at (CHR ''@'') s of
        (local_part, sep, host) \<Rightarrow>
          local_part \<noteq> [] \<and> sep \<noteq> [] \<and> list_all plain local_part \<and> list_all plain host \<and>
          CHR ''.'' \<in> set (butlast (tl host)))"

definition email_language :: "string \<Rightarrow> bool" where
  "email_language s \<longleftrightarrow>
     (\<exists>a b c. s = a @ ''@'' @ b @ ''.'' @ c \<and> a \<noteq> [] \<and> b \<noteq> [] \<and> c \<noteq> [] \<and>
        list_all plain a \<and> list_all plain b \<and> list_all plain c)"

lemma plain_no_space: "list_all plain a \<Longrightarrow> \<forall>c \<in> set a. \<not> is_space c"
  by (induction a) (simp_all add: plain_def)

lemma inner_dot:
  "x \<in> set (butlast (tl d)) \<longleftrightarrow> (\<exists>b c. d = b @ x # c \<and> b \<noteq> [] \<and> c \<noteq> [])"
proof
  assume "x \<in> set (butlast (tl d))"
  then obtain b c where bc: "butlast (tl d) = b @ x # c" by (auto simp: in_set_conv_decomp)
  then have "tl d \<noteq> []" by auto
  then have "d = hd d # butlast (tl d) @ [last (tl d)]"
    by (metis append_butlast_last_id list.collapse list.sel(2))
  with bc have "d = (hd d # b) @ x # (c @ [last (tl d)])" by simp
  then show "\<exists>b c. d = b @ x # c \<and> b \<noteq> [] \<and> c \<noteq> []" by blast
next
  assume "\<exists>b c. d = b @ x # c \<and> b \<noteq> [] \<and> c \<noteq> []"
  then obtain b c where "d = b @ x # c" "b \<noteq> []" "c \<noteq> []" by blast
  then show "x \<in> set (butlast (tl d))" by (simp add: butlast_append)
qed

lemma email_matches_language: "email_matches s \<longleftrightarrow> email_language s"
proof
  assume m: "email_matches s"
  obtain a b d where p: "partition_at (CHR ''@'') s = (a, b, d)" by (cases "partition_at (CHR ''@'') s")
  with m have h: "a \<noteq> []" "b \<noteq> []" "list_all plain a" "list_all plain d"
    "CHR ''.'' \<in> set (butlast (tl d))" by (auto simp: email_matches_def)
  from p h(2) have "b = ''@''" using partition_at_sep(2) [OF p] by (simp split: if_splits)
  moreover obtain u v where "d = u @ CHR ''.'' # v" "u \<noteq> []" "v \<noteq> []" using h(5) inner_dot by metis
  ultimately have "s = a @ ''@'' @ u @ ''.'' @ v" "list_all plain u" "list_all plain v"
    "u \<noteq> []" "v \<noteq> []"
    using partition_at_concat [OF p] h(4) by simp_all
  with h(1,3) show "email_language s" unfolding email_language_def by blast
next
  assume "email_language s"
  then obtain a b c where s: "s = a @ ''@'' @ b @ ''.'' @ c" "a \<noteq> []" "b \<noteq> []" "c \<noteq> []"
    "list_all plain a" "list_all plain b" "list_all plain c"
    unfolding email_language_def by blast
  then have "CHR ''@'' \<notin> set a" by (auto simp: list_all_iff plain_def)
  then have p: "partition_at (CHR ''@'') s = (a, ''@'', b @ ''.'' @ c)"
    using partition_at_found [of "CHR ''@''" a "b @ ''.'' @ c"] s(1) by simp
  have dot: "CHR ''.'' \<in> set (butlast (tl (b @ ''.'' @ c)))"
    unfolding inner_dot using s(3,4) by (intro exI [of _ b] exI [of _ c]) simp
  have "plain (CHR ''.'')" by (simp add: plain_def is_space_def code_point_def)
  with s(6,7) have d: "list_all plain (b @ ''.'' @ c)" by simp
  show "email_matches s"
    unfolding email_matches_def p prod.case
    by (intro conjI) (rule s(2), simp, rule s(5), rule d, rule dot)
qed

text \<open>A matching address has no whitespace and a non-empty part on each side of the at-sign.\<close>

lemma email_matches_plain:
  assumes "email_matches s"
  shows "\<forall>c \<in> set s. \<not> is_space c"
proof -
  obtain a b c where s: "s = a @ ''@'' @ b @ ''.'' @ c"
    and p: "list_all plain a" "list_all plain b" "list_all plain c"
    using assms unfolding email_matches_language email_language_def by blast
  have "\<not> is_space (CHR ''@'')" "\<not> is_space (CHR ''.'')"
    by (simp_all add: is_space_def code_point_def)
  moreover note p [THEN plain_no_space]
  ultimately show ?thesis unfolding s set_append ball_Un by simp
qed

subsection \<open>The colour pattern\<close>

text \<open>\<^verbatim>\<open>^#[0-9a-fA-F]{6}$\<close> under \<open>fullmatch\<close>.\<close>

definition hex_digit :: "char \<Rightarrow> bool" where
  "hex_digit c \<longleftrightarrow>
     48 \<le> code_point c \<and> code_point c \<le> 57 \<or> 97 \<le> code_point c \<and> code_point c \<le> 102 \<or> 65 \<le> code_point c \<and> code_point c \<le> 70"

fun color_matches :: "string \<Rightarrow> bool" where
  "color_matches [] = False"
| "color_matches (c # cs) = (c = CHR ''#'' \<and> length cs = 6 \<and> list_all hex_digit cs)"

lemma code_lower_char:
  "code_point (lower_char c) =
     (if 65 \<le> code_point c \<and> code_point c \<le> 90 \<or> 192 \<le> code_point c \<and> code_point c \<le> 222 \<and> code_point c \<noteq> 215
      then code_point c + 32 else code_point c)"
  by (auto simp: lower_char_def code_point_def of_char_mod_256)

lemma lower_char_idem [simp]: "lower_char (lower_char c) = lower_char c"
  by (subst (1) lower_char_def) (auto simp: code_lower_char)

lemma hex_digit_lower: "hex_digit c \<Longrightarrow> hex_digit (lower_char c)"
  by (auto simp: hex_digit_def code_lower_char)

lemma color_matches_lower: "color_matches s \<Longrightarrow> color_matches (lower s)"
proof (induction s rule: color_matches.induct)
  case (2 c cs)
  moreover have "lower_char (CHR ''#'') = CHR ''#''" by (simp add: lower_char_def code_point_def)
  ultimately show ?case by (auto simp: lower_def list_all_iff hex_digit_lower)
qed simp

lemma lower_lower [simp]: "lower (lower s) = lower s"
  by (simp add: lower_def)

lemma length_lower [simp]: "length (lower s) = length s"
  by (simp add: lower_def)

end
