(* ===== verification/PyJson.thy ===== *)
theory PyJson
  imports PyDate PyText
begin

section \<open>JSON documents and timestamps as text\<close>

text \<open>
  The JSON values the service writes, \<open>json.dumps\<close> on them with either choice of separators, and
  \<open>isoformat\<close> of an aware UTC datetime. Strings are written with the escapes of the default
  \<open>ensure_ascii\<close> encoder for the code points below 256.
\<close>

datatype json =
  JNull | JBool bool | JInt int | JStr string | JArr "json list" | JObj "(string \<times> json) list"

definition hex4 :: "nat \<Rightarrow> string" where
  "hex4 n = map (\<lambda>k. if k < 10 then char_of (48 + k) else char_of (87 + k))
     [n div 4096 mod 16, n div 256 mod 16, n div 16 mod 16, n mod 16]"

definition escape_char :: "char \<Rightarrow> string" where
  "escape_char c =
     (let n = code_point c
      in if n = 34 then [char_of (92::nat), char_of (34::nat)]
         else if n = 92 then [char_of (92::nat), char_of (92::nat)]
         else if n = 10 then [char_of (92::nat), CHR ''n'']
         else if n = 13 then [char_of (92::nat), CHR ''r'']
         else if n = 9 then [char_of (92::nat), CHR ''t'']
         else if n = 8 then [char_of (92::nat), CHR ''b'']
         else if n = 12 then [char_of (92::nat), CHR ''f'']
         else if n < 32 \<or> 126 < n then char_of (92::nat) # CHR ''u'' # hex4 n
         else [c])"

definition quote :: "string \<Rightarrow> string" where
  "quote s = char_of (34::nat) # concat (map escape_char s) @ [char_of (34::nat)]"

fun join_with :: "string \<Rightarrow> string list \<Rightarrow> string" where
  "join_with sep [] = []"
| "join_with sep [s] = s"
| "join_with sep (s # t # ss) = s @ sep @ join_with sep (t # ss)"

text \<open>\<open>json.dumps(value, separators=(item, key))\<close>.\<close>

fun dumps :: "string \<Rightarrow> string \<Rightarrow> json \<Rightarrow> string" where
  "dumps item key JNull = ''null''"
| "dumps item key (JBool b) = (if b then ''true'' else ''false'')"
| "dumps item key (JInt n) = show_int n"
| "dumps item key (JStr s) = quote s"
| "dumps item key (JArr vs) = ''['' @ join_with item (map (dumps item key) vs) @ '']''"
| "dumps item key (JObj kvs) =
     ''{'' @ join_with item (map (\<lambda>(k, v). quote k @ key @ dumps item key v) kvs) @ ''}''"

subsection \<open>Timestamps\<close>

text \<open>The local date and time, in UTC, of an instant.\<close>

fun sub_days :: "nat \<Rightarrow> date \<Rightarrow> date option" where
  "sub_days 0 d = Some d"
| "sub_days (Suc n) d = (case prev_day d of None \<Rightarrow> None | Some d' \<Rightarrow> sub_days n d')"

definition utc_date :: "int \<Rightarrow> date option" where
  "utc_date k = (if 0 \<le> k then add_days (nat k) (Date 1970 1 1) else sub_days (nat (- k)) (Date 1970 1 1))"

definition utc_datetime :: "instant \<Rightarrow> local option" where
  "utc_datetime t =
     map_option (\<lambda>d. Local d (nat (t mod days 1))) (utc_date (t div days 1))"

fun digits_fixed :: "nat \<Rightarrow> nat \<Rightarrow> string" where
  "digits_fixed 0 n = []"
| "digits_fixed (Suc k) n = digits_fixed k (n div 10) @ [char_of (48 + n mod 10)]"

definition isoformat :: "instant \<Rightarrow> string option" where
  "isoformat t =
     map_option (\<lambda>l. case local_date l of Date y m d \<Rightarrow>
         let s = local_time l div 1000000; us = local_time l mod 1000000
         in digits_fixed 4 y @ ''-'' @ digits_fixed 2 m @ ''-'' @ digits_fixed 2 d @ ''T''
            @ digits_fixed 2 (s div 3600) @ '':'' @ digits_fixed 2 (s div 60 mod 60) @ '':''
            @ digits_fixed 2 (s mod 60)
            @ (if us = 0 then [] else ''.'' @ digits_fixed 6 us) @ ''+00:00'')
       (utc_datetime t)"

subsection \<open>Reading a timestamp back\<close>

lemma sub_days_Some:
  assumes "valid_date d" "sub_days n d = Some d'"
  shows "valid_date d' \<and> toordinal d = toordinal d' + n"
  using assms
proof (induction n arbitrary: d)
  case (Suc n)
  then obtain e where e: "prev_day d = Some e" "sub_days n e = Some d'" by (auto split: option.splits)
  with prev_day_Some [OF Suc.prems(1) e(1)] Suc.IH [OF _ e(2)] show ?case by simp
qed simp

lemma epoch_ordinal: "valid_date (Date 1970 1 1)" "toordinal (Date 1970 1 1) = 719163"
  by (simp_all add: days_in_month_def days_before_year_def days_before_month_def)

lemma utc_date_Some:
  assumes "utc_date k = Some d"
  shows "valid_date d" "int (toordinal d) = 719163 + k"
proof -
  have "valid_date d \<and> int (toordinal d) = 719163 + k"
  proof (cases "0 \<le> k")
    case True
    then have "add_days (nat k) (Date 1970 1 1) = Some d" using assms by (simp only: utc_date_def if_True)
    from add_days_Some [OF epoch_ordinal(1) this, unfolded epoch_ordinal(2)] True show ?thesis by linarith
  next
    case False
    then have "sub_days (nat (- k)) (Date 1970 1 1) = Some d" using assms by (simp only: utc_date_def if_False)
    from sub_days_Some [OF epoch_ordinal(1) this, unfolded epoch_ordinal(2)] False show ?thesis by linarith
  qed
  then show "valid_date d" "int (toordinal d) = 719163 + k" by blast+
qed

lemma utc_datetime_micros:
  assumes "utc_datetime t = Some l"
  shows "local_micros l = t \<and> valid_date (local_date l) \<and> int (local_time l) < days 1"
proof -
  obtain d where d: "utc_date (t div days 1) = Some d" "l = Local d (nat (t mod days 1))"
    using assms by (auto simp: utc_datetime_def)
  have pos: "0 < days 1" by (simp add: days_def seconds_def)
  note u = utc_date_Some [OF d(1)]
  have "int (toordinal d) - 719163 = t div days 1" using u(2) by simp
  then have "local_micros l = days (t div days 1) + t mod days 1"
    using pos by (simp add: local_micros_def d(2))
  also have "days (t div days 1) = t div days 1 * days 1" by (simp add: days_def seconds_def)
  finally have "local_micros l = t" by simp
  with u(1) pos d(2) show ?thesis by simp
qed

end
