(* ===== verification/JsonReader.thy ===== *)
theory JsonReader
  imports PyJson
begin

section \<open>Reading JSON back\<close>

text \<open>
  \<open>json_read\<close> is \<open>json.loads\<close> on the documents without floating-point numbers, \<open>NaN\<close> and
  \<open>Infinity\<close>, and whose strings stay below code point 256; it is \<open>None\<close> on every other text. An object
  is the list of its members in order, of which the last with a key counts. The number of
  nested values is bounded by the length of the text, which is the fuel.
\<close>

definition is_json_space :: "char \<Rightarrow> bool" where
  "is_json_space c \<longleftrightarrow> code_point c \<in> {9, 10, 13, 32}"

definition skip_space :: "string \<Rightarrow> string" where
  "skip_space s = dropWhile is_json_space s"

definition digit_value :: "char \<Rightarrow> nat option" where
  "digit_value c = (let n = code_point c in if 48 \<le> n \<and> n \<le> 57 then Some (n - 48) else None)"

definition hex_value :: "char \<Rightarrow> nat option" where
  "hex_value c =
     (let n = code_point c
      in if 48 \<le> n \<and> n \<le> 57 then Some (n - 48) else if 97 \<le> n \<and> n \<le> 102 then Some (n - 87)
         else if 65 \<le> n \<and> n \<le> 70 then Some (n - 55) else None)"

fun read_digits :: "nat \<Rightarrow> string \<Rightarrow> nat \<times> string" where
  "read_digits acc [] = (acc, [])"
| "read_digits acc (c # cs) =
     (case digit_value c of None \<Rightarrow> (acc, c # cs) | Some k \<Rightarrow> read_digits (10 * acc + k) cs)"

text \<open>An integer has no leading zero, and neither a fraction nor an exponent follows it.\<close>

definition read_nat :: "string \<Rightarrow> (nat \<times> string) option" where
  "read_nat s =
     (case s of
        [] \<Rightarrow> None
      | c # cs \<Rightarrow>
          (case digit_value c of
             None \<Rightarrow> None
           | Some k \<Rightarrow>
               let (n, rest) = if k = 0 then (0, cs) else read_digits k cs
               in if rest \<noteq> [] \<and> hd rest \<in> set ''.eE'' then None else Some (n, rest)))"

definition simple_escape :: "char \<Rightarrow> char option" where
  "simple_escape c =
     map_of [(char_of (34::nat), char_of (34::nat)), (char_of (92::nat), char_of (92::nat)), (CHR ''/'', CHR ''/''),
       (CHR ''b'', char_of (8::nat)), (CHR ''f'', char_of (12::nat)), (CHR ''n'', char_of (10::nat)),
       (CHR ''r'', char_of (13::nat)), (CHR ''t'', char_of (9::nat))] c"

text \<open>The four digits of a \<^verbatim>\<open>\u\<close> escape; \<open>None\<close> beyond the model's characters.\<close>

definition read_hex4 :: "char \<Rightarrow> char \<Rightarrow> char \<Rightarrow> char \<Rightarrow> char option" where
  "read_hex4 a b c d =
     (case (hex_value a, hex_value b, hex_value c, hex_value d) of
        (Some i, Some j, Some k, Some l) \<Rightarrow>
          let n = ((i * 16 + j) * 16 + k) * 16 + l in if n < 256 then Some (char_of n) else None
      | _ \<Rightarrow> None)"

text \<open>The text of a string after its opening quote.\<close>

fun read_string :: "string \<Rightarrow> (string \<times> string) option" where
  "read_string [] = None"
| "read_string (c # cs) =
     (if code_point c = 34 then Some ([], cs)
      else if code_point c = 92
      then (case cs of
              [] \<Rightarrow> None
            | e # r \<Rightarrow>
                if e = CHR ''u''
                then (case r of
                        h1 # h2 # h3 # h4 # r \<Rightarrow>
                          (case read_hex4 h1 h2 h3 h4 of
                             None \<Rightarrow> None
                           | Some x \<Rightarrow> map_option (\<lambda>(s, t). (x # s, t)) (read_string r))
                      | _ \<Rightarrow> None)
                else (case simple_escape e of
                        None \<Rightarrow> None
                      | Some x \<Rightarrow> map_option (\<lambda>(s, t). (x # s, t)) (read_string r)))
      else if code_point c < 32 then None
      else map_option (\<lambda>(s, t). (c # s, t)) (read_string cs))"

text \<open>
  \<open>read_elems\<close> and \<open>read_members\<close> read the rest of an array and of an object from an element on.
\<close>

fun read_value :: "nat \<Rightarrow> string \<Rightarrow> (json \<times> string) option"
  and read_elems :: "nat \<Rightarrow> string \<Rightarrow> (json list \<times> string) option"
  and read_members :: "nat \<Rightarrow> string \<Rightarrow> ((string \<times> json) list \<times> string) option" where
  "read_value 0 s = None"
| "read_value (Suc k) s =
     (case skip_space s of
        [] \<Rightarrow> None
      | c # cs \<Rightarrow>
          if startswith (c # cs) ''null'' then Some (JNull, drop 4 (c # cs))
          else if startswith (c # cs) ''true'' then Some (JBool True, drop 4 (c # cs))
          else if startswith (c # cs) ''false'' then Some (JBool False, drop 5 (c # cs))
          else if code_point c = 34 then map_option (\<lambda>(t, r). (JStr t, r)) (read_string cs)
          else if c = CHR ''-'' then map_option (\<lambda>(n, r). (JInt (- int n), r)) (read_nat cs)
          else if c = CHR ''[''
          then (case skip_space cs of
                  [] \<Rightarrow> None
                | d # ds \<Rightarrow>
                    if d = CHR '']'' then Some (JArr [], ds)
                    else map_option (\<lambda>(vs, r). (JArr vs, r)) (read_elems k (d # ds)))
          else if c = CHR ''{''
          then (case skip_space cs of
                  [] \<Rightarrow> None
                | d # ds \<Rightarrow>
                    if d = CHR ''}'' then Some (JObj [], ds)
                    else map_option (\<lambda>(kvs, r). (JObj kvs, r)) (read_members k (d # ds)))
          else map_option (\<lambda>(n, r). (JInt (int n), r)) (read_nat (c # cs)))"
| "read_elems 0 s = None"
| "read_elems (Suc k) s =
     (case read_value k s of
        None \<Rightarrow> None
      | Some (v, r) \<Rightarrow>
          (case skip_space r of
             [] \<Rightarrow> None
           | c # cs \<Rightarrow>
               if c = CHR '']'' then Some ([v], cs)
               else if c = CHR '','' then map_option (\<lambda>(vs, r). (v # vs, r)) (read_elems k cs)
               else None))"
| "read_members 0 s = None"
| "read_members (Suc k) s =
     (case skip_space s of
        [] \<Rightarrow> None
      | q # cs \<Rightarrow>
          if code_point q \<noteq> 34 then None
          else (case read_string cs of
                  None \<Rightarrow> None
                | Some (key, r) \<Rightarrow>
                    (case skip_space r of
                       [] \<Rightarrow> None
                     | c # cs \<Rightarrow>
                         if c \<noteq> CHR '':'' then None
                         else (case read_value k cs of
                                 None \<Rightarrow> None
                               | Some (v, r) \<Rightarrow>
                                   (case skip_space r of
                                      [] \<Rightarrow> None
                                    | c # cs \<Rightarrow>
                                        if c = CHR ''}'' then Some ([(key, v)], cs)
                                        else if c = CHR '',''
                                        then map_option (\<lambda>(kvs, r). ((key, v) # kvs, r)) (read_members k cs)
                                        else None)))))"

definition json_read :: "string \<Rightarrow> json option" where
  "json_read s =
     (case read_value (2 * length s) s of
        Some (v, r) \<Rightarrow> if skip_space r = [] then Some v else None
      | None \<Rightarrow> None)"

subsection \<open>What \<open>dumps\<close> writes is read back\<close>

lemma code_point_char_of: "n < 256 \<Longrightarrow> code_point (char_of n) = n"
  by (simp add: code_point_def)

lemma code_point_less: "code_point c < 256"
  by (simp add: code_point_def)

lemma code_point_eq: "code_point c = code_point d \<longleftrightarrow> c = d"
  by (simp add: code_point_def)

lemma digit_char: "k < 10 \<Longrightarrow> digit_value (char_of (48 + k)) = Some k"
  by (simp add: digit_value_def code_point_char_of)

lemma read_digits_append:
  "read_digits acc (xs @ ys) = (let (a, r) = read_digits acc xs in if r = [] then read_digits a ys else (a, r @ ys))"
  by (induction acc xs rule: read_digits.induct) (auto split: option.splits prod.splits)

definition number_ends :: "string \<Rightarrow> bool" where
  "number_ends rest \<longleftrightarrow> rest = [] \<or> digit_value (hd rest) = None \<and> hd rest \<notin> set ''.eE''"

lemma read_digits_ends: "number_ends rest \<Longrightarrow> read_digits acc rest = (acc, rest)"
  by (cases rest) (auto simp: number_ends_def)

lemma show_nat_reads:
  "\<exists>c cs k. show_nat n = c # cs \<and> digit_value c = Some k \<and> (k = 0 \<longleftrightarrow> n = 0) \<and> (n = 0 \<longrightarrow> cs = [])
     \<and> read_digits k cs = (n, [])"
proof (induction n rule: show_nat.induct)
  case (1 n)
  show ?case
  proof (cases "n < 10")
    case True
    then show ?thesis by (simp add: show_nat.simps digit_char)
  next
    case False
    from 1 [OF this] obtain c cs k where q: "show_nat (n div 10) = c # cs" "digit_value c = Some k"
      "k = 0 \<longleftrightarrow> n div 10 = 0" "n div 10 = 0 \<longrightarrow> cs = []" "read_digits k cs = (n div 10, [])" by (elim exE conjE) (rule that)
    have "show_nat n = c # cs @ [char_of (48 + n mod 10)]"
      by (subst show_nat.simps) (use False q in simp)
    moreover have "read_digits k (cs @ [char_of (48 + n mod 10)]) = (n, [])"
      by (simp add: read_digits_append q digit_char)
    ultimately show ?thesis using q False by auto
  qed
qed

lemma read_nat_show: "number_ends rest \<Longrightarrow> read_nat (show_nat n @ rest) = Some (n, rest)"
proof -
  assume e: "number_ends rest"
  obtain c cs k where s: "show_nat n = c # cs" "digit_value c = Some k" "k = 0 \<longleftrightarrow> n = 0" "n = 0 \<longrightarrow> cs = []"
    "read_digits k cs = (n, [])" using show_nat_reads by blast
  have "read_digits k (cs @ rest) = (n, rest)" by (simp add: read_digits_append s read_digits_ends [OF e])
  then show ?thesis using s e by (auto simp: read_nat_def number_ends_def Let_def)
qed

lemma hex_digit_value: "n < 16 \<Longrightarrow> hex_value (if n < 10 then char_of (48 + n) else char_of (87 + n)) = Some n"
  by (auto simp: hex_value_def code_point_char_of Let_def)

lemma read_hex4_hex4:
  "n < 256 \<Longrightarrow> hex4 n = [a, b, c, d] \<Longrightarrow> read_hex4 a b c d = Some (char_of n)"
proof -
  assume n: "n < 256" and h: "hex4 n = [a, b, c, d]"
  have v: "hex_value a = Some (n div 4096 mod 16)" "hex_value b = Some (n div 256 mod 16)"
    "hex_value c = Some (n div 16 mod 16)" "hex_value d = Some (n mod 16)"
    using h unfolding hex4_def list.map list.inject
    by (auto simp only: intro!: hex_digit_value) 
  have z: "n div 4096 mod 16 = 0" "n div 256 mod 16 = 0" "n div 16 mod 16 = n div 16" using n by auto
  show ?thesis unfolding read_hex4_def v by (simp add: z n)
qed


lemma char_literals:
  "char_of (34::nat) = CHR 0x22" "char_of (92::nat) = CHR 0x5C" "char_of (10::nat) = CHR 0x0A" "char_of (13::nat) = CHR 0x0D"
  "char_of (9::nat) = CHR 0x09" "char_of (8::nat) = CHR 0x08" "char_of (12::nat) = CHR 0x0C" "char_of (47::nat) = CHR ''/''"
  by code_simp+

lemma read_escape: "read_string (escape_char c @ s) = map_option (\<lambda>(t, r). (c # t, r)) (read_string s)"
proof -
  let ?n = "code_point c"
  have c: "c = char_of ?n" by (simp add: code_point_def)
  have n: "?n < 256" by (rule code_point_less)
  show ?thesis
  proof (cases "?n \<in> {34, 92, 10, 13, 9, 8, 12}")
    case True
    then show ?thesis
      by (elim insertE; subst (2) c; simp add: escape_char_def code_point_def simple_escape_def Let_def char_literals)
  next
    case False
    show ?thesis
    proof (cases "?n < 32 \<or> 126 < ?n")
      case True
      obtain a b x d where h: "hex4 ?n = [a, b, x, d]" by (simp add: hex4_def)
      have "escape_char c = char_of (92::nat) # CHR ''u'' # hex4 ?n" using False True by (simp add: escape_char_def Let_def)
      then show ?thesis
        using read_hex4_hex4 [OF n h] by (simp add: h code_point_char_of c [symmetric])
    next
      case plain: False
      then have "escape_char c = [c]" using False by (simp add: escape_char_def Let_def)
      then show ?thesis using False plain by simp
    qed
  qed
qed

lemma read_quoted: "read_string (concat (map escape_char t) @ char_of (34::nat) # rest) = Some (t, rest)"
  by (induction t) (simp_all add: read_escape code_point_char_of)


text \<open>The fuel a value needs.\<close>

fun jsize :: "json \<Rightarrow> nat" where
  "jsize (JArr vs) = Suc (sum_list (map (\<lambda>v. Suc (jsize v)) vs))"
| "jsize (JObj kvs) = Suc (sum_list (map (\<lambda>(k, v). Suc (jsize v)) kvs))"
| "jsize v = 1"

lemma jsize_pos: "0 < jsize v"
  by (cases v) auto

definition separators :: "string \<Rightarrow> string \<Rightarrow> bool" where
  "separators item key \<longleftrightarrow> item \<in> {'','', '', ''} \<and> key \<in> {'':'', '': ''}"

lemma join_length: "sum_list (map length ss) + length ss \<le> length (join_with sep ss) + 1" if "sep \<noteq> []"
proof -
  have "0 < length sep" using that by simp
  then show ?thesis by (induction sep ss rule: join_with.induct) (auto simp del: length_greater_0_conv)
qed

lemma show_nat_nonempty: "0 < length (show_nat n)"
  using show_nat_reads [of n] by auto

lemma sum_list_bound: "(\<And>x. x \<in> set xs \<Longrightarrow> f x \<le> (g x :: nat)) \<Longrightarrow> sum_list (map (\<lambda>x. Suc (f x)) xs) \<le> sum_list (map g xs) + length xs"
  by (induction xs) fastforce+

lemma jsize_length:
  assumes "separators item key"
  shows "jsize v \<le> length (dumps item key v)"
proof (induction v)
  case (JInt x)
  then show ?case using show_nat_nonempty by (auto simp: show_int_def Suc_le_eq)
next
  case (JArr vs)
  have "sum_list (map (\<lambda>v. Suc (jsize v)) vs) \<le> sum_list (map (\<lambda>v. length (dumps item key v)) vs) + length vs"
    by (rule sum_list_bound) (rule JArr)
  then show ?case
    using join_length [of item "map (dumps item key) vs"] assms by (auto simp: separators_def comp_def)
next
  case (JObj kvs)
  have "sum_list (map (\<lambda>x. Suc (jsize (snd x))) kvs)
      \<le> sum_list (map (\<lambda>x. length (quote (fst x) @ key @ dumps item key (snd x))) kvs) + length kvs"
  proof (rule sum_list_bound)
    fix x assume "x \<in> set kvs"
    then have "jsize (snd x) \<le> length (dumps item key (snd x))"
      by (rule JObj [of x]) (cases x; simp)
    then show "jsize (snd x) \<le> length (quote (fst x) @ key @ dumps item key (snd x))" by simp
  qed
  then show ?case
    using join_length [of item "map (\<lambda>(k, v). quote k @ key @ dumps item key v) kvs"] assms
    by (auto simp: separators_def comp_def case_prod_unfold)
qed (simp_all add: quote_def)


lemma skip_spaces [simp]: "\<forall>c \<in> set sp. is_json_space c \<Longrightarrow> skip_space (sp @ s) = skip_space s"
  by (simp add: skip_space_def)

lemma read_value_spaces: "\<forall>c \<in> set sp. is_json_space c \<Longrightarrow> read_value k (sp @ s) = read_value k s"
  by (cases k) simp_all

lemma read_elems_spaces: "\<forall>c \<in> set sp. is_json_space c \<Longrightarrow> read_elems k (sp @ s) = read_elems k s"
  by (cases k) (simp_all add: read_value_spaces)

lemma read_members_spaces: "\<forall>c \<in> set sp. is_json_space c \<Longrightarrow> read_members k (sp @ s) = read_members k s"
  by (cases k) simp_all

lemma skip_other: "\<not> is_json_space c \<Longrightarrow> skip_space (c # s) = c # s"
  by (simp add: skip_space_def)

lemma show_int_head: "\<exists>c cs. show_int i = c # cs \<and> (c = CHR ''-'' \<or> digit_value c \<noteq> None)"
  using show_nat_reads [of "nat i"] by (auto simp: show_int_def)

lemma digit_not:
  "digit_value c \<noteq> None \<Longrightarrow> \<not> is_json_space c \<and> c \<notin> set ''-[]{}ntf'' \<and> code_point c \<noteq> 34"
  by (auto simp: digit_value_def is_json_space_def code_point_def Let_def split: if_splits)

lemma dumps_head:
  "\<exists>c cs. dumps item key v = c # cs \<and> \<not> is_json_space c \<and> c \<noteq> CHR '']'' \<and> c \<noteq> CHR ''}''"
proof (cases v)
  case (JInt i)
  from show_int_head [of i] obtain c cs where "show_int i = c # cs" "c = CHR ''-'' \<or> digit_value c \<noteq> None" by blast
  with digit_not [of c] JInt show ?thesis by (auto simp: is_json_space_def code_point_def)
qed (auto simp: is_json_space_def code_point_def quote_def char_literals)

lemma read_int:
  assumes "number_ends rest"
  shows "read_value (Suc k) (show_int i @ rest) = Some (JInt i, rest)"
proof (cases "i < 0")
  case True
  then show ?thesis
    using read_nat_show [OF assms, of "nat (- i)"]
    by (simp add: show_int_def skip_other is_json_space_def code_point_def startswith_def)
next
  case False
  obtain c cs where c: "show_nat (nat i) = c # cs" "digit_value c \<noteq> None" using show_nat_reads [of "nat i"] by auto
  note d = digit_not [OF c(2)]
  have "read_nat (c # cs @ rest) = Some (nat i, rest)" using read_nat_show [OF assms, of "nat i"] by (simp add: c)
  with d False show ?thesis by (simp add: show_int_def c skip_other startswith_def)
qed

lemma separatorsD:
  assumes "separators item key"
  obtains sp sq where "item = CHR '','' # sp" "key = CHR '':'' # sq" "\<forall>c \<in> set sp. is_json_space c" "\<forall>c \<in> set sq. is_json_space c"
proof -
  have "is_json_space CHR '' ''" by (simp add: is_json_space_def code_point_def)
  then show thesis
    using assms that [of "tl item" "tl key"] by (auto simp: separators_def)
qed

lemma literal_spaces:
  "\<not> is_json_space CHR '',''" "\<not> is_json_space CHR '':''" "\<not> is_json_space CHR '']''" "\<not> is_json_space CHR ''}''"
  "\<not> is_json_space CHR ''[''" "\<not> is_json_space CHR ''{''" "\<not> is_json_space CHR 0x22" "\<not> is_json_space CHR ''n''"
  "\<not> is_json_space CHR ''t''" "\<not> is_json_space CHR ''f''"
  by (simp_all add: is_json_space_def code_point_def)

lemma number_ends_at: "number_ends (CHR '','' # s)" "number_ends (CHR '']'' # s)" "number_ends (CHR ''}'' # s)" "number_ends []"
  by (simp_all add: number_ends_def digit_value_def code_point_def)

lemma read_elems_join:
  assumes sep: "separators item key" and "vs \<noteq> []" "sum_list (map (\<lambda>v. Suc (jsize v)) vs) \<le> k"
    and "\<And>v k rest. v \<in> set vs \<Longrightarrow> jsize v \<le> k \<Longrightarrow> number_ends rest \<Longrightarrow> read_value k (dumps item key v @ rest) = Some (v, rest)"
  shows "read_elems k (join_with item (map (dumps item key) vs) @ CHR '']'' # rest) = Some (vs, rest)"
  using assms(2-)
proof (induction vs arbitrary: k)
  case (Cons v vs)
  obtain sp sq where sp: "item = CHR '','' # sp" "\<forall>c \<in> set sp. is_json_space c" by (rule separatorsD [OF sep])
  obtain j where k: "k = Suc j" using Cons.prems(2) by (cases k) auto
  have j: "jsize v \<le> j" "sum_list (map (\<lambda>v. Suc (jsize v)) vs) \<le> j" using Cons.prems(2) k by auto
  note v = Cons.prems(3) [of v, OF _ j(1)]
  show ?case
  proof (cases "vs = []")
    case True
    then show ?thesis using v [OF _ number_ends_at(2)] by (simp add: k skip_other literal_spaces)
  next
    case False
    have "read_elems j (join_with item (map (dumps item key) vs) @ CHR '']'' # rest) = Some (vs, rest)"
      by (rule Cons.IH [OF False j(2)]) (rule Cons.prems(3); simp)
    moreover have "join_with item (map (dumps item key) (v # vs)) =
        dumps item key v @ CHR '','' # sp @ join_with item (map (dumps item key) vs)"
      using False by (cases vs) (simp_all add: sp)
    ultimately show ?thesis
      using v [OF _ number_ends_at(1)] by (simp add: k skip_other literal_spaces read_elems_spaces [OF sp(2)])
  qed
qed simp

lemma read_members_join:
  assumes sep: "separators item key" and "kvs \<noteq> []" "sum_list (map (\<lambda>x. Suc (jsize (snd x))) kvs) \<le> k"
    and "\<And>x k rest. x \<in> set kvs \<Longrightarrow> jsize (snd x) \<le> k \<Longrightarrow> number_ends rest
      \<Longrightarrow> read_value k (dumps item key (snd x) @ rest) = Some (snd x, rest)"
  shows "read_members k (join_with item (map (\<lambda>(k, v). quote k @ key @ dumps item key v) kvs) @ CHR ''}'' # rest) = Some (kvs, rest)"
  using assms(2-)
proof (induction kvs arbitrary: k)
  case (Cons x kvs)
  obtain sp sq where sp: "item = CHR '','' # sp" "key = CHR '':'' # sq" "\<forall>c \<in> set sp. is_json_space c" "\<forall>c \<in> set sq. is_json_space c"
    by (rule separatorsD [OF sep])
  obtain j where k: "k = Suc j" using Cons.prems(2) by (cases k) auto
  have j: "jsize (snd x) \<le> j" "sum_list (map (\<lambda>x. Suc (jsize (snd x))) kvs) \<le> j" using Cons.prems(2) k by auto
  obtain n v where x: "x = (n, v)" by (cases x)
  note v = Cons.prems(3) [of x, OF _ j(1), unfolded x snd_conv, simplified]
  have name: "read_string (concat (map escape_char n) @ CHR 0x22 # r) = Some (n, r)" for r
    using read_quoted [of n r] by (simp add: char_literals)
  show ?case
  proof (cases "kvs = []")
    case True
    then show ?thesis using v [OF number_ends_at(3)]
      by (simp add: k x quote_def char_literals skip_other literal_spaces name sp(2) read_value_spaces [OF sp(4)] code_point_def)
  next
    case False
    let ?f = "\<lambda>(k, v). quote k @ key @ dumps item key v"
    have "read_members j (join_with item (map ?f kvs) @ CHR ''}'' # rest) = Some (kvs, rest)"
      by (rule Cons.IH [OF False j(2)]) (rule Cons.prems(3); simp)
    moreover have "join_with item (map ?f (x # kvs)) =
        quote n @ CHR '':'' # sq @ dumps item key v @ CHR '','' # sp @ join_with item (map ?f kvs)"
      using False by (cases kvs) (simp_all add: sp(1,2) x)
    ultimately show ?thesis
      using v [OF number_ends_at(1)]
      by (simp add: k x quote_def char_literals skip_other literal_spaces name read_value_spaces [OF sp(4)] read_members_spaces [OF sp(3)] code_point_def)
  qed
qed simp

lemma read_dumps:
  assumes sep: "separators item key" and "jsize v \<le> k" "number_ends rest"
  shows "read_value k (dumps item key v @ rest) = Some (v, rest)"
  using assms(2,3)
proof (induction v arbitrary: k rest)
  case (JInt i)
  then show ?case using read_int by (cases k) simp_all
next
  case (JStr t)
  then show ?case
    using read_quoted [of t rest]
    by (cases k) (simp_all add: quote_def char_literals skip_other literal_spaces startswith_def code_point_def)
next
  case (JArr vs)
  obtain j where k: "k = Suc j" using JArr.prems(1) by (cases k) auto
  have read: "read_elems j (join_with item (map (dumps item key) vs) @ CHR '']'' # rest) = Some (vs, rest)" if "vs \<noteq> []"
    by (rule read_elems_join [OF sep that]) (use JArr k in auto)
  show ?case
  proof (cases vs)
    case Nil
    then show ?thesis by (simp add: k skip_other literal_spaces startswith_def code_point_def)
  next
    case (Cons v us)
    obtain c cs where c: "dumps item key v = c # cs" "\<not> is_json_space c" "c \<noteq> CHR '']''"
      using dumps_head [of item key v] by blast
    have "\<exists>ds. join_with item (map (dumps item key) vs) = c # ds" using c(1) Cons by (cases us) auto
    then obtain ds where ds: "join_with item (map (dumps item key) vs) = c # ds" ..
    have "read_elems j (c # ds @ CHR '']'' # rest) = Some (vs, rest)" using read [unfolded ds] Cons by simp
    then show ?thesis using c by (simp add: k ds skip_other literal_spaces startswith_def code_point_def)
  qed
next
  case (JObj kvs)
  obtain j where k: "k = Suc j" using JObj.prems(1) by (cases k) auto
  let ?f = "\<lambda>(k, v). quote k @ key @ dumps item key v"
  have read: "read_members j (join_with item (map ?f kvs) @ CHR ''}'' # rest) = Some (kvs, rest)" if "kvs \<noteq> []"
  proof (rule read_members_join [OF sep that])
    show "sum_list (map (\<lambda>x. Suc (jsize (snd x))) kvs) \<le> j" using JObj.prems(1) k by (simp add: case_prod_unfold)
    fix x k' rest' assume "x \<in> set kvs" "jsize (snd x) \<le> k'" "number_ends rest'"
    then show "read_value k' (dumps item key (snd x) @ rest') = Some (snd x, rest')"
      by (intro JObj.IH [of x]) (cases x; simp)+
  qed
  show ?case
  proof (cases kvs)
    case Nil
    then show ?thesis by (simp add: k skip_other literal_spaces startswith_def code_point_def)
  next
    case (Cons x us)
    have "\<exists>ds. join_with item (map ?f kvs) = CHR 0x22 # ds"
      unfolding Cons by (cases us; cases x) (simp_all add: quote_def char_literals)
    then obtain ds where ds: "join_with item (map ?f kvs) = CHR 0x22 # ds" ..
    have "read_members j (CHR 0x22 # ds @ CHR ''}'' # rest) = Some (kvs, rest)" using read [unfolded ds] Cons by simp
    then show ?thesis by (simp add: k ds skip_other literal_spaces startswith_def code_point_def)
  qed
next
  case JNull
  then show ?case by (cases k) (simp_all add: skip_other literal_spaces startswith_def)
next
  case (JBool b)
  then show ?case by (cases k; cases b) (simp_all add: skip_other literal_spaces startswith_def)
qed

text \<open>
  \<open>json.loads\<close> reads back every document \<open>json.dumps\<close> wrote, with the compact separators and
  with the default ones, whatever characters its strings hold.
\<close>

theorem json_round_trip: "json_read (dumps '','' '':'' v) = Some v \<and> json_read (dumps '', '' '': '' v) = Some v"
proof -
  have "json_read (dumps item key v) = Some v" if s: "separators item key" for item key
  proof -
    have "jsize v \<le> 2 * length (dumps item key v)" using jsize_length [OF s, of v] by simp
    from read_dumps [OF s this number_ends_at(4)] show ?thesis by (simp add: json_read_def skip_space_def)
  qed
  then show ?thesis by (simp add: separators_def)
qed

end
