(* ===== verification/Expansion.thy ===== *)
theory Expansion
  imports PyDate PyText
begin

section \<open>Expansion of a wall-clock series (app/domain/recurrence.py)\<close>

text \<open>
  The frequencies and their stored RRULE text, the monthly cursor and the loop of
  \<open>expand_occurrences\<close>. The time-zone databases (\<open>zoneinfo\<close> and \<open>dateutil.tz\<close>) are parameters:
  \<open>known\<close> is the success of the \<open>ZoneInfo\<close> constructor, \<open>gettz\<close> is \<open>tz.gettz\<close>, and a zone
  offers \<open>zone_exists\<close> (\<open>tz.datetime_exists\<close>) and \<open>zone_instant\<close> (\<open>astimezone(UTC)\<close> at fold 0).
  The lemmas show that the loop ends, and that it lists exactly the dates of a declarative
  reference in increasing order.
\<close>

datatype frequency = Daily | Weekly | Monthly

datatype py_exn = ValueError string | OverflowError string

record zone =
  zone_exists :: "local \<Rightarrow> bool"
  zone_instant :: "local \<Rightarrow> instant"

datatype occurrence = Occurrence (occ_local: local) (instant_of: instant)

definition max_occurrences :: int where
  "max_occurrences = 10000"

subsection \<open>RRULE text\<close>

fun frequency_name :: "frequency \<Rightarrow> string" where
  "frequency_name Daily = ''daily''"
| "frequency_name Weekly = ''weekly''"
| "frequency_name Monthly = ''monthly''"

definition normalized_rrule :: "frequency \<Rightarrow> string" where
  "normalized_rrule f = ''FREQ='' @ upper (frequency_name f) @ '';INTERVAL=1''"

definition frequency_from_rrule :: "string \<Rightarrow> py_exn + frequency" where
  "frequency_from_rrule value =
     (let first = split_first (CHR '';'') value;
          result = lower (removeprefix first ''FREQ='')
      in if result = ''daily'' then Inr Daily
         else if result = ''weekly'' then Inr Weekly
         else if result = ''monthly'' then Inr Monthly
         else Inl (ValueError (''unsupported stored RRULE: '' @ value)))"

subsection \<open>The loop\<close>

definition next_month :: "local \<Rightarrow> nat \<Rightarrow> py_exn + local" where
  "next_month value wanted_day =
     (let d = local_date value;
          (y, m) = (if month d + 1 = 13 then (year d + 1, 1) else (year d, month d + 1));
          k = (if wanted_day \<le> days_in_month y m then wanted_day else 1)
      in case mk_date y m k of
           None \<Rightarrow> Inl (ValueError (''year '' @ show_nat y @ '' is out of range''))
         | Some d' \<Rightarrow> Inr (Local d' (local_time value)))"

definition plus_days :: "nat \<Rightarrow> local \<Rightarrow> py_exn + local" where
  "plus_days n c =
     (case add_days n (local_date c) of
        None \<Rightarrow> Inl (OverflowError ''date value out of range'')
      | Some d \<Rightarrow> Inr (Local d (local_time c)))"

fun advance :: "frequency \<Rightarrow> nat \<Rightarrow> local \<Rightarrow> py_exn + local" where
  "advance Daily wanted_day c = plus_days 1 c"
| "advance Weekly wanted_day c = plus_days 7 c"
| "advance Monthly wanted_day c = next_month c wanted_day"

definition valid_calendar_day :: "frequency \<Rightarrow> nat \<Rightarrow> local \<Rightarrow> bool" where
  "valid_calendar_day f wanted_day c \<longleftrightarrow> f \<noteq> Monthly \<or> day (local_date c) = wanted_day"

definition too_many :: "int \<Rightarrow> py_exn" where
  "too_many limit = OverflowError (''series exceeds '' @ show_int limit @ '' occurrences'')"

text \<open>The body of the loop up to the append and its check.\<close>

definition visit ::
  "zone \<Rightarrow> frequency \<Rightarrow> nat \<Rightarrow> int \<Rightarrow> local \<Rightarrow> occurrence list \<Rightarrow> py_exn + occurrence list" where
  "visit z f wanted_day limit c result =
     (if valid_calendar_day f wanted_day c \<and> zone_exists z c
      then let result' = result @ [Occurrence c (zone_instant z c)]
           in if int (length result') > limit then Inl (too_many limit) else Inr result'
      else Inr result)"

function expand_loop ::
  "zone \<Rightarrow> frequency \<Rightarrow> nat \<Rightarrow> date \<Rightarrow> int \<Rightarrow> local \<Rightarrow> occurrence list \<Rightarrow> py_exn + occurrence list" where
  "expand_loop z f wanted_day end_date limit c result =
     (if local_date c \<le> end_date
      then try_then (visit z f wanted_day limit c result)
             (\<lambda>result'. try_then (advance f wanted_day c)
                (\<lambda>c'. expand_loop z f wanted_day end_date limit c' result'))
      else Inr result)"
  by pat_completeness auto

lemma next_month_measure:
  "next_month c w = Inr c' \<Longrightarrow> (local_date c', local_date c) \<in> date_measure"
  by (cases "local_date c")
    (auto simp: next_month_def date_measure_def mk_date_def Let_def split: if_splits)

lemma plus_days_measure:
  "0 < n \<Longrightarrow> plus_days n c = Inr c' \<Longrightarrow> (local_date c', local_date c) \<in> date_measure"
  by (auto simp: plus_days_def dest: add_days_measure split: option.splits)

lemma advance_measure: "advance f w c = Inr c' \<Longrightarrow> (local_date c', local_date c) \<in> date_measure"
  by (cases f) (auto intro: next_month_measure plus_days_measure [of 1] plus_days_measure [of 7])

termination expand_loop
  by (relation "inv_image date_measure (\<lambda>(z, f, w, e, l, c, r). local_date c)")
    (auto dest: advance_measure)

declare expand_loop.simps [simp del]

definition expand_occurrences ::
  "(string \<Rightarrow> bool) \<Rightarrow> (string \<Rightarrow> zone option) \<Rightarrow> datetime \<Rightarrow> string \<Rightarrow> frequency \<Rightarrow> date \<Rightarrow> int
    \<Rightarrow> py_exn + occurrence list" where
  "expand_occurrences known gettz local_start timezone f end_date limit =
     (if dt_offset local_start \<noteq> None then Inl (ValueError ''local_start must be naive'')
      else if \<not> known timezone then Inl (ValueError ''unknown IANA timezone'')
      else case gettz timezone of
        None \<Rightarrow> Inl (ValueError ''unknown IANA timezone'')
      | Some z \<Rightarrow>
          (let start = dt_local local_start
           in if end_date < local_date start
              then Inl (ValueError ''end_date must be on or after local_start'')
              else expand_loop z f (day (local_date start)) end_date limit start []))"

subsection \<open>The reference\<close>

text \<open>
  What a series promises: every day, every seventh day, or the days of the month that equal the
  starting day, from the start to the inclusive end. Months without that day have none.
\<close>

fun recurs :: "frequency \<Rightarrow> date \<Rightarrow> date \<Rightarrow> bool" where
  "recurs Daily start d = True"
| "recurs Weekly start d = (7 dvd toordinal d - toordinal start)"
| "recurs Monthly start d = (day d = day start)"

definition series_dates :: "frequency \<Rightarrow> date \<Rightarrow> date \<Rightarrow> date set" where
  "series_dates f start end_date =
     {d. valid_date d \<and> start \<le> d \<and> d \<le> end_date \<and> recurs f start d}"

definition existing_dates :: "zone \<Rightarrow> frequency \<Rightarrow> local \<Rightarrow> date \<Rightarrow> date set" where
  "existing_dates z f start end_date =
     {d \<in> series_dates f (local_date start) end_date. zone_exists z (Local d (local_time start))}"

definition occurrence_at :: "zone \<Rightarrow> nat \<Rightarrow> date \<Rightarrow> occurrence" where
  "occurrence_at z t d = Occurrence (Local d t) (zone_instant z (Local d t))"

lemma finite_dates_upto: "finite {d. valid_date d \<and> d \<le> e}"
proof (rule finite_imageD)
  show "inj_on toordinal {d. valid_date d \<and> d \<le> e}"
    by (rule inj_onI) (simp add: toordinal_eq_iff)
  show "finite (toordinal ` {d. valid_date d \<and> d \<le> e})"
    by (rule finite_subset [of _ "{..toordinal (Date 9999 12 31)}"]) (auto simp del: toordinal.simps dest: valid_ordinal_le)
qed

text \<open>
  The interface the loop needs of a frequency: from a cursor, \<open>due\<close> tells the dates still to
  come; a cursor that is a calendar day of the series is due itself, and moving the cursor
  leaves exactly the other dates, all of them later.
\<close>

locale cursor_rule =
  fixes f :: frequency and wanted :: nat and due :: "date \<Rightarrow> date \<Rightarrow> bool" and good :: "date \<Rightarrow> bool"
  assumes move: "good (local_date c) \<Longrightarrow> advance f wanted c = Inr c' \<Longrightarrow>
      good (local_date c') \<and> local_time c' = local_time c \<and> local_date c < local_date c'"
    and due_move: "good (local_date c) \<Longrightarrow> advance f wanted c = Inr c' \<Longrightarrow>
      due (local_date c) d \<longleftrightarrow>
        valid_calendar_day f wanted c \<and> d = local_date c \<or> due (local_date c') d"
    and due_ge: "good b \<Longrightarrow> due b d \<Longrightarrow> valid_date d \<and> b \<le> d"
begin

definition remaining :: "zone \<Rightarrow> date \<Rightarrow> local \<Rightarrow> date set" where
  "remaining z e c = {d. due (local_date c) d \<and> d \<le> e \<and> zone_exists z (Local d (local_time c))}"

lemma finite_remaining: "good (local_date c) \<Longrightarrow> finite (remaining z e c)"
  by (rule finite_subset [OF _ finite_dates_upto [of e]]) (auto simp: remaining_def dest: due_ge)

lemma remaining_move:
  assumes "good (local_date c)" "local_date c \<le> e" "advance f wanted c = Inr c'"
  shows "remaining z e c =
    (if valid_calendar_day f wanted c \<and> zone_exists z c then insert (local_date c) (remaining z e c')
     else remaining z e c')"
    and "\<forall>d \<in> remaining z e c'. local_date c < d"
proof -
  note m = move [OF assms(1,3)]
  have c: "Local (local_date c) (local_time c) = c" by (cases c) simp
  have dm: "\<And>d. due (local_date c) d \<longleftrightarrow>
      valid_calendar_day f wanted c \<and> d = local_date c \<or> due (local_date c') d"
    by (rule due_move [OF assms(1,3)])
  show later: "\<forall>d \<in> remaining z e c'. local_date c < d"
    using m due_ge by (fastforce simp: remaining_def)
  show "remaining z e c =
    (if valid_calendar_day f wanted c \<and> zone_exists z c then insert (local_date c) (remaining z e c')
     else remaining z e c')"
    using m c assms(2) by (auto simp: remaining_def dm)
qed

lemma remaining_past: "good (local_date c) \<Longrightarrow> \<not> local_date c \<le> e \<Longrightarrow> remaining z e c = {}"
  by (auto simp: remaining_def dest!: due_ge)

text \<open>A run that returns lists the remaining dates in order, and kept within the limit.\<close>

lemma loop_result:
  assumes "good (local_date c)" "expand_loop z f wanted e limit c result = Inr r"
  shows "r = result @ map (occurrence_at z (local_time c)) (sorted_list_of_set (remaining z e c))
      \<and> (r = result \<or> int (length r) \<le> limit)"
  using assms
proof (induction c arbitrary: result rule: wf_induct_rule [OF wf_inv_image [of date_measure local_date], OF wf_date_measure])
  case (1 c)
  show ?case
  proof (cases "local_date c \<le> e")
    case False
    with 1 show ?thesis by (simp add: expand_loop.simps [of _ _ _ _ _ c] remaining_past)
  next
    case True
    with 1 obtain result' c' where v: "visit z f wanted limit c result = Inr result'"
      and a: "advance f wanted c = Inr c'"
      and l: "expand_loop z f wanted e limit c' result' = Inr r"
      by (auto simp: expand_loop.simps [of _ _ _ _ _ c])
    note m = move [OF "1.prems"(1) a] and rem = remaining_move [OF "1.prems"(1) True a]
    have fin: "finite (remaining z e c')" using m by (simp add: finite_remaining)
    have ih: "r = result' @ map (occurrence_at z (local_time c')) (sorted_list_of_set (remaining z e c'))
        \<and> (r = result' \<or> int (length r) \<le> limit)"
      using m by (intro "1.IH" [of c', simplified in_inv_image, OF advance_measure [OF a] _ l]) simp
    have c: "Local (local_date c) (local_time c) = c" by (cases c) simp
    show ?thesis
    proof (cases "valid_calendar_day f wanted c \<and> zone_exists z c")
      case hit: True
      have "sorted_list_of_set (remaining z e c) = local_date c # sorted_list_of_set (remaining z e c')"
        unfolding rem(1) using hit sorted_insert_least [OF fin rem(2)] by simp
      with ih m v hit c fin show ?thesis
        by (auto simp: visit_def Let_def occurrence_at_def sorted_list_of_set_eq_Nil_iff split: if_splits)
    next
      case False
      then have "remaining z e c = remaining z e c'" by (simp only: rem(1) [of z] if_False)
      with ih m v False show ?thesis by (auto simp: visit_def split: if_splits)
    qed
  qed
qed

text \<open>Below a bound under which every move succeeds, the run returns unless there are too many.\<close>

lemma loop_total:
  assumes "good (local_date c)"
    and safe: "\<And>c. good (local_date c) \<Longrightarrow> local_date c \<le> e \<Longrightarrow> \<exists>c'. advance f wanted c = Inr c'"
  shows "expand_loop z f wanted e limit c result =
     (if remaining z e c = {} \<or> int (length result + card (remaining z e c)) \<le> limit
      then Inr (result @ map (occurrence_at z (local_time c)) (sorted_list_of_set (remaining z e c)))
      else Inl (too_many limit))"
  using assms(1)
proof (induction c arbitrary: result rule: wf_induct_rule [OF wf_inv_image [of date_measure local_date], OF wf_date_measure])
  case (1 c)
  show ?case
  proof (cases "local_date c \<le> e")
    case False
    with 1 show ?thesis by (simp add: expand_loop.simps [of _ _ _ _ _ c] remaining_past)
  next
    case True
    obtain c' where a: "advance f wanted c = Inr c'" using safe "1.prems" True by blast
    note m = move [OF "1.prems" a] and rem = remaining_move [OF "1.prems" True a]
    have fin: "finite (remaining z e c')" using m by (simp add: finite_remaining)
    note ih = "1.IH" [of c', simplified in_inv_image, OF advance_measure [OF a]]
    have c: "Local (local_date c) (local_time c) = c" by (cases c) simp
    show ?thesis
    proof (cases "valid_calendar_day f wanted c \<and> zone_exists z c")
      case hit: True
      have s: "sorted_list_of_set (remaining z e c) = local_date c # sorted_list_of_set (remaining z e c')"
        unfolding rem(1) using hit sorted_insert_least [OF fin rem(2)] by simp
      have "local_date c \<notin> remaining z e c'" using rem(2) by blast
      then have k: "card (remaining z e c) = Suc (card (remaining z e c'))" "remaining z e c \<noteq> {}"
        using rem(1) hit fin by simp_all
      show ?thesis
      proof (cases "int (Suc (length result)) > limit")
        case True
        with \<open>local_date c \<le> e\<close> hit k show ?thesis
          by (simp add: expand_loop.simps [of _ _ _ _ _ c] visit_def Let_def)
      next
        case False
        with \<open>local_date c \<le> e\<close> hit k s ih m a c show ?thesis
          by (auto simp: expand_loop.simps [of _ _ _ _ _ c] visit_def Let_def occurrence_at_def)
      qed
    next
      case False
      then have "remaining z e c = remaining z e c'" by (simp only: rem(1) [of z] if_False)
      moreover have "visit z f wanted limit c result = Inr result"
        using False by (simp only: visit_def if_False)
      ultimately show ?thesis
        using True ih m a by (simp add: expand_loop.simps [of _ _ _ _ _ c])
    qed
  qed
qed

end

subsection \<open>The three frequencies provide the interface\<close>

lemma plus_days_Some:
  assumes "valid_date (local_date c)" "plus_days n c = Inr c'"
  shows "valid_date (local_date c') \<and> local_time c' = local_time c \<and>
    toordinal (local_date c') = toordinal (local_date c) + n"
  using assms by (auto simp: plus_days_def dest: add_days_Some split: option.splits)

lemma plus_days_less:
  assumes "valid_date (local_date c)" "plus_days n c = Inr c'" "0 < n"
  shows "local_date c < local_date c'"
  using plus_days_Some [OF assms(1,2)] assms(1,3) toordinal_less_iff by force

lemma plus_days_safe:
  assumes "valid_date d" "toordinal d + n \<le> toordinal (Date 9999 12 31)"
  shows "\<exists>c'. plus_days n (Local d t) = Inr c'"
  using assms add_days_None [of d n] by (cases "add_days n d") (auto simp: plus_days_def)

interpretation daily: cursor_rule Daily w "\<lambda>b d. valid_date d \<and> b \<le> d" valid_date for w
proof
  fix c c' d
  assume c: "valid_date (local_date c)" and a: "advance Daily w c = Inr c'"
  note p = plus_days_Some [OF c, of 1 c'] plus_days_less [OF c, of 1 c']
  show "valid_date (local_date c') \<and> local_time c' = local_time c \<and> local_date c < local_date c'"
    using p a by simp
  have "local_date c \<le> d \<longleftrightarrow> d = local_date c \<or> local_date c' \<le> d" if "valid_date d"
  proof -
    have "local_date c < d \<longleftrightarrow> local_date c' \<le> d"
      using that c p a by (simp flip: toordinal_le_iff toordinal_less_iff) linarith
    then show ?thesis by auto
  qed
  then show "valid_date d \<and> local_date c \<le> d \<longleftrightarrow>
      valid_calendar_day Daily w c \<and> d = local_date c \<or> valid_date d \<and> local_date c' \<le> d"
    using c by (auto simp: valid_calendar_day_def)
qed auto

interpretation weekly:
  cursor_rule Weekly w "\<lambda>b d. valid_date d \<and> b \<le> d \<and> 7 dvd toordinal d - toordinal b" valid_date for w
proof
  fix c c' d
  assume c: "valid_date (local_date c)" and a: "advance Weekly w c = Inr c'"
  note p = plus_days_Some [OF c, of 7 c'] plus_days_less [OF c, of 7 c']
  show "valid_date (local_date c') \<and> local_time c' = local_time c \<and> local_date c < local_date c'"
    using p a by simp
  have "local_date c \<le> d \<and> 7 dvd toordinal d - toordinal (local_date c) \<longleftrightarrow>
      d = local_date c \<or> local_date c' \<le> d \<and> 7 dvd toordinal d - toordinal (local_date c')"
    if "valid_date d"
  proof -
    have o: "toordinal (local_date c') = toordinal (local_date c) + 7" "valid_date (local_date c')"
      using p a by simp_all
    show ?thesis
      using that c o by (simp flip: toordinal_le_iff toordinal_eq_iff) presburger
  qed
  then show "valid_date d \<and> local_date c \<le> d \<and> 7 dvd toordinal d - toordinal (local_date c) \<longleftrightarrow>
      valid_calendar_day Weekly w c \<and> d = local_date c \<or>
      valid_date d \<and> local_date c' \<le> d \<and> 7 dvd toordinal d - toordinal (local_date c')"
    using c by (auto simp: valid_calendar_day_def)
qed auto

definition month_cursor :: "nat \<Rightarrow> date \<Rightarrow> bool" where
  "month_cursor w b \<longleftrightarrow>
     valid_date b \<and> (day b = w \<or> day b = 1 \<and> days_in_month (year b) (month b) < w)"

lemma next_month_Some:
  assumes "month_cursor w (local_date c)" "next_month c w = Inr c'"
  shows "month_cursor w (local_date c')" "local_time c' = local_time c"
    "year (local_date c') = (if month (local_date c) = 12 then Suc (year (local_date c)) else year (local_date c))"
    "month (local_date c') = (if month (local_date c) = 12 then 1 else Suc (month (local_date c)))"
  using assms
  by (cases "local_date c"; auto simp: month_cursor_def next_month_def mk_date_def Let_def split: if_splits)+

interpretation monthly:
  cursor_rule Monthly w "\<lambda>b d. valid_date d \<and> b \<le> d \<and> day d = w" "month_cursor w" for w
proof
  fix c c' d
  assume c: "month_cursor w (local_date c)" and a: "advance Monthly w c = Inr c'"
  note n = next_month_Some [OF c, of c']
  have later: "local_date c < local_date c'"
    using n a c by (cases "local_date c"; cases "local_date c'")
      (auto simp: date_less_iff month_cursor_def split: if_splits)
  then show "month_cursor w (local_date c') \<and> local_time c' = local_time c \<and> local_date c < local_date c'"
    using n a by simp
  have "local_date c \<le> d \<longleftrightarrow> day (local_date c) = w \<and> d = local_date c \<or> local_date c' \<le> d"
    if "valid_date d" "day d = w"
    using n a c that later by (cases d; cases "local_date c"; cases "local_date c'")
      (auto simp: date_le_iff date_less_iff month_cursor_def split: if_splits)
  then show "valid_date d \<and> local_date c \<le> d \<and> day d = w \<longleftrightarrow>
      valid_calendar_day Monthly w c \<and> d = local_date c \<or>
      valid_date d \<and> local_date c' \<le> d \<and> day d = w"
    using c by (auto simp: valid_calendar_day_def month_cursor_def)
qed (auto simp: month_cursor_def)

subsection \<open>Correctness of the expansion\<close>

lemma remaining_is_existing:
  "daily.remaining z e (Local b t) = existing_dates z Daily (Local b t) e"
  "weekly.remaining z e (Local b t) = existing_dates z Weekly (Local b t) e"
  "monthly.remaining (day b) z e (Local b t) = existing_dates z Monthly (Local b t) e"
  by (auto simp: daily.remaining_def weekly.remaining_def monthly.remaining_def
      existing_dates_def series_dates_def)

lemma expand_loop_result:
  assumes "valid_date b" "expand_loop z f (day b) e limit (Local b t) [] = Inr r"
  shows "r = map (occurrence_at z t) (sorted_list_of_set (existing_dates z f (Local b t) e)) \<and>
    (r = [] \<or> int (length r) \<le> limit)"
proof (cases f)
  case Daily
  show ?thesis
    using daily.loop_result [of "Local b t" z "day b" e limit "[]" r] assms Daily
    by (simp only: remaining_is_existing local.sel append_Nil)
next
  case Weekly
  show ?thesis
    using weekly.loop_result [of "Local b t" z "day b" e limit "[]" r] assms Weekly
    by (simp only: remaining_is_existing local.sel append_Nil)
next
  case Monthly
  have "month_cursor (day b) b" using assms by (simp add: month_cursor_def)
  then show ?thesis
    using monthly.loop_result [of "day b" "Local b t" z e limit "[]" r] assms Monthly
    by (simp only: remaining_is_existing local.sel append_Nil)
qed

lemma advance_safe:
  assumes "valid_date (local_date c)" "month_cursor w (local_date c) \<or> f \<noteq> Monthly"
    "local_date c < Date 9999 12 1"
  shows "\<exists>c'. advance f w c = Inr c'"
proof -
  obtain d t where c: "c = Local d t" by (cases c)
  have "toordinal d < toordinal (Date 9999 12 1)"
    using assms by (intro toordinal_strict_mono) (auto simp: c)
  moreover have "toordinal (Date 9999 12 1) + 30 = toordinal (Date 9999 12 31)" by simp
  ultimately have o: "toordinal d + 7 \<le> toordinal (Date 9999 12 31)" by linarith
  show ?thesis
  proof (cases f)
    case Daily
    have "toordinal d + 1 \<le> toordinal (Date 9999 12 31)" using o by linarith
    then show ?thesis using Daily plus_days_safe [of d 1 t] assms(1) by (simp add: c)
  next
    case Weekly
    then show ?thesis using o plus_days_safe [of d 7 t] assms(1) by (simp add: c)
  next
    case Monthly
    then show ?thesis using assms
      by (cases d) (auto simp: c month_cursor_def next_month_def mk_date_def Let_def date_less_iff)
  qed
qed

lemma expand_loop_total:
  assumes b: "valid_date b" and e: "e < Date 9999 12 1"
  shows "expand_loop z f (day b) e limit (Local b t) [] =
    (let ds = existing_dates z f (Local b t) e
     in if ds = {} \<or> int (card ds) \<le> limit
        then Inr (map (occurrence_at z t) (sorted_list_of_set ds)) else Inl (too_many limit))"
proof (cases f)
  case Daily
  have "\<exists>c'. advance Daily (day b) c = Inr c'" if "valid_date (local_date c)" "local_date c \<le> e" for c
    using that e by (intro advance_safe) auto
  with Daily b show ?thesis
    using daily.loop_total [of "Local b t" e "day b" z limit "[]"]
    by (simp add: remaining_is_existing Let_def)
next
  case Weekly
  have "\<exists>c'. advance Weekly (day b) c = Inr c'" if "valid_date (local_date c)" "local_date c \<le> e" for c
    using that e by (intro advance_safe) auto
  with Weekly b show ?thesis
    using weekly.loop_total [of "Local b t" e "day b" z limit "[]"]
    by (simp add: remaining_is_existing Let_def)
next
  case Monthly
  have "\<exists>c'. advance Monthly (day b) c = Inr c'"
    if "month_cursor (day b) (local_date c)" "local_date c \<le> e" for c
    using that e by (intro advance_safe) (auto simp: month_cursor_def)
  moreover have "month_cursor (day b) b" using b by (simp add: month_cursor_def)
  ultimately show ?thesis
    using Monthly monthly.loop_total [of "day b" "Local b t" e z limit "[]"]
    by (simp add: remaining_is_existing Let_def)
qed

lemma expand_occurrences_Inr:
  assumes "expand_occurrences known gettz ls timezone f e limit = Inr occs"
  obtains z where "gettz timezone = Some z" "known timezone" "dt_offset ls = None"
    "local_date (dt_local ls) \<le> e"
    "expand_loop z f (day (local_date (dt_local ls))) e limit (dt_local ls) [] = Inr occs"
  using assms by (auto simp: expand_occurrences_def Let_def split: if_splits option.splits)

text \<open>A zone with no transitions, for the concrete instances.\<close>

definition utc_zone :: zone where
  "utc_zone = \<lparr>zone_exists = (\<lambda>_. True), zone_instant = local_micros\<rparr>"

definition naive_at :: "date \<Rightarrow> datetime" where
  "naive_at d = \<lparr>dt_local = Local d 0, dt_offset = None\<rparr>"

lemmas evaluate_expansion =
  visit_def valid_calendar_day_def next_month_def plus_days_def mk_date_def days_in_month_def
  is_leap_def date_le_iff date_less_iff utc_zone_def occurrence_at_def Let_def numeral_2_eq_2 [symmetric]

text \<open>
  The RRULE text a series is stored with is read back as the frequency it was written for.
\<close>

theorem rrule_round_trip: "frequency_from_rrule (normalized_rrule f) = Inr f"
  by (cases f) (simp_all add: frequency_from_rrule_def normalized_rrule_def upper_def lower_def lower_char_def
      split_first_def removeprefix_def startswith_def code_point_def char_of_def bit_0 Let_def)

lemma expand_occurrences_dates:
  assumes "valid_date (local_date (dt_local ls))"
    and "expand_occurrences known gettz ls timezone f e limit = Inr occs"
  shows "\<exists>z. gettz timezone = Some z \<and>
    occs = map (occurrence_at z (local_time (dt_local ls)))
             (sorted_list_of_set (existing_dates z f (dt_local ls) e)) \<and>
    (occs = [] \<or> int (length occs) \<le> limit)"
proof -
  obtain z where z: "gettz timezone = Some z"
    and l: "expand_loop z f (day (local_date (dt_local ls))) e limit (dt_local ls) [] = Inr occs"
    using assms(2) by (rule expand_occurrences_Inr)
  have "Local (local_date (dt_local ls)) (local_time (dt_local ls)) = dt_local ls"
    by (cases "dt_local ls") simp
  with z l expand_loop_result [OF assms(1)] show ?thesis by metis
qed

text \<open>
  C22: what \<open>expand_occurrences\<close> returns is the series: exactly the dates from the start to the
  inclusive end that the frequency names and whose wall-clock time exists in the zone, in
  increasing order, each with the instant the zone gives it, and at most \<open>limit\<close> of them.
\<close>

theorem expand_occurrences_sound:
  assumes "valid_date (local_date (dt_local ls))"
    and "expand_occurrences known gettz ls timezone f e limit = Inr occs"
  shows "\<exists>z. gettz timezone = Some z \<and>
    occs = map (occurrence_at z (local_time (dt_local ls)))
             (sorted_list_of_set (existing_dates z f (dt_local ls) e)) \<and>
    (occs = [] \<or> int (length occs) \<le> limit)"
  by (rule expand_occurrences_dates [OF assms])

theorem expand_occurrences_sound_witness:
  "\<exists>z. Some utc_zone = Some z \<and>
    map (occurrence_at utc_zone 0) [Date 2025 1 31, Date 2025 3 31, Date 2025 5 31] =
      map (occurrence_at z 0)
        (sorted_list_of_set (existing_dates z Monthly (Local (Date 2025 1 31) 0) (Date 2025 5 31)))"
proof -
  have e: "expand_occurrences (\<lambda>_. True) (\<lambda>_. Some utc_zone) (naive_at (Date 2025 1 31)) ''UTC'' Monthly
      (Date 2025 5 31) 10000 =
      Inr (map (occurrence_at utc_zone 0) [Date 2025 1 31, Date 2025 3 31, Date 2025 5 31])"
    by (simp add: expand_occurrences_def naive_at_def expand_loop.simps evaluate_expansion)
  have v: "valid_date (local_date (dt_local (naive_at (Date 2025 1 31))))"
    by (simp add: naive_at_def days_in_month_def)
  show ?thesis
    using expand_occurrences_sound [OF v e] by (auto simp: naive_at_def)
qed



end
