(* ===== verification/Models.thy ===== *)
theory Models
  imports Expansion PyJson
begin

section \<open>The database: rows, constraints, state (app/db/models.py)\<close>

text \<open>
  One record per table, its columns in the order of the class; the timestamp columns that no
  code reads (those of rules, deliveries and exceptions) are left out. A table is the list of
  its rows in insertion order. \<open>world\<close> is the database and what the environment supplies while a
  transaction runs: \<open>w_now\<close> is \<open>now()\<close> of the transaction, \<open>ticks\<close> counts the readings of the
  clock, \<open>draws\<close> the calls of \<open>uuid.uuid4\<close>. \<open>env\<close> holds everything outside the repository as
  functions. The CHECK constraints are those of the classes and of migration 0004.
\<close>

subsection \<open>Rows\<close>

datatype delivery_state =
  Pending | Claimed | AttemptStarted | Sent | Failed | Unknown | Missed | Cancelled

record user_settings =
  us_id :: uuid
  us_email :: string
  us_timezone :: string
  us_updated_at :: instant
  us_version :: int

record tag =
  tag_id :: uuid
  tag_name :: string
  tag_normalized_name :: string
  tag_color :: string
  tag_updated_at :: instant
  tag_version :: int

record recurrence_series =
  rs_id :: uuid
  rs_lineage_id :: uuid
  rs_predecessor_id :: "uuid option"
  rs_local_start :: local
  rs_timezone :: string
  rs_rrule :: string
  rs_end_date :: date
  rs_split_boundary :: "instant option"
  rs_template_title :: string
  rs_template_body :: string
  rs_template_active :: bool
  rs_purged_at :: "instant option"
  rs_created_at :: instant
  rs_updated_at :: instant
  rs_version :: int

record note_row =
  n_id :: uuid
  n_title :: string
  n_body :: string
  n_starts_at :: instant
  n_active :: bool
  n_deleted_at :: "instant option"
  n_superseded_at :: "instant option"
  n_series_trashed_at :: "instant option"
  n_purged_at :: "instant option"
  n_series_id :: "uuid option"
  n_recurrence_key :: "instant option"
  n_trash_action_id :: "uuid option"
  n_created_at :: instant
  n_updated_at :: instant
  n_version :: int

record trash_action =
  ta_id :: uuid
  ta_series_id :: uuid
  ta_boundary :: instant
  ta_trashed_at :: instant
  ta_sealed_at :: "instant option"

text \<open>
  A value of the \<open>overridden_fields\<close> document of an exception; a datetime is the ISO text of an
  instant with the UTC offset it is written in.
\<close>

datatype override =
  OvText string | OvBool bool | OvInstant instant int | OvTags "uuid list" | OvOffsets "int list"

record occurrence_exception =
  oe_id :: uuid
  oe_series_id :: uuid
  oe_recurrence_key :: instant
  oe_overridden_fields :: "(string \<times> override) list"
  oe_cancelled :: bool

record reminder_rule =
  r_id :: uuid
  r_note_id :: uuid
  r_offset_minutes :: int
  r_enabled :: bool
  r_current_cycle_number :: int

record content =
  c_title :: string
  c_body :: string
  c_note_id :: uuid

record reminder_delivery =
  d_id :: uuid
  d_reminder_rule_id :: uuid
  d_cycle_number :: int
  d_due_at :: instant
  d_state :: delivery_state
  d_claim_token :: "uuid option"
  d_claim_expires_at :: "instant option"
  d_authorized_at :: "instant option"
  d_recipient_snapshot :: "string option"
  d_content_snapshot :: "content option"
  d_result_at :: "instant option"
  d_error_code :: "string option"

record notification =
  nf_id :: uuid
  nf_reminder_delivery_id :: uuid
  nf_scheduled_at :: instant
  nf_created_at :: instant
  nf_title :: string
  nf_body :: string

text \<open>The JSON payload of an event; \<open>notification_id\<close> is a key of the notification events only.\<close>

record payload =
  p_event_id :: uuid
  p_type :: string
  p_occurred_at :: instant
  p_entity_id :: uuid
  p_notification_id :: "uuid option"
  p_version :: int
  p_series_id :: "uuid option"

record outbox_event =
  ev_id :: uuid
  ev_event_type :: string
  ev_entity_id :: "uuid option"
  ev_payload :: payload
  ev_created_at :: instant
  ev_published_at :: "instant option"
  ev_attempts :: int
  ev_next_attempt_at :: "instant option"
  ev_error_code :: "string option"

subsection \<open>State and environment\<close>

record world =
  w_settings :: "user_settings list"
  w_tags :: "tag list"
  w_series :: "recurrence_series list"
  w_notes :: "note_row list"
  w_actions :: "trash_action list"
  w_members :: "(uuid \<times> uuid) list"
  w_note_tags :: "(uuid \<times> uuid) list"
  w_series_tags :: "(uuid \<times> uuid) list"
  w_exceptions :: "occurrence_exception list"
  w_rules :: "reminder_rule list"
  w_templates :: "(uuid \<times> int) list"
  w_deliveries :: "reminder_delivery list"
  w_notifications :: "notification list"
  w_outbox :: "outbox_event list"
  w_now :: instant
  ticks :: nat
  draws :: nat

record env =
  clock :: "nat \<Rightarrow> instant"
  uuid4 :: "nat \<Rightarrow> uuid"
  casefold :: "string \<Rightarrow> string"
  collate :: "string \<Rightarrow> string"
  zone_known :: "string \<Rightarrow> bool"
  gettz :: "string \<Rightarrow> zone option"
  to_local :: "string \<Rightarrow> instant \<Rightarrow> local"
  of_local :: "string \<Rightarrow> local \<Rightarrow> instant"
  app_default_email :: string
  app_default_timezone :: string
  max_series_occurrences :: int
  reminder_grace_seconds :: int
  reminder_claim_seconds :: int

definition empty_world :: world where
  "empty_world = \<lparr>w_settings = [], w_tags = [], w_series = [], w_notes = [], w_actions = [],
     w_members = [], w_note_tags = [], w_series_tags = [], w_exceptions = [], w_rules = [],
     w_templates = [], w_deliveries = [], w_notifications = [], w_outbox = [],
     w_now = 0, ticks = 0, draws = 0\<rparr>"

text \<open>A reading of the clock, a fresh identifier, and the start of a transaction.\<close>

definition utcnow :: "env \<Rightarrow> world \<Rightarrow> instant \<times> world" where
  "utcnow env w = (clock env (ticks w), w\<lparr>ticks := Suc (ticks w)\<rparr>)"

definition new_uuid :: "env \<Rightarrow> world \<Rightarrow> uuid \<times> world" where
  "new_uuid env w = (uuid4 env (draws w), w\<lparr>draws := Suc (draws w)\<rparr>)"

definition begin_tx :: "env \<Rightarrow> world \<Rightarrow> world" where
  "begin_tx env w = w\<lparr>w_now := clock env (ticks w), ticks := Suc (ticks w)\<rparr>"

subsection \<open>Constraints\<close>

definition offset_preset :: "int \<Rightarrow> bool" where
  "offset_preset m \<longleftrightarrow> m = 10 \<or> m = 60 \<or> m = 1440"

text \<open>\<open>ck_delivery_state_shape\<close>: which columns a state has.\<close>

definition delivery_shape :: "reminder_delivery \<Rightarrow> bool" where
  "delivery_shape d \<longleftrightarrow>
     (d_state d = Pending \<and> d_claim_token d = None \<and> d_claim_expires_at d = None
       \<and> d_authorized_at d = None \<and> d_recipient_snapshot d = None
       \<and> d_content_snapshot d = None \<and> d_result_at d = None \<and> d_error_code d = None)
   \<or> (d_state d = Claimed \<and> d_claim_token d \<noteq> None \<and> d_claim_expires_at d \<noteq> None
       \<and> d_authorized_at d = None \<and> d_recipient_snapshot d = None
       \<and> d_content_snapshot d = None \<and> d_result_at d = None \<and> d_error_code d = None)
   \<or> (d_state d = AttemptStarted \<and> d_claim_token d \<noteq> None \<and> d_claim_expires_at d = None
       \<and> d_authorized_at d \<noteq> None \<and> d_recipient_snapshot d \<noteq> None
       \<and> d_content_snapshot d \<noteq> None \<and> d_result_at d = None \<and> d_error_code d = None)
   \<or> (d_state d \<in> {Sent, Failed, Unknown} \<and> d_claim_token d \<noteq> None
       \<and> d_claim_expires_at d = None \<and> d_authorized_at d \<noteq> None
       \<and> ((d_recipient_snapshot d \<noteq> None \<and> d_content_snapshot d \<noteq> None)
         \<or> (d_recipient_snapshot d = None \<and> d_content_snapshot d = None))
       \<and> d_result_at d \<noteq> None
       \<and> ((d_state d = Sent \<and> d_error_code d = None)
         \<or> (d_state d \<in> {Failed, Unknown} \<and> d_error_code d \<noteq> None)))
   \<or> (d_state d \<in> {Missed, Cancelled} \<and> d_claim_token d = None
       \<and> d_claim_expires_at d = None \<and> d_authorized_at d = None
       \<and> d_recipient_snapshot d = None \<and> d_content_snapshot d = None
       \<and> d_result_at d \<noteq> None \<and> d_error_code d = None)"

definition delivery_error_allowed :: "reminder_delivery \<Rightarrow> bool" where
  "delivery_error_allowed d \<longleftrightarrow>
     (case d_error_code d of None \<Rightarrow> True
      | Some c \<Rightarrow> c \<in> {''invalid_recipient'', ''smtp_send_failed'', ''smtp_outcome_unknown'',
          ''worker_outcome_unknown'', ''delivery_failed_legacy'', ''delivery_outcome_unknown_legacy''})"

definition outbox_shape :: "outbox_event \<Rightarrow> bool" where
  "outbox_shape e \<longleftrightarrow>
     (ev_published_at e \<noteq> None \<and> ev_next_attempt_at e = None \<and> ev_error_code e = None)
     \<or> ev_published_at e = None"

definition outbox_error_allowed :: "outbox_event \<Rightarrow> bool" where
  "outbox_error_allowed e \<longleftrightarrow>
     (case ev_error_code e of None \<Rightarrow> True
      | Some c \<Rightarrow> c \<in> {''outbox_publish_failed'', ''outbox_publish_failed_legacy''})"

text \<open>The constraint state by state.\<close>

lemma shape_pending:
  "d_state d = Pending \<Longrightarrow> delivery_shape d \<longleftrightarrow> d_claim_token d = None
     \<and> d_claim_expires_at d = None \<and> d_authorized_at d = None
     \<and> d_recipient_snapshot d = None \<and> d_content_snapshot d = None \<and> d_result_at d = None
     \<and> d_error_code d = None"
  unfolding delivery_shape_def by simp

lemma shape_claimed:
  "d_state d = Claimed \<Longrightarrow> delivery_shape d \<longleftrightarrow> d_claim_token d \<noteq> None
     \<and> d_claim_expires_at d \<noteq> None \<and> d_authorized_at d = None
     \<and> d_recipient_snapshot d = None \<and> d_content_snapshot d = None \<and> d_result_at d = None
     \<and> d_error_code d = None"
  unfolding delivery_shape_def by simp

lemma shape_attemptstarted:
  "d_state d = AttemptStarted \<Longrightarrow> delivery_shape d \<longleftrightarrow> d_claim_token d \<noteq> None
     \<and> d_claim_expires_at d = None \<and> d_authorized_at d \<noteq> None
     \<and> d_recipient_snapshot d \<noteq> None \<and> d_content_snapshot d \<noteq> None \<and> d_result_at d = None
     \<and> d_error_code d = None"
  unfolding delivery_shape_def by simp

lemma shape_sent:
  "d_state d = Sent \<Longrightarrow> delivery_shape d \<longleftrightarrow> d_claim_token d \<noteq> None
     \<and> d_claim_expires_at d = None \<and> d_authorized_at d \<noteq> None
     \<and> (d_recipient_snapshot d = None \<longleftrightarrow> d_content_snapshot d = None) \<and> d_result_at d \<noteq> None
     \<and> d_error_code d = None"
  unfolding delivery_shape_def by (cases "d_recipient_snapshot d"; cases "d_content_snapshot d"; simp)

lemma shape_failed:
  "d_state d = Failed \<Longrightarrow> delivery_shape d \<longleftrightarrow> d_claim_token d \<noteq> None
     \<and> d_claim_expires_at d = None \<and> d_authorized_at d \<noteq> None
     \<and> (d_recipient_snapshot d = None \<longleftrightarrow> d_content_snapshot d = None) \<and> d_result_at d \<noteq> None
     \<and> d_error_code d \<noteq> None"
  unfolding delivery_shape_def by (cases "d_recipient_snapshot d"; cases "d_content_snapshot d"; simp)

lemma shape_unknown:
  "d_state d = Unknown \<Longrightarrow> delivery_shape d \<longleftrightarrow> d_claim_token d \<noteq> None
     \<and> d_claim_expires_at d = None \<and> d_authorized_at d \<noteq> None
     \<and> (d_recipient_snapshot d = None \<longleftrightarrow> d_content_snapshot d = None) \<and> d_result_at d \<noteq> None
     \<and> d_error_code d \<noteq> None"
  unfolding delivery_shape_def by (cases "d_recipient_snapshot d"; cases "d_content_snapshot d"; simp)

lemma shape_missed:
  "d_state d = Missed \<Longrightarrow> delivery_shape d \<longleftrightarrow> d_claim_token d = None
     \<and> d_claim_expires_at d = None \<and> d_authorized_at d = None
     \<and> d_recipient_snapshot d = None \<and> d_content_snapshot d = None \<and> d_result_at d \<noteq> None
     \<and> d_error_code d = None"
  unfolding delivery_shape_def by simp

lemma shape_cancelled:
  "d_state d = Cancelled \<Longrightarrow> delivery_shape d \<longleftrightarrow> d_claim_token d = None
     \<and> d_claim_expires_at d = None \<and> d_authorized_at d = None
     \<and> d_recipient_snapshot d = None \<and> d_content_snapshot d = None \<and> d_result_at d \<noteq> None
     \<and> d_error_code d = None"
  unfolding delivery_shape_def by simp

lemmas shape_simps = shape_pending shape_claimed shape_attemptstarted shape_sent shape_failed
  shape_unknown shape_missed shape_cancelled

text \<open>A delivery that may still be claimed.\<close>

definition open_delivery :: "reminder_delivery \<Rightarrow> bool" where
  "open_delivery d \<longleftrightarrow> d_state d = Pending \<or> d_state d = Claimed"

subsection \<open>Rows by identifier\<close>

definition save_note :: "uuid \<Rightarrow> (note_row \<Rightarrow> note_row) \<Rightarrow> world \<Rightarrow> world" where
  \<comment> \<open>the flush of a changed note: one UPDATE guarded and counted by the version column\<close>
  "save_note i f w =
     w\<lparr>w_notes := update_where (\<lambda>n. n_id n = i) (\<lambda>n. (f n)\<lparr>n_version := n_version n + 1\<rparr>) (w_notes w)\<rparr>"

definition save_series :: "uuid \<Rightarrow> (recurrence_series \<Rightarrow> recurrence_series) \<Rightarrow> world \<Rightarrow> world" where
  "save_series i f w =
     w\<lparr>w_series := update_where (\<lambda>s. rs_id s = i) (\<lambda>s. (f s)\<lparr>rs_version := rs_version s + 1\<rparr>) (w_series w)\<rparr>"

definition save_tag :: "uuid \<Rightarrow> (tag \<Rightarrow> tag) \<Rightarrow> world \<Rightarrow> world" where
  "save_tag i f w =
     w\<lparr>w_tags := update_where (\<lambda>t. tag_id t = i) (\<lambda>t. (f t)\<lparr>tag_version := tag_version t + 1\<rparr>) (w_tags w)\<rparr>"

definition save_settings :: "uuid \<Rightarrow> (user_settings \<Rightarrow> user_settings) \<Rightarrow> world \<Rightarrow> world" where
  "save_settings i f w =
     w\<lparr>w_settings := update_where (\<lambda>s. us_id s = i) (\<lambda>s. (f s)\<lparr>us_version := us_version s + 1\<rparr>) (w_settings w)\<rparr>"

definition set_rule :: "uuid \<Rightarrow> (reminder_rule \<Rightarrow> reminder_rule) \<Rightarrow> world \<Rightarrow> world" where
  "set_rule i f w = w\<lparr>w_rules := update_where (\<lambda>r. r_id r = i) f (w_rules w)\<rparr>"

definition set_delivery :: "uuid \<Rightarrow> (reminder_delivery \<Rightarrow> reminder_delivery) \<Rightarrow> world \<Rightarrow> world" where
  "set_delivery i f w = w\<lparr>w_deliveries := update_where (\<lambda>d. d_id d = i) f (w_deliveries w)\<rparr>"

subsection \<open>A sample environment\<close>

text \<open>
  For the concrete instances: a clock that reads one second later each time, identifiers from
  1000 on, a letter-by-letter case folding, and one time zone, UTC.
\<close>

definition utc_local :: "instant \<Rightarrow> local" where
  "utc_local t = (case utc_datetime t of None \<Rightarrow> Local (Date 9999 12 31) 0 | Some l \<Rightarrow> l)"

definition sample_env :: env where
  "sample_env = \<lparr>clock = (\<lambda>k. 1000000 * (1 + int k)), uuid4 = (\<lambda>k. 1000 + k), casefold = lower,
     collate = id, zone_known = (\<lambda>z. z = ''UTC''),
     gettz = (\<lambda>z. if z = ''UTC'' then Some utc_zone else None),
     to_local = (\<lambda>z t. utc_local t), of_local = (\<lambda>z l. zone_instant utc_zone l),
     app_default_email = ''demo@example.test'', app_default_timezone = ''UTC'',
     max_series_occurrences = 10000, reminder_grace_seconds = 60, reminder_claim_seconds = 30\<rparr>"

end
