(* ===== verification/Schemas.thy ===== *)
theory Schemas
  imports Models
begin

section \<open>Requests, responses and the error envelope (app/api/schemas.py, app/api/errors.py)\<close>

text \<open>
  The bodies the API accepts, as they arrive (\<open>_json\<close>, datetimes with their UTC offset) and as
  the handlers see them after validation (instants); the bodies it answers with; \<open>error\<close>, the
  exceptions a handler can raise; and the JSON body every error is answered with. pydantic's own
  field constraints (\<open>min_length\<close>, \<open>max_length\<close>, \<open>ge\<close>, \<open>Literal\<close>) are written out as conditions.
\<close>

subsection \<open>Responses\<close>

record tag_response =
  tr_id :: uuid
  tr_name :: string
  tr_color :: string
  tr_version :: int

record settings_response =
  sr_email :: string
  sr_timezone :: string
  sr_version :: int

record note_response =
  nr_id :: uuid
  nr_title :: string
  nr_body :: string
  nr_starts_at :: instant
  nr_active :: bool
  nr_tags :: "tag_response list"
  nr_reminder_offsets_minutes :: "int list"
  nr_version :: int
  nr_created_at :: instant
  nr_updated_at :: instant
  nr_deleted_at :: "instant option"
  nr_series_id :: "uuid option"
  nr_recurrence_key :: "instant option"

record 'a page =
  items :: "'a list"
  total :: nat
  page_no :: nat
  page_size :: nat

record series_response =
  ss_id :: uuid
  ss_lineage_id :: uuid
  ss_predecessor_id :: "uuid option"
  ss_local_start :: local
  ss_timezone :: string
  ss_frequency :: frequency
  ss_end_date :: date
  ss_split_boundary :: "instant option"
  ss_title :: string
  ss_body :: string
  ss_active :: bool
  ss_tag_ids :: "uuid list"
  ss_reminder_offsets_minutes :: "int list"
  ss_version :: int
  ss_created_at :: instant
  ss_updated_at :: instant
  ss_occurrence_count :: nat

record notification_response =
  nfr_id :: uuid
  nfr_reminder_delivery_id :: uuid
  nfr_scheduled_at :: instant
  nfr_created_at :: instant
  nfr_title :: string
  nfr_body :: string

record preview_response =
  pv_starts_at :: instant
  pv_occurrence_count :: nat

text \<open>The three kinds of entry of the trash listing.\<close>

datatype trash_group =
  TrashSeriesAction uuid uuid instant instant nat note_response
| TrashLegacyOccurrence note_response instant
| TrashNote note_response instant

subsection \<open>Errors\<close>

text \<open>The \<open>current\<close> document of a conflict.\<close>

datatype current =
  CurrentNote note_response
| CurrentTag tag_response
| CurrentSettings settings_response
| CurrentVersion uuid int
| CurrentLeaf uuid "instant option" "uuid option"
| CurrentNoteIds "uuid list"
| CurrentKeys "instant list"
| CurrentCollision "uuid list" "instant list" "instant list"

datatype error =
  ApiError (status_code: int) (err_code: string) (err_message: string)
    (field_errors: "(string \<times> string) list option") (current_of: "current option")
| Raised py_exn
| NoResultFound
| StaleData
| DataError string

record error_body =
  eb_code :: string
  eb_message :: string
  eb_field_errors :: "(string \<times> string) list option"
  eb_current :: "current option"

definition error_body_of ::
  "string \<Rightarrow> string \<Rightarrow> (string \<times> string) list option \<Rightarrow> current option \<Rightarrow> error_body" where
  "error_body_of code message fs cur =
     \<lparr>eb_code = code, eb_message = message, eb_field_errors = fs, eb_current = cur\<rparr>"

text \<open>
  The registered handlers: an \<open>ApiError\<close> is answered with its own status, a \<open>StaleDataError\<close>
  with 409; every other exception has no handler and becomes the framework's 500, \<open>None\<close>.
\<close>

fun handle_error :: "error \<Rightarrow> (int \<times> error_body) option" where
  "handle_error (ApiError s c m f cur) = Some (s, error_body_of c m f cur)"
| "handle_error StaleData =
     Some (409, error_body_of ''version_conflict'' ''The resource changed concurrently'' None None)"
| "handle_error (Raised e) = None"
| "handle_error NoResultFound = None"
| "handle_error (DataError m) = None"

text \<open>\<open>fields[key] = msg\<close> on a dict kept in insertion order.\<close>

fun dict_set :: "'k \<Rightarrow> 'v \<Rightarrow> ('k \<times> 'v) list \<Rightarrow> ('k \<times> 'v) list" where
  "dict_set k v [] = [(k, v)]"
| "dict_set k v ((k', v') # xs) = (if k' = k then (k, v) # xs else (k', v') # dict_set k v xs)"

fun join_dots :: "string list \<Rightarrow> string" where
  "join_dots [] = []"
| "join_dots [s] = s"
| "join_dots (s # ss) = s @ ''.'' @ join_dots ss"

definition validation_error_fields :: "(string list \<times> string) list \<Rightarrow> (string \<times> string) list" where
  "validation_error_fields errs =
     fold (\<lambda>(loc, msg) fields.
         let location = join_dots (filter (\<lambda>part. part \<noteq> ''body'') loc)
         in dict_set (if location = [] then ''request'' else location) msg fields) errs []"

definition handle_validation_error :: "(string list \<times> string) list \<Rightarrow> int \<times> error_body" where
  "handle_validation_error errs =
     (422, error_body_of ''validation_error'' ''Request validation failed''
             (Some (validation_error_fields errs)) None)"

definition api_error :: "int \<Rightarrow> string \<Rightarrow> string \<Rightarrow> error" where
  "api_error status c m = ApiError status c m None None"

definition field_error :: "string \<Rightarrow> string \<Rightarrow> string \<Rightarrow> string \<Rightarrow> error" where
  "field_error c m field text = ApiError 422 c m (Some [(field, text)]) None"

definition conflict :: "string \<Rightarrow> string \<Rightarrow> current \<Rightarrow> error" where
  "conflict c m cur = ApiError 409 c m None (Some cur)"

subsection \<open>Requests\<close>

record note_fields =
  nw_title :: string
  nw_body :: string
  nw_starts_at :: instant
  nw_starts_offset :: int
  nw_active :: bool
  nw_tag_ids :: "uuid list"
  nw_offsets :: "int list"

record note_update = note_fields +
  nu_expected_version :: int
  nu_expected_series_version :: "int option"

record series_fields = note_fields +
  sf_local_start :: local
  sf_timezone :: string
  sf_frequency :: frequency
  sf_end_date :: date

record series_split = series_fields +
  sp_recurrence_key :: instant
  sp_series_version :: int
  sp_expected_occurrence_version :: int

record portion_request =
  po_series_version :: int
  po_recurrence_key :: "instant option"

record preview_request =
  pq_local_start :: local
  pq_timezone :: string
  pq_frequency :: frequency
  pq_end_date :: date

record tag_write =
  tw_name :: string
  tw_color :: string

record tag_update = tag_write +
  tu_expected_version :: int

record settings_update =
  su_email :: string
  su_timezone :: string
  su_expected_version :: int

record restore_request =
  rr_expected_version :: int
  rr_expected_series_version :: "int option"

text \<open>\<open>_aware\<close> and \<open>_local\<close>: the validators of datetimes.\<close>

definition aware :: "datetime \<Rightarrow> instant option" where
  "aware value = dt_instant value"

definition local_value :: "datetime \<Rightarrow> local option" where
  "local_value value = (if dt_offset value = None then Some (dt_local value) else None)"

text \<open>\<open>distinct_values\<close>: \<open>len(value) != len(set(value))\<close> raises.\<close>

definition distinct_values :: "'a list \<Rightarrow> bool" where
  "distinct_values xs \<longleftrightarrow> length xs = length (remdups xs)"

record note_json =
  nj_title :: string
  nj_body :: string
  nj_starts_at :: datetime
  nj_active :: bool
  nj_tag_ids :: "uuid list"
  nj_offsets :: "int list"

definition parse_note_fields :: "note_json \<Rightarrow> note_fields option" where
  "parse_note_fields j =
     (case aware (nj_starts_at j) of
        None \<Rightarrow> None
      | Some t \<Rightarrow>
          if 1 \<le> length (nj_title j) \<and> length (nj_title j) \<le> 255
             \<and> distinct_values (nj_tag_ids j) \<and> distinct_values (nj_offsets j)
             \<and> list_all offset_preset (nj_offsets j)
          then Some \<lparr>nw_title = nj_title j, nw_body = nj_body j, nw_starts_at = t,
                     nw_starts_offset = the (dt_offset (nj_starts_at j)),
                     nw_active = nj_active j, nw_tag_ids = nj_tag_ids j, nw_offsets = nj_offsets j\<rparr>
          else None)"

text \<open>
  \<open>resolve_series_version\<close> and the property \<open>series_version\<close>: one of the two aliases must be
  there, two must agree, and the canonical one is read first.
\<close>

definition resolve_series_version :: "int option \<Rightarrow> int option \<Rightarrow> int option" where
  "resolve_series_version canonical legacy =
     (if list_all (\<lambda>v. 1 \<le> v) ((case canonical of None \<Rightarrow> [] | Some v \<Rightarrow> [v])
           @ (case legacy of None \<Rightarrow> [] | Some v \<Rightarrow> [v]))
      then if canonical = None \<and> legacy = None then None
           else if canonical \<noteq> None \<and> legacy \<noteq> None \<and> canonical \<noteq> legacy then None
           else (case canonical of
                   None \<Rightarrow> legacy
                 | Some v \<Rightarrow> if v \<noteq> 0 then Some v else legacy)
      else None)"

text \<open>What the validated fields satisfy, as the handlers may rely on it.\<close>

definition note_fields_ok :: "'a note_fields_scheme \<Rightarrow> bool" where
  "note_fields_ok p \<longleftrightarrow>
     1 \<le> length (nw_title p) \<and> length (nw_title p) \<le> 255 \<and> distinct (nw_tag_ids p)
     \<and> distinct (nw_offsets p) \<and> list_all offset_preset (nw_offsets p)"

lemma distinct_values_iff [simp]: "distinct_values xs \<longleftrightarrow> distinct xs"
  by (metis distinct_values_def length_remdups_eq distinct_remdups remdups_id_iff_distinct)

lemma parse_note_fields_ok: "parse_note_fields j = Some p \<Longrightarrow> note_fields_ok p"
  by (auto simp: parse_note_fields_def note_fields_ok_def split: option.splits if_splits)

lemma resolve_series_version_Some:
  "resolve_series_version c l = Some v \<longleftrightarrow>
     1 \<le> v \<and> (c = Some v \<and> (l = None \<or> l = Some v) \<or> c = None \<and> l = Some v)"
  by (auto simp: resolve_series_version_def split: option.splits if_splits)

end
