(* ===== verification/Validation.thy ===== *)
theory Validation
  imports Schemas
begin

section \<open>Validation of the request bodies (app/api/schemas.py)\<close>

text \<open>
  The bodies as they arrive, each field of its declared type, and the checks of their schema: the
  constraints of the fields, which are pydantic's and whose messages are a parameter, and the
  validators of the repository. All errors of a body are collected, in the order of the fields,
  with their location; the validators of a whole model run when every field is valid.
\<close>

datatype rule = TooShort nat | TooLong nat | AtLeast int | AtMost int | NotOneOf

type_synonym errors = "(string list \<times> string) list"

definition demand :: "bool \<Rightarrow> string list \<Rightarrow> string \<Rightarrow> errors" where
  "demand ok loc m = (if ok then [] else [(loc, m)])"

definition value_error :: "string \<Rightarrow> string" where
  "value_error m = ''Value error, '' @ m"

definition sized :: "(rule \<Rightarrow> string) \<Rightarrow> string \<Rightarrow> nat \<Rightarrow> nat \<Rightarrow> string \<Rightarrow> errors" where
  "sized msg field lo hi s =
     demand (lo \<le> length s) [''body'', field] (msg (TooShort lo))
     @ demand (length s \<le> hi) [''body'', field] (msg (TooLong hi))"

definition version_from :: "(rule \<Rightarrow> string) \<Rightarrow> string list \<Rightarrow> int \<Rightarrow> errors" where
  "version_from msg loc v = demand (1 \<le> v) loc (msg (AtLeast 1))"

definition optional_version :: "(rule \<Rightarrow> string) \<Rightarrow> string list \<Rightarrow> int option \<Rightarrow> errors" where
  "optional_version msg loc v = (case v of None \<Rightarrow> [] | Some v \<Rightarrow> version_from msg loc v)"

subsection \<open>Notes\<close>

definition aware_error :: "string \<Rightarrow> datetime \<Rightarrow> errors" where
  "aware_error field t =
     demand (aware t \<noteq> None) [''body'', field] (value_error ''datetime must include a UTC offset'')"

definition local_error :: "string \<Rightarrow> datetime \<Rightarrow> errors" where
  "local_error field t =
     demand (local_value t \<noteq> None) [''body'', field] (value_error ''datetime must be a local value without a UTC offset'')"

definition distinct_error :: "string \<Rightarrow> 'a list \<Rightarrow> errors" where
  "distinct_error field xs = demand (distinct_values xs) [''body'', field] (value_error ''values must be distinct'')"

definition offset_errors :: "(rule \<Rightarrow> string) \<Rightarrow> int list \<Rightarrow> errors" where
  "offset_errors msg xs =
     (let field = ''reminder_offsets_minutes'';
          wrong = concat (map (\<lambda>(i, v). demand (offset_preset v) [''body'', field, show_nat i] (msg NotOneOf)) (enumerate 0 xs))
      in if wrong \<noteq> [] then wrong else distinct_error field xs)"

definition note_errors :: "(rule \<Rightarrow> string) \<Rightarrow> 'a note_json_scheme \<Rightarrow> errors" where
  "note_errors msg j =
     sized msg ''title'' 1 255 (nj_title j) @ aware_error ''starts_at'' (nj_starts_at j)
     @ distinct_error ''tag_ids'' (nj_tag_ids j) @ offset_errors msg (nj_offsets j)"

definition checked :: "errors \<Rightarrow> 'a option \<Rightarrow> errors + 'a" where
  "checked errs value = (case value of None \<Rightarrow> Inl errs | Some p \<Rightarrow> if errs = [] then Inr p else Inl errs)"

definition note_create :: "(rule \<Rightarrow> string) \<Rightarrow> note_json \<Rightarrow> errors + note_fields" where
  "note_create msg j = checked (note_errors msg j) (parse_note_fields j)"

record note_update_json = note_json +
  uj_expected_version :: int
  uj_expected_series_version :: "int option"

definition note_update_of :: "(rule \<Rightarrow> string) \<Rightarrow> note_update_json \<Rightarrow> errors + note_update" where
  "note_update_of msg j =
     checked (note_errors msg j @ version_from msg [''body'', ''expected_version''] (uj_expected_version j)
         @ optional_version msg [''body'', ''expected_series_version''] (uj_expected_series_version j))
       (map_option (\<lambda>p. note_fields.extend p
            \<lparr>nu_expected_version = uj_expected_version j, nu_expected_series_version = uj_expected_series_version j\<rparr>)
          (parse_note_fields (note_json.truncate j)))"

definition restore_errors :: "(rule \<Rightarrow> string) \<Rightarrow> restore_request \<Rightarrow> errors" where
  "restore_errors msg p =
     version_from msg [''body'', ''expected_version''] (rr_expected_version p)
     @ optional_version msg [''body'', ''expected_series_version''] (rr_expected_series_version p)"

definition restore_action_errors :: "(rule \<Rightarrow> string) \<Rightarrow> int \<Rightarrow> errors" where
  "restore_action_errors msg v = version_from msg [''body'', ''expected_series_version''] v"

subsection \<open>Tags and settings\<close>

definition tag_errors :: "(rule \<Rightarrow> string) \<Rightarrow> 'a tag_write_scheme \<Rightarrow> errors" where
  "tag_errors msg p = sized msg ''name'' 1 100 (tw_name p)"

definition tag_update_errors :: "(rule \<Rightarrow> string) \<Rightarrow> tag_update \<Rightarrow> errors" where
  "tag_update_errors msg p =
     tag_errors msg p @ version_from msg [''body'', ''expected_version''] (tu_expected_version p)"

definition settings_errors :: "(rule \<Rightarrow> string) \<Rightarrow> settings_update \<Rightarrow> errors" where
  "settings_errors msg p = version_from msg [''body'', ''expected_version''] (su_expected_version p)"

subsection \<open>Series\<close>

definition frequency_of :: "string \<Rightarrow> frequency option" where
  "frequency_of s = map_of [(''daily'', Daily), (''weekly'', Weekly), (''monthly'', Monthly)] s"

record series_json = note_json +
  sj_local_start :: datetime
  sj_timezone :: string
  sj_frequency :: string
  sj_end_date :: date

definition schedule_errors :: "(rule \<Rightarrow> string) \<Rightarrow> datetime \<Rightarrow> string \<Rightarrow> string \<Rightarrow> errors" where
  "schedule_errors msg local_start tz freq =
     local_error ''local_start'' local_start @ sized msg ''timezone'' 1 64 tz
     @ demand (frequency_of freq \<noteq> None) [''body'', ''frequency''] (msg NotOneOf)"

definition series_errors :: "(rule \<Rightarrow> string) \<Rightarrow> 'a series_json_scheme \<Rightarrow> errors" where
  "series_errors msg j =
     note_errors msg j @ schedule_errors msg (sj_local_start j) (sj_timezone j) (sj_frequency j)"

definition parse_series_fields :: "'a series_json_scheme \<Rightarrow> series_fields option" where
  "parse_series_fields j =
     (case (parse_note_fields (note_json.truncate j), local_value (sj_local_start j), frequency_of (sj_frequency j)) of
        (Some p, Some l, Some f) \<Rightarrow> Some (note_fields.extend p
           \<lparr>sf_local_start = l, sf_timezone = sj_timezone j, sf_frequency = f, sf_end_date = sj_end_date j\<rparr>)
      | _ \<Rightarrow> None)"

definition series_create :: "(rule \<Rightarrow> string) \<Rightarrow> series_json \<Rightarrow> errors + series_fields" where
  "series_create msg j = checked (series_errors msg j) (parse_series_fields j)"

record preview_json =
  qj_local_start :: datetime
  qj_timezone :: string
  qj_frequency :: string
  qj_end_date :: date

definition preview_of :: "(rule \<Rightarrow> string) \<Rightarrow> preview_json \<Rightarrow> errors + preview_request" where
  "preview_of msg j =
     checked (schedule_errors msg (qj_local_start j) (qj_timezone j) (qj_frequency j))
       (case (local_value (qj_local_start j), frequency_of (qj_frequency j)) of
          (Some l, Some f) \<Rightarrow> Some \<lparr>pq_local_start = l, pq_timezone = qj_timezone j, pq_frequency = f,
             pq_end_date = qj_end_date j\<rparr>
        | _ \<Rightarrow> None)"

text \<open>The two aliases of the series version, checked when every field is valid.\<close>

definition alias_errors :: "int option \<Rightarrow> int option \<Rightarrow> errors" where
  "alias_errors canonical legacy =
     (if canonical = None \<and> legacy = None then [([''body''], value_error ''expected_series_version is required'')]
      else if canonical \<noteq> None \<and> legacy \<noteq> None \<and> canonical \<noteq> legacy
      then [([''body''], value_error ''series version aliases must match'')] else [])"

definition alias_fields :: "(rule \<Rightarrow> string) \<Rightarrow> int option \<Rightarrow> int option \<Rightarrow> errors" where
  "alias_fields msg canonical legacy =
     optional_version msg [''body'', ''expected_series_version''] canonical
     @ optional_version msg [''body'', ''expected_version''] legacy"

definition with_aliases :: "errors \<Rightarrow> int option \<Rightarrow> int option \<Rightarrow> errors" where
  "with_aliases errs canonical legacy = (if errs \<noteq> [] then errs else alias_errors canonical legacy)"

record split_json = series_json +
  pj_recurrence_key :: datetime
  pj_expected_series_version :: "int option"
  pj_expected_version :: "int option"
  pj_expected_occurrence_version :: int

definition split_of :: "(rule \<Rightarrow> string) \<Rightarrow> split_json \<Rightarrow> errors + series_split" where
  "split_of msg j =
     (let canonical = pj_expected_series_version j; legacy = pj_expected_version j
      in checked
       (with_aliases (series_errors msg j @ aware_error ''recurrence_key'' (pj_recurrence_key j) @ alias_fields msg canonical legacy
            @ version_from msg [''body'', ''expected_occurrence_version''] (pj_expected_occurrence_version j))
          canonical legacy)
       (case (parse_series_fields j, aware (pj_recurrence_key j), resolve_series_version canonical legacy) of
          (Some p, Some k, Some v) \<Rightarrow> Some (series_fields.extend p
             \<lparr>sp_recurrence_key = k, sp_series_version = v,
              sp_expected_occurrence_version = pj_expected_occurrence_version j\<rparr>)
        | _ \<Rightarrow> None))"

record portion_json =
  oj_expected_series_version :: "int option"
  oj_expected_version :: "int option"
  oj_recurrence_key :: "datetime option"

definition portion_of :: "(rule \<Rightarrow> string) \<Rightarrow> portion_json \<Rightarrow> errors + portion_request" where
  "portion_of msg j =
     (let canonical = oj_expected_series_version j; legacy = oj_expected_version j
      in checked
       (with_aliases (alias_fields msg canonical legacy
            @ (case oj_recurrence_key j of None \<Rightarrow> [] | Some t \<Rightarrow> aware_error ''recurrence_key'' t))
          canonical legacy)
       (map_option (\<lambda>v. \<lparr>po_series_version = v, po_recurrence_key = Option.bind (oj_recurrence_key j) aware\<rparr>)
          (resolve_series_version canonical legacy)))"

subsection \<open>A body is refused exactly for its errors\<close>

lemma demand_Nil [simp]: "demand ok loc m = [] \<longleftrightarrow> ok"
  by (simp add: demand_def)

lemma checked_Inr [simp]: "checked errs value = Inr p \<longleftrightarrow> errs = [] \<and> value = Some p"
  by (auto simp: checked_def split: option.splits)


lemma note_errors_parse: "note_errors msg j = [] \<longleftrightarrow> parse_note_fields (note_json.truncate j) \<noteq> None"
proof -
  have o: "offset_errors msg xs = [] \<longleftrightarrow> list_all offset_preset xs \<and> distinct xs" for xs
  proof -
    have "concat (map (\<lambda>(i, v). demand (offset_preset v) [''body'', f, show_nat i] m) (enumerate 0 xs)) = []
        \<longleftrightarrow> list_all offset_preset xs" for f m
    proof -
      have "list_all offset_preset xs \<longleftrightarrow> list_all offset_preset (map snd (enumerate 0 xs))" by simp
      then show ?thesis by (auto simp: list_all_iff simp del: map_snd_enumerate)
    qed
    then show ?thesis by (simp add: offset_errors_def distinct_error_def Let_def)
  qed
  show ?thesis
    by (auto simp: note_errors_def o sized_def aware_error_def distinct_error_def parse_note_fields_def
        note_json.defs split: option.splits)
qed

lemma schedule_errors_parse:
  "schedule_errors msg l tz f = [] \<longleftrightarrow> local_value l \<noteq> None \<and> frequency_of f \<noteq> None \<and> 1 \<le> length tz \<and> length tz \<le> 64"
  by (auto simp: schedule_errors_def local_error_def sized_def)

lemma series_errors_parse: "series_errors msg j = [] \<Longrightarrow> parse_series_fields j \<noteq> None"
  by (auto simp: series_errors_def note_errors_parse schedule_errors_parse parse_series_fields_def)

lemma aliases_parse:
  "with_aliases errs c l = [] \<longleftrightarrow> errs = [] \<and> alias_errors c l = []"
  "alias_fields msg c l = [] \<Longrightarrow> alias_errors c l = [] \<Longrightarrow> resolve_series_version c l \<noteq> None"
  by (auto simp: with_aliases_def alias_errors_def alias_fields_def optional_version_def version_from_def
      resolve_series_version_def split: option.splits if_splits)

lemma checked_refused: "(errs = [] \<Longrightarrow> value \<noteq> None) \<Longrightarrow> checked errs value \<noteq> Inl []"
  by (auto simp: checked_def split: option.splits)

lemma refused_with_reason:
  "note_create msg j \<noteq> Inl []" "note_update_of msg u \<noteq> Inl []" "series_create msg s \<noteq> Inl []"
  "split_of msg p \<noteq> Inl []" "portion_of msg q \<noteq> Inl []" "preview_of msg v \<noteq> Inl []"
proof -
  have t: "note_json.truncate j = j" for j :: note_json by (simp add: note_json.defs)
  show "note_create msg j \<noteq> Inl []"
    unfolding note_create_def by (rule checked_refused) (use note_errors_parse [of msg j] t in simp)
  show "note_update_of msg u \<noteq> Inl []"
    unfolding note_update_of_def by (rule checked_refused) (use note_errors_parse [of msg u] in simp)
  show "series_create msg s \<noteq> Inl []"
    unfolding series_create_def by (rule checked_refused) (rule series_errors_parse)
  show "split_of msg p \<noteq> Inl []"
    unfolding split_of_def Let_def
  proof (rule checked_refused)
    assume e: "with_aliases (series_errors msg p @ aware_error ''recurrence_key'' (pj_recurrence_key p)
        @ alias_fields msg (pj_expected_series_version p) (pj_expected_version p)
        @ version_from msg [''body'', ''expected_occurrence_version''] (pj_expected_occurrence_version p))
          (pj_expected_series_version p) (pj_expected_version p) = []"
    then have "parse_series_fields p \<noteq> None" using series_errors_parse by (auto simp: aliases_parse(1))
    moreover have "aware (pj_recurrence_key p) \<noteq> None" using e by (simp add: aliases_parse(1) aware_error_def)
    moreover have "resolve_series_version (pj_expected_series_version p) (pj_expected_version p) \<noteq> None"
      by (rule aliases_parse(2) [of msg]) (use e in \<open>simp_all add: aliases_parse(1)\<close>)
    ultimately show "(case (parse_series_fields p, aware (pj_recurrence_key p),
        resolve_series_version (pj_expected_series_version p) (pj_expected_version p)) of
          (Some p', Some k, Some v) \<Rightarrow> Some (series_fields.extend p'
             \<lparr>sp_recurrence_key = k, sp_series_version = v,
              sp_expected_occurrence_version = pj_expected_occurrence_version p\<rparr>)
        | _ \<Rightarrow> None) \<noteq> None" by auto
  qed
  show "portion_of msg q \<noteq> Inl []"
    unfolding portion_of_def Let_def by (rule checked_refused) (use aliases_parse(2) [of msg] in \<open>auto simp: aliases_parse(1)\<close>)
  show "preview_of msg v \<noteq> Inl []"
    unfolding preview_of_def by (rule checked_refused) (auto simp: schedule_errors_parse)
qed

lemma show_nat_head: "\<exists>c cs. show_nat n = c # cs \<and> 48 \<le> code_point c \<and> code_point c \<le> 57"
proof (induction n rule: show_nat.induct)
  case (1 n)
  then show ?case by (cases "n < 10") (auto simp: show_nat.simps [of n] code_point_def)
qed

lemma show_nat_not_body: "show_nat n \<noteq> ''body''"
  using show_nat_head [of n] by (auto simp: code_point_def)

lemma dict_set_keys: "fst ` set (dict_set k v xs) = insert k (fst ` set xs)"
  by (induction k v xs rule: dict_set.induct) auto

lemma validation_error_locations:
  "fst ` set (validation_error_fields errs) =
     (\<lambda>(loc, m). let l = join_dots (filter (\<lambda>part. part \<noteq> ''body'') loc) in if l = [] then ''request'' else l) ` set errs"
proof -
  have "fst ` set (fold (\<lambda>(loc, msg) fields.
         let location = join_dots (filter (\<lambda>part. part \<noteq> ''body'') loc)
         in dict_set (if location = [] then ''request'' else location) msg fields) errs acc) = fst ` set acc \<union>
     (\<lambda>(loc, m). let l = join_dots (filter (\<lambda>part. part \<noteq> ''body'') loc) in if l = [] then ''request'' else l) ` set errs" for acc
    by (induction errs arbitrary: acc) (simp_all add: dict_set_keys case_prod_unfold Let_def)
  then show ?thesis by (simp add: validation_error_fields_def)
qed

lemma image_one: "f ` {l. l = a \<and> P} = {x. x = f a \<and> P}"
  by auto

lemma image_one_or: "f ` {l. l = a \<and> P \<and> R \<or> (\<exists>i < n. l = g i \<and> Q i)} = {x. x = f a \<and> P \<and> R \<or> (\<exists>i < n. x = f (g i) \<and> Q i)}"
  by blast

lemma offset_error_locations:
  "fst ` set (offset_errors msg xs) =
     {loc. loc = [''body'', ''reminder_offsets_minutes''] \<and> list_all offset_preset xs \<and> \<not> distinct xs
       \<or> (\<exists>i < length xs. loc = [''body'', ''reminder_offsets_minutes'', show_nat i] \<and> \<not> offset_preset (xs ! i))}"
proof -
  let ?f = "''reminder_offsets_minutes''"
  let ?wrong = "concat (map (\<lambda>(i, v). demand (offset_preset v) [''body'', ?f, show_nat i] (msg NotOneOf)) (enumerate 0 xs))"
  have w: "fst ` set ?wrong = {loc. \<exists>i < length xs. loc = [''body'', ?f, show_nat i] \<and> \<not> offset_preset (xs ! i)}"
    by (force simp: demand_def in_set_enumerate_eq split: if_splits)
  have e: "?wrong = [] \<longleftrightarrow> list_all offset_preset xs"
  proof -
    have "?wrong = [] \<longleftrightarrow> fst ` set ?wrong = {}" by (simp only: image_is_empty set_empty)
    also have "\<dots> \<longleftrightarrow> list_all offset_preset xs" unfolding w by (auto simp: list_all_length)
    finally show ?thesis .
  qed
  show ?thesis
  proof (cases "list_all offset_preset xs")
    case True
    then have "offset_errors msg xs = distinct_error ?f xs" using e by (simp add: offset_errors_def Let_def)
    with True show ?thesis by (auto simp: distinct_error_def demand_def list_all_length)
  next
    case False
    then have "offset_errors msg xs = ?wrong" using e by (simp add: offset_errors_def Let_def)
    with False w show ?thesis by auto
  qed
qed

text \<open>
  C5: a note is accepted with the fields of its body, which satisfy what the handlers rely on; a
  refused one is answered with an error for every field that breaks a rule and for no other: the
  title, an instant without offset, repeated tags or offsets, and each offset that is no preset.
\<close>

theorem refused_note_names_fields:
  "case note_create msg j of
     Inr p \<Rightarrow> parse_note_fields j = Some p \<and> note_fields_ok p
   | Inl errs \<Rightarrow> errs \<noteq> [] \<and> fst ` set (validation_error_fields errs) =
       {f. f = ''title'' \<and> \<not> (1 \<le> length (nj_title j) \<and> length (nj_title j) \<le> 255)
         \<or> f = ''starts_at'' \<and> dt_offset (nj_starts_at j) = None
         \<or> f = ''tag_ids'' \<and> \<not> distinct (nj_tag_ids j)
         \<or> f = ''reminder_offsets_minutes'' \<and> list_all offset_preset (nj_offsets j) \<and> \<not> distinct (nj_offsets j)
         \<or> (\<exists>i < length (nj_offsets j). f = ''reminder_offsets_minutes.'' @ show_nat i \<and> \<not> offset_preset (nj_offsets j ! i))}"
proof -
  let ?loc = "\<lambda>loc. let l = join_dots (filter (\<lambda>part. part \<noteq> ''body'') loc) in if l = [] then ''request'' else l"
  have loc: "fst ` set (validation_error_fields errs) = ?loc ` fst ` set errs" for errs
    unfolding validation_error_locations image_image by (simp add: case_prod_unfold)
  have locs: "?loc [''body'', ''title''] = ''title''" "?loc [''body'', ''starts_at''] = ''starts_at''"
    "?loc [''body'', ''tag_ids''] = ''tag_ids''" "?loc [''body'', ''reminder_offsets_minutes''] = ''reminder_offsets_minutes''"
    "?loc [''body'', ''reminder_offsets_minutes'', show_nat i] = ''reminder_offsets_minutes.'' @ show_nat i" for i
    by (simp_all add: show_nat_not_body)
  have parts: "fst ` set (note_errors msg j) =
      {l. l = [''body'', ''title''] \<and> \<not> (1 \<le> length (nj_title j) \<and> length (nj_title j) \<le> 255)}
      \<union> {l. l = [''body'', ''starts_at''] \<and> dt_offset (nj_starts_at j) = None}
      \<union> {l. l = [''body'', ''tag_ids''] \<and> \<not> distinct (nj_tag_ids j)} \<union> fst ` set (offset_errors msg (nj_offsets j))"
  proof -
    have "fst ` set (sized msg f a b t) = {l. l = [''body'', f] \<and> \<not> (a \<le> length t \<and> length t \<le> b)}" for f a b t
      by (auto simp: sized_def demand_def)
    moreover have "fst ` set (aware_error f t) = {l. l = [''body'', f] \<and> dt_offset t = None}" for f t
      by (simp add: aware_error_def demand_def aware_def dt_instant_def)
    moreover have "fst ` set (distinct_error f xs) = {l. l = [''body'', f] \<and> \<not> distinct xs}" for f and xs :: "uuid list"
      by (simp add: distinct_error_def demand_def)
    ultimately show ?thesis by (simp only: note_errors_def set_append image_Un Un_assoc)
  qed
  have "?loc ` fst ` set (note_errors msg j) =
      {f. f = ''title'' \<and> \<not> (1 \<le> length (nj_title j) \<and> length (nj_title j) \<le> 255)
         \<or> f = ''starts_at'' \<and> dt_offset (nj_starts_at j) = None
         \<or> f = ''tag_ids'' \<and> \<not> distinct (nj_tag_ids j)
         \<or> f = ''reminder_offsets_minutes'' \<and> list_all offset_preset (nj_offsets j) \<and> \<not> distinct (nj_offsets j)
         \<or> (\<exists>i < length (nj_offsets j). f = ''reminder_offsets_minutes.'' @ show_nat i \<and> \<not> offset_preset (nj_offsets j ! i))}"
    unfolding parts offset_error_locations image_Un image_one image_one_or locs by (simp only: Collect_disj_eq Un_assoc)
  then show ?thesis
    using refused_with_reason(1) [of msg j] parse_note_fields_ok [of j]
    by (auto simp: note_create_def loc checked_def split: option.splits if_splits)
qed

end
