(* ===== verification/Common.thy ===== *)
theory Common
  imports Schemas
begin

section \<open>Shared domain operations (app/domain/common.py)\<close>

text \<open>
  The validators of the profile, the transactional outbox and the deadline of a reminder.
  \<open>str(uuid)\<close> is \<open>uuid_text\<close>: 32 lower-case hexadecimal digits in groups of 8, 4, 4, 4 and 12.
\<close>

definition hex_char :: "nat \<Rightarrow> char" where
  "hex_char n = (if n < 10 then char_of (48 + n) else char_of (87 + n))"

fun hex_digits :: "nat \<Rightarrow> nat \<Rightarrow> string" where
  "hex_digits 0 n = []"
| "hex_digits (Suc k) n = hex_digits k (n div 16) @ [hex_char (n mod 16)]"

definition uuid_text :: "uuid \<Rightarrow> string" where
  "uuid_text i =
     (let h = hex_digits 32 i
      in take 8 h @ ''-'' @ take 4 (drop 8 h) @ ''-'' @ take 4 (drop 12 h) @ ''-''
         @ take 4 (drop 16 h) @ ''-'' @ drop 20 h)"

definition validate_timezone :: "env \<Rightarrow> string \<Rightarrow> error + string" where
  "validate_timezone env value =
     (if zone_known env value then Inr value
      else Inl (field_error ''validation_error'' ''Invalid settings''
                  ''timezone'' ''must be a valid IANA timezone''))"

definition validate_email :: "string \<Rightarrow> error + string" where
  "validate_email value =
     (if length value > 320 \<or> \<not> email_matches value
      then Inl (field_error ''validation_error'' ''Invalid settings''
                  ''email'' ''must be a valid email address'')
      else Inr value)"

definition add_event ::
  "env \<Rightarrow> string \<Rightarrow> uuid \<Rightarrow> int \<Rightarrow> uuid option \<Rightarrow> world \<Rightarrow> world" where
  "add_event env event_type entity_id version series_id w =
     (let (event_id, w) = new_uuid env w;
          (occurred_at, w) = utcnow env w
      in w\<lparr>w_outbox := w_outbox w @
            [\<lparr>ev_id = event_id, ev_event_type = event_type, ev_entity_id = Some entity_id,
              ev_payload = \<lparr>p_event_id = event_id, p_type = event_type, p_occurred_at = occurred_at,
                p_entity_id = entity_id, p_notification_id = None, p_version = version,
                p_series_id = series_id\<rparr>,
              ev_created_at = w_now w, ev_published_at = None, ev_attempts = 0,
              ev_next_attempt_at = None, ev_error_code = None\<rparr>]\<rparr>)"

definition due_at :: "instant \<Rightarrow> int \<Rightarrow> instant" where
  "due_at starts_at offset_minutes = starts_at - minutes offset_minutes"

lemma validate_email_Inr [simp]:
  "validate_email s = Inr s' \<longleftrightarrow> s' = s \<and> length s \<le> 320 \<and> email_matches s"
  by (auto simp: validate_email_def)

lemma validate_timezone_Inr [simp]: "validate_timezone env s = Inr s' \<longleftrightarrow> s' = s \<and> zone_known env s"
  by (auto simp: validate_timezone_def)

text \<open>An event is one more outbox row, and nothing else of the database changes.\<close>

lemma add_event_frame [row_simps]:
  "w_settings (add_event env t e v s w) = w_settings w"
  "w_tags (add_event env t e v s w) = w_tags w"
  "w_series (add_event env t e v s w) = w_series w"
  "w_notes (add_event env t e v s w) = w_notes w"
  "w_actions (add_event env t e v s w) = w_actions w"
  "w_members (add_event env t e v s w) = w_members w"
  "w_note_tags (add_event env t e v s w) = w_note_tags w"
  "w_series_tags (add_event env t e v s w) = w_series_tags w"
  "w_exceptions (add_event env t e v s w) = w_exceptions w"
  "w_rules (add_event env t e v s w) = w_rules w"
  "w_templates (add_event env t e v s w) = w_templates w"
  "w_deliveries (add_event env t e v s w) = w_deliveries w"
  "w_notifications (add_event env t e v s w) = w_notifications w"
  "w_now (add_event env t e v s w) = w_now w"
  "draws (add_event env t e v s w) = Suc (draws w)"
  "ticks (add_event env t e v s w) = Suc (ticks w)"
  by (simp_all add: add_event_def new_uuid_def utcnow_def)

end
