(* ===== verification/Notes.thy ===== *)
theory Notes
  imports Common
begin

section \<open>Notes, their tags and their reminders (app/domain/notes.py)\<close>

text \<open>
  The operations the handlers share: the response of a note, the lookup and version check, the
  replacement of a note's tags, and \<open>reconcile_reminders\<close>, which brings a note's reminder rules
  and their deliveries in line with its schedule, its offsets and its life cycle. The unique
  constraint on (rule, cycle) makes a lookup of the current delivery return one row at most, so
  \<open>scalar_one_or_none\<close> is \<open>find\<close>.
\<close>

subsection \<open>Responses\<close>

definition tag_response_of :: "tag \<Rightarrow> tag_response" where
  "tag_response_of t = \<lparr>tr_id = tag_id t, tr_name = tag_name t, tr_color = tag_color t,
     tr_version = tag_version t\<rparr>"

text \<open>The two association queries of \<open>notes_response\<close>, ordered as the database orders them.\<close>

definition tag_rows :: "env \<Rightarrow> world \<Rightarrow> uuid list \<Rightarrow> (uuid \<times> tag) list" where
  "tag_rows env w note_ids =
     sort_key (\<lambda>(i, t). (collate env (tag_name t), tag_id t))
       (concat (map (\<lambda>(i, k). map (\<lambda>t. (i, t)) (filter (\<lambda>t. tag_id t = k) (w_tags w)))
          (filter (\<lambda>(i, k). i \<in> set note_ids) (w_note_tags w))))"

definition offset_rows :: "world \<Rightarrow> uuid list \<Rightarrow> (uuid \<times> int) list" where
  "offset_rows w note_ids =
     sort_key snd (map (\<lambda>r. (r_note_id r, r_offset_minutes r))
       (filter (\<lambda>r. r_note_id r \<in> set note_ids \<and> r_enabled r) (w_rules w)))"

definition notes_response :: "env \<Rightarrow> world \<Rightarrow> note_row list \<Rightarrow> note_response list" where
  "notes_response env w notes =
     (if notes = [] then []
      else let note_ids = map n_id notes;
               tags = tag_rows env w note_ids;
               offsets = offset_rows w note_ids
           in map (\<lambda>n. \<lparr>nr_id = n_id n, nr_title = n_title n, nr_body = n_body n,
                nr_starts_at = n_starts_at n, nr_active = n_active n,
                nr_tags = map (tag_response_of \<circ> snd) (filter (\<lambda>(i, t). i = n_id n) tags),
                nr_reminder_offsets_minutes = map snd (filter (\<lambda>(i, m). i = n_id n) offsets),
                nr_version = n_version n, nr_created_at = n_created_at n,
                nr_updated_at = n_updated_at n, nr_deleted_at = n_deleted_at n,
                nr_series_id = n_series_id n, nr_recurrence_key = n_recurrence_key n\<rparr>) notes)"

definition note_response_of :: "env \<Rightarrow> world \<Rightarrow> note_row \<Rightarrow> note_response" where
  "note_response_of env w n = hd (notes_response env w [n])"

subsection \<open>Lookup, version, tags\<close>

definition require_note :: "world \<Rightarrow> uuid \<Rightarrow> error + note_row" where
  "require_note w note_id =
     (case find (\<lambda>n. n_id n = note_id \<and> n_purged_at n = None \<and> n_superseded_at n = None) (w_notes w) of
        None \<Rightarrow> Inl (api_error 404 ''not_found'' ''Note not found'')
      | Some n \<Rightarrow> Inr n)"

definition check_note_version :: "env \<Rightarrow> world \<Rightarrow> note_row \<Rightarrow> int \<Rightarrow> error + unit" where
  "check_note_version env w n expected =
     (if n_version n \<noteq> expected
      then Inl (conflict ''version_conflict'' ''The note changed'' (CurrentNote (note_response_of env w n)))
      else Inr ())"

fun join_commas :: "string list \<Rightarrow> string" where
  "join_commas [] = []"
| "join_commas [s] = s"
| "join_commas (s # ss) = s @ '', '' @ join_commas ss"

definition validate_tags :: "world \<Rightarrow> uuid list \<Rightarrow> error + unit" where
  "validate_tags w tag_ids =
     (if tag_ids = [] then Inr ()
      else let found = filter (\<lambda>i. i \<in> set tag_ids) (map tag_id (w_tags w));
               missing = map uuid_text (filter (\<lambda>i. i \<notin> set found) tag_ids)
           in if missing \<noteq> []
              then Inl (field_error ''invalid_tag'' ''One or more tags no longer exist''
                          ''tag_ids'' (''unknown tags: '' @ join_commas missing))
              else Inr ())"

definition replace_tags :: "world \<Rightarrow> uuid \<Rightarrow> uuid list \<Rightarrow> error + world" where
  "replace_tags w note_id tag_ids =
     try_then (validate_tags w tag_ids) (\<lambda>_.
       let existing = map snd (filter (\<lambda>(i, k). i = note_id) (w_note_tags w));
           kept = filter (\<lambda>(i, k). \<not> (i = note_id \<and> k \<in> set existing - set tag_ids)) (w_note_tags w);
           added = map (\<lambda>k. (note_id, k)) (filter (\<lambda>k. k \<notin> set existing) (remdups tag_ids))
       in Inr (w\<lparr>w_note_tags := kept @ added\<rparr>))"

subsection \<open>Reminders\<close>

text \<open>A note whose reminders may fire: the condition \<open>_new_delivery\<close> and its siblings test.\<close>

definition live_note :: "note_row \<Rightarrow> bool" where
  "live_note n \<longleftrightarrow> n_active n \<and> n_deleted_at n = None \<and> n_superseded_at n = None \<and> n_purged_at n = None"

definition new_delivery :: "env \<Rightarrow> note_row \<Rightarrow> reminder_rule \<Rightarrow> instant \<Rightarrow> world \<Rightarrow> world" where
  "new_delivery env n r now w =
     (let deadline = due_at (n_starts_at n) (r_offset_minutes r);
          state = (if \<not> live_note n then Cancelled else if deadline \<le> now then Missed else Pending);
          (i, w) = new_uuid env w
      in w\<lparr>w_deliveries := w_deliveries w @
            [\<lparr>d_id = i, d_reminder_rule_id = r_id r, d_cycle_number = r_current_cycle_number r,
              d_due_at = deadline, d_state = state, d_claim_token = None, d_claim_expires_at = None,
              d_authorized_at = None, d_recipient_snapshot = None, d_content_snapshot = None,
              d_result_at = (if state \<in> {Cancelled, Missed} then Some now else None),
              d_error_code = None\<rparr>]\<rparr>)"

definition cancel_delivery :: "instant \<Rightarrow> reminder_delivery \<Rightarrow> reminder_delivery" where
  "cancel_delivery now d =
     d\<lparr>d_state := Cancelled, d_claim_token := None, d_claim_expires_at := None, d_result_at := Some now\<rparr>"

definition reinstate_delivery :: "reminder_delivery \<Rightarrow> reminder_delivery" where
  "reinstate_delivery d =
     d\<lparr>d_state := Pending, d_claim_token := None, d_claim_expires_at := None, d_result_at := None\<rparr>"

text \<open>Cancel the current delivery when it is still pending or claimed.\<close>

definition cancel_current :: "instant \<Rightarrow> reminder_delivery option \<Rightarrow> world \<Rightarrow> world" where
  "cancel_current now current w =
     (case current of
        None \<Rightarrow> w
      | Some d \<Rightarrow> if d_state d \<in> {Pending, Claimed} then set_delivery (d_id d) (cancel_delivery now) w else w)"

definition current_delivery :: "world \<Rightarrow> reminder_rule \<Rightarrow> reminder_delivery option" where
  "current_delivery w r =
     find (\<lambda>d. d_reminder_rule_id d = r_id r \<and> d_cycle_number d = r_current_cycle_number r) (w_deliveries w)"

definition reconcile_rule ::
  "env \<Rightarrow> note_row \<Rightarrow> int list \<Rightarrow> bool \<Rightarrow> instant \<Rightarrow> reminder_rule \<Rightarrow> world \<Rightarrow> world" where
  "reconcile_rule env n wanted schedule_changed now rule w =
     (let current = current_delivery w rule
      in if r_offset_minutes rule \<notin> set wanted
         then cancel_current now current (set_rule (r_id rule) (\<lambda>r. r\<lparr>r_enabled := False\<rparr>) w)
         else
           let was_enabled = r_enabled rule;
               w = set_rule (r_id rule) (\<lambda>r. r\<lparr>r_enabled := True\<rparr>) w
           in if schedule_changed \<or> \<not> was_enabled
              then
                let w = cancel_current now current w;
                    rule' = rule\<lparr>r_enabled := True, r_current_cycle_number := r_current_cycle_number rule + 1\<rparr>;
                    w = set_rule (r_id rule)
                          (\<lambda>r. r\<lparr>r_current_cycle_number := r_current_cycle_number r + 1\<rparr>) w
                in new_delivery env n rule' now w
              else (case current of
                  None \<Rightarrow> w
                | Some d \<Rightarrow>
                    if d_state d \<in> {Pending, Claimed, Cancelled}
                    then if live_note n \<and> due_at (n_starts_at n) (r_offset_minutes rule) > now
                         then set_delivery (d_id d) reinstate_delivery w
                         else cancel_current now current w
                    else w))"

definition add_rule :: "env \<Rightarrow> note_row \<Rightarrow> instant \<Rightarrow> int \<Rightarrow> world \<Rightarrow> world" where
  "add_rule env n now offset w =
     (let (i, w) = new_uuid env w;
          rule = \<lparr>r_id = i, r_note_id = n_id n, r_offset_minutes = offset, r_enabled = True,
                  r_current_cycle_number = 1\<rparr>
      in new_delivery env n rule now (w\<lparr>w_rules := w_rules w @ [rule]\<rparr>))"

definition rules_of :: "world \<Rightarrow> uuid \<Rightarrow> reminder_rule list" where
  "rules_of w note_id = sort_key r_id (filter (\<lambda>r. r_note_id r = note_id) (w_rules w))"

definition reconcile_reminders ::
  "env \<Rightarrow> note_row \<Rightarrow> int list \<Rightarrow> bool \<Rightarrow> instant \<Rightarrow> world \<Rightarrow> world" where
  "reconcile_reminders env n offsets schedule_changed now w =
     (let rules = rules_of w (n_id n);
          by_offset = map r_offset_minutes rules;
          w = fold (reconcile_rule env n offsets schedule_changed now) rules w
      in fold (add_rule env n now) (sort (filter (\<lambda>m. m \<notin> set by_offset) (remdups offsets))) w)"

text \<open>\<open>select_reminder_offsets\<close>: the enabled offsets of a note.\<close>

definition enabled_offsets :: "world \<Rightarrow> uuid \<Rightarrow> int list" where
  "enabled_offsets w note_id =
     map r_offset_minutes (filter (\<lambda>r. r_note_id r = note_id \<and> r_enabled r) (w_rules w))"

definition lock_series ::
  "env \<Rightarrow> note_row \<Rightarrow> int option \<Rightarrow> world \<Rightarrow> error + recurrence_series option \<times> world" where
  "lock_series env n expected_series_version w =
     (case n_series_id n of
        None \<Rightarrow> Inr (None, w)
      | Some sid \<Rightarrow>
          (case expected_series_version of
             None \<Rightarrow> Inl (field_error ''validation_error''
                       ''Recurring note mutation requires expected_series_version''
                       ''expected_series_version'' ''required'')
           | Some expected \<Rightarrow>
               (case find (\<lambda>s. rs_id s = sid) (w_series w) of
                  None \<Rightarrow> Inl NoResultFound
                | Some s \<Rightarrow>
                    if rs_version s \<noteq> expected
                    then Inl (conflict ''version_conflict'' ''The recurrence series changed''
                                (CurrentVersion (rs_id s) (rs_version s)))
                    else let (t, w) = utcnow env w
                         in Inr (Some s, save_series sid (\<lambda>s. s\<lparr>rs_updated_at := t\<rparr>) w))))"

end
