(* ===== verification/Reconcile.thy ===== *)
theory Reconcile
  imports Notes
begin

section \<open>What reconcile_reminders does to one rule, and to all rules of a note\<close>

text \<open>
  \<open>reconcile_rule\<close> reads and writes whole tables; its effect is local to one rule and that rule's
  deliveries. \<open>reconcile_local\<close> states that effect on the rule and the list of its deliveries, and
  the refinement lemma shows the table operation implements it and leaves everything else as it
  was. The invariant of a rule is then a property of a small list.
\<close>

subsection \<open>Deliveries of a rule\<close>

definition dels :: "uuid \<Rightarrow> reminder_delivery list \<Rightarrow> reminder_delivery list" where
  "dels i ds = filter (\<lambda>d. d_reminder_rule_id d = i) ds"

lemma dels_append [simp]: "dels i (xs @ ys) = dels i xs @ dels i ys"
  by (simp add: dels_def)

lemma set_dels [simp]: "d \<in> set (dels i ds) \<longleftrightarrow> d \<in> set ds \<and> d_reminder_rule_id d = i"
  by (auto simp: dels_def)

lemma dels_single [simp]: "dels i [d] = (if d_reminder_rule_id d = i then [d] else [])"
  by (simp add: dels_def)

lemma dels_update_where:
  assumes "\<And>d. d_reminder_rule_id (f d) = d_reminder_rule_id d"
  shows "dels i (update_where p f ds) = update_where p f (dels i ds)"
  using assms by (induction ds) (auto simp: dels_def update_where_def)

lemma update_where_cong:
  "(\<And>d. d \<in> set ds \<Longrightarrow> p d = q d) \<Longrightarrow> update_where p f ds = update_where q f ds"
  by (auto simp: update_where_def)

interpretation delivery_row: keyed_rows d_id "cancel_delivery now" for now
  by unfold_locales (simp add: cancel_delivery_def)

interpretation reinstated_row: keyed_rows d_id reinstate_delivery
  by unfold_locales (simp add: reinstate_delivery_def)

lemma dels_update_current:
  assumes ids: "distinct (map d_id ds)" and cycles: "distinct (map d_cycle_number (dels i ds))"
    and cur: "find (\<lambda>d. d_reminder_rule_id d = i \<and> d_cycle_number d = c) ds = Some d"
    and keeps: "\<And>d. d_reminder_rule_id (f d) = d_reminder_rule_id d"
  shows "dels j (update_where (\<lambda>x. d_id x = d_id d) f ds) =
    (if j = i then update_where (\<lambda>x. d_cycle_number x = c) f (dels i ds) else dels j ds)"
proof -
  have d: "d \<in> set ds" "d_reminder_rule_id d = i" "d_cycle_number d = c"
    using cur by (auto dest: find_Some_set)
  have same: "x = d \<longleftrightarrow> d_id x = d_id d" if "x \<in> set ds" for x
    using distinct_map_eqD [OF ids that d(1)] by auto
  have cyc: "x = d \<longleftrightarrow> d_cycle_number x = c" if "x \<in> set (dels i ds)" for x
    using distinct_map_eqD [OF cycles that] d by auto
  show ?thesis
  proof (cases "j = i")
    case True
    have "d_id x = d_id d \<longleftrightarrow> d_cycle_number x = c" if "x \<in> set (dels i ds)" for x
      using same cyc that by (metis set_dels)
    with True show ?thesis
      by (auto simp: dels_update_where [OF keeps] intro: update_where_cong)
  next
    case False
    then have "\<not> d_id x = d_id d" if "x \<in> set (dels j ds)" for x
      using same that d(2) by fastforce
    then have "update_where (\<lambda>x. d_id x = d_id d) f (dels j ds) = dels j ds" by (rule update_where_id)
    with False show ?thesis by (simp add: dels_update_where [OF keeps])
  qed
qed

subsection \<open>The local effect\<close>

definition fresh_delivery ::
  "uuid \<Rightarrow> note_row \<Rightarrow> reminder_rule \<Rightarrow> instant \<Rightarrow> reminder_delivery" where
  "fresh_delivery i n r now =
     (let deadline = due_at (n_starts_at n) (r_offset_minutes r);
          state = (if \<not> live_note n then Cancelled else if deadline \<le> now then Missed else Pending)
      in \<lparr>d_id = i, d_reminder_rule_id = r_id r, d_cycle_number = r_current_cycle_number r,
          d_due_at = deadline, d_state = state, d_claim_token = None, d_claim_expires_at = None,
          d_authorized_at = None, d_recipient_snapshot = None, d_content_snapshot = None,
          d_result_at = (if state \<in> {Cancelled, Missed} then Some now else None),
          d_error_code = None\<rparr>)"

definition cancel_if_open :: "instant \<Rightarrow> reminder_delivery \<Rightarrow> reminder_delivery" where
  "cancel_if_open now d = (if open_delivery d then cancel_delivery now d else d)"

definition settle_delivery ::
  "note_row \<Rightarrow> reminder_rule \<Rightarrow> instant \<Rightarrow> reminder_delivery \<Rightarrow> reminder_delivery" where
  "settle_delivery n r now d =
     (if d_state d \<in> {Pending, Claimed, Cancelled}
      then if live_note n \<and> due_at (n_starts_at n) (r_offset_minutes r) > now
           then reinstate_delivery d else cancel_if_open now d
      else d)"

definition on_cycle ::
  "int \<Rightarrow> (reminder_delivery \<Rightarrow> reminder_delivery) \<Rightarrow> reminder_delivery list \<Rightarrow> reminder_delivery list" where
  "on_cycle c f ds = update_where (\<lambda>d. d_cycle_number d = c) f ds"

definition next_cycle :: "reminder_rule \<Rightarrow> reminder_rule" where
  "next_cycle r = r\<lparr>r_enabled := True, r_current_cycle_number := r_current_cycle_number r + 1\<rparr>"

definition reconcile_local ::
  "uuid \<Rightarrow> note_row \<Rightarrow> int list \<Rightarrow> bool \<Rightarrow> instant \<Rightarrow> reminder_rule \<times> reminder_delivery list
    \<Rightarrow> reminder_rule \<times> reminder_delivery list" where
  "reconcile_local i n wanted schedule_changed now = (\<lambda>(r, ds).
     let c = r_current_cycle_number r
     in if r_offset_minutes r \<notin> set wanted
        then (r\<lparr>r_enabled := False\<rparr>, on_cycle c (cancel_if_open now) ds)
        else if schedule_changed \<or> \<not> r_enabled r
        then (next_cycle r, on_cycle c (cancel_if_open now) ds @ [fresh_delivery i n (next_cycle r) now])
        else (r, on_cycle c (settle_delivery n r now) ds))"

text \<open>Whether a new delivery (and so an identifier) is needed for a rule.\<close>

definition needs_cycle :: "int list \<Rightarrow> bool \<Rightarrow> reminder_rule \<Rightarrow> bool" where
  "needs_cycle wanted schedule_changed r \<longleftrightarrow>
     r_offset_minutes r \<in> set wanted \<and> (schedule_changed \<or> \<not> r_enabled r)"

subsection \<open>Frames\<close>

lemma set_rule_frame [row_simps]:
  "w_rules (set_rule i f w) = update_where (\<lambda>r. r_id r = i) f (w_rules w)"
  "w_deliveries (set_rule i f w) = w_deliveries w"
  "draws (set_rule i f w) = draws w"
  by (simp_all add: set_rule_def)

lemma set_delivery_frame [row_simps]:
  "w_deliveries (set_delivery i f w) = update_where (\<lambda>d. d_id d = i) f (w_deliveries w)"
  "w_rules (set_delivery i f w) = w_rules w"
  "draws (set_delivery i f w) = draws w"
  by (simp_all add: set_delivery_def)

lemma new_delivery_frame [row_simps]:
  "w_deliveries (new_delivery env n r now w) =
     w_deliveries w @ [fresh_delivery (uuid4 env (draws w)) n r now]"
  "w_rules (new_delivery env n r now w) = w_rules w"
  "draws (new_delivery env n r now w) = Suc (draws w)"
  by (simp_all add: new_delivery_def new_uuid_def fresh_delivery_def Let_def)

lemma cancel_current_frame [row_simps]:
  "w_rules (cancel_current now cur w) = w_rules w"
  "draws (cancel_current now cur w) = draws w"
  by (auto simp: cancel_current_def set_delivery_def split: option.splits)

lemma current_delivery_set_rule [simp]: "current_delivery (set_rule i f w) r = current_delivery w r"
  by (simp add: current_delivery_def set_rule_def)

text \<open>Everything but the rules, the deliveries and the supply of identifiers is untouched.\<close>

definition same_but_reminders :: "world \<Rightarrow> world \<Rightarrow> bool" where
  "same_but_reminders w w' \<longleftrightarrow>
     w' = w\<lparr>w_rules := w_rules w', w_deliveries := w_deliveries w', draws := draws w'\<rparr>"

lemma same_but_reminders_refl: "same_but_reminders w w"
  by (simp add: same_but_reminders_def)

lemma same_but_reminders_trans:
  "same_but_reminders u v \<Longrightarrow> same_but_reminders v w \<Longrightarrow> same_but_reminders u w"
  unfolding same_but_reminders_def by (cases u; cases v; cases w) simp

lemma same_but_reminders_steps [inv_intros]:
  "same_but_reminders w (set_rule i f w)"
  "same_but_reminders w (set_delivery j g w)"
  "same_but_reminders w (new_delivery env n r now w)"
  "same_but_reminders w (cancel_current now cur w)"
  by (auto simp: same_but_reminders_def set_rule_def set_delivery_def new_delivery_def new_uuid_def
      cancel_current_def Let_def split: option.splits)

lemma reconcile_rule_frame: "same_but_reminders w (reconcile_rule env n wanted sc now r w)"
  by (auto simp: same_but_reminders_def reconcile_rule_def set_rule_def set_delivery_def
      new_delivery_def new_uuid_def cancel_current_def Let_def split: option.split)

lemma add_rule_frame: "same_but_reminders w (add_rule env n now m w)"
  by (auto simp: same_but_reminders_def add_rule_def new_delivery_def new_uuid_def Let_def)

lemma reconcile_frame: "same_but_reminders w (reconcile_reminders env n offsets sc now w)"
proof -
  have "same_but_reminders w (fold (reconcile_rule env n offsets sc now) rs w)" for rs
    by (rule fold_invariant_set)
      (auto intro: same_but_reminders_refl same_but_reminders_trans reconcile_rule_frame)
  moreover have "same_but_reminders u (fold (add_rule env n now) ms u)" for ms u
    by (rule fold_invariant_set)
      (auto intro: same_but_reminders_refl same_but_reminders_trans add_rule_frame)
  ultimately show ?thesis
    unfolding reconcile_reminders_def Let_def by (blast intro: same_but_reminders_trans)
qed

lemma same_but_reminders_fields:
  assumes "same_but_reminders w w'"
  shows "w_settings w' = w_settings w" "w_tags w' = w_tags w" "w_series w' = w_series w"
    "w_notes w' = w_notes w" "w_actions w' = w_actions w" "w_members w' = w_members w"
    "w_note_tags w' = w_note_tags w" "w_series_tags w' = w_series_tags w"
    "w_exceptions w' = w_exceptions w" "w_templates w' = w_templates w"
    "w_notifications w' = w_notifications w" "w_outbox w' = w_outbox w"
    "w_now w' = w_now w" "ticks w' = ticks w"
  using assms unfolding same_but_reminders_def by (cases w; cases w'; simp)+

lemmas reconcile_fields [simp] = same_but_reminders_fields [OF reconcile_frame]

subsection \<open>The table operation implements the local one\<close>

lemma update_where_fun_cong:
  "(\<And>d. d \<in> set ds \<Longrightarrow> p d \<Longrightarrow> f d = g d) \<Longrightarrow> update_where p f ds = update_where p g ds"
  by (auto simp: update_where_def)

lemma on_cycle_id: "(\<And>d. d \<in> set ds \<Longrightarrow> d_cycle_number d = c \<Longrightarrow> f d = d) \<Longrightarrow> on_cycle c f ds = ds"
  unfolding on_cycle_def update_where_def by (rule map_idI) auto

lemma current_delivery_Some:
  "current_delivery w r = Some d \<Longrightarrow>
     d \<in> set (w_deliveries w) \<and> d_reminder_rule_id d = r_id r \<and> d_cycle_number d = r_current_cycle_number r"
  by (auto simp: current_delivery_def dest: find_Some_set)

lemma current_delivery_None:
  "current_delivery w r = None \<Longrightarrow> d \<in> set (dels (r_id r) (w_deliveries w)) \<Longrightarrow>
     d_cycle_number d \<noteq> r_current_cycle_number r"
  by (auto simp: current_delivery_def find_None_set)

lemma current_unique:
  assumes "distinct (map d_cycle_number (dels (r_id r) (w_deliveries w)))"
    and "current_delivery w r = Some d"
    and "x \<in> set (dels (r_id r) (w_deliveries w))" "d_cycle_number x = r_current_cycle_number r"
  shows "x = d"
proof -
  have "d \<in> set (dels (r_id r) (w_deliveries w))" "d_cycle_number d = d_cycle_number x"
    using current_delivery_Some [OF assms(2)] assms(4) by simp_all
  then show ?thesis using distinct_map_eqD [OF assms(1) assms(3)] by simp
qed

lemma set_current_dels:
  assumes "distinct (map d_id (w_deliveries w))"
    and "distinct (map d_cycle_number (dels (r_id r) (w_deliveries w)))"
    and "current_delivery w r = Some d"
    and "\<And>d. d_reminder_rule_id (f d) = d_reminder_rule_id d"
  shows "dels j (w_deliveries (set_delivery (d_id d) f w)) =
    (if j = r_id r then on_cycle (r_current_cycle_number r) f (dels (r_id r) (w_deliveries w))
     else dels j (w_deliveries w))"
  using dels_update_current [OF assms(1,2) assms(3) [unfolded current_delivery_def] assms(4)]
  by (simp add: row_simps on_cycle_def)

lemma cancel_current_dels:
  assumes "distinct (map d_id (w_deliveries w))"
    and cyc: "distinct (map d_cycle_number (dels (r_id r) (w_deliveries w)))"
  shows "dels j (w_deliveries (cancel_current now (current_delivery w r) w)) =
    (if j = r_id r
     then on_cycle (r_current_cycle_number r) (cancel_if_open now) (dels (r_id r) (w_deliveries w))
     else dels j (w_deliveries w))"
proof (cases "current_delivery w r")
  case None
  then have "on_cycle (r_current_cycle_number r) f (dels (r_id r) (w_deliveries w)) =
      dels (r_id r) (w_deliveries w)" for f
    by (intro on_cycle_id) (auto dest: current_delivery_None)
  with None show ?thesis by (simp add: cancel_current_def)
next
  case (Some d)
  note u = current_unique [OF cyc Some]
  show ?thesis
  proof (cases "open_delivery d")
    case True
    have "on_cycle (r_current_cycle_number r) (cancel_delivery now) (dels (r_id r) (w_deliveries w)) =
        on_cycle (r_current_cycle_number r) (cancel_if_open now) (dels (r_id r) (w_deliveries w))"
      unfolding on_cycle_def using u True
      by (intro update_where_fun_cong) (auto simp: cancel_if_open_def)
    moreover have "cancel_current now (Some d) w = set_delivery (d_id d) (cancel_delivery now) w"
      using True by (simp add: cancel_current_def open_delivery_def)
    ultimately show ?thesis
      using set_current_dels [OF assms Some, of "cancel_delivery now" j] Some
      by (simp add: cancel_delivery_def)
  next
    case False
    have "on_cycle (r_current_cycle_number r) (cancel_if_open now) (dels (r_id r) (w_deliveries w)) =
        dels (r_id r) (w_deliveries w)"
      using u False by (intro on_cycle_id) (auto simp: cancel_if_open_def)
    with Some False show ?thesis by (simp add: cancel_current_def open_delivery_def)
  qed
qed

lemma update_rule_const:
  assumes "distinct (map r_id rs)" "r \<in> set rs"
  shows "update_where (\<lambda>x. r_id x = r_id r) f rs = update_where (\<lambda>x. r_id x = r_id r) (\<lambda>_. f r) rs"
  using assms by (intro update_where_fun_cong) (metis distinct_map_eqD)

lemma update_where_twice:
  "(\<And>r. p (f r) = p r) \<Longrightarrow> update_where p g (update_where p f rs) = update_where p (g \<circ> f) rs"
  by (induction rs) (simp_all add: update_where_def)

lemma cancel_current_set_rule [simp]:
  "cancel_current now cur (set_rule i f w) = set_rule i f (cancel_current now cur w)"
  by (auto simp: cancel_current_def set_rule_def set_delivery_def split: option.splits)

lemma set_delivery_set_rule [simp]:
  "set_delivery j g (set_rule i f w) = set_rule i f (set_delivery j g w)"
  by (simp add: set_rule_def set_delivery_def)

lemma map_d_id_cancel_current [simp]:
  "map d_id (w_deliveries (cancel_current now cur w)) = map d_id (w_deliveries w)"
  by (auto simp: cancel_current_def row_simps delivery_row.update_pks split: option.splits)

text \<open>The three branches, with the state threading resolved.\<close>

definition settle_current :: "note_row \<Rightarrow> reminder_rule \<Rightarrow> instant \<Rightarrow> world \<Rightarrow> world" where
  "settle_current n r now w =
     (case current_delivery w r of
        None \<Rightarrow> w
      | Some d \<Rightarrow> set_delivery (d_id d) (settle_delivery n r now) w)"

lemma set_rule_twice:
  "(\<And>r. r_id (f r) = r_id r) \<Longrightarrow> set_rule i g (set_rule i f w) = set_rule i (g \<circ> f) w"
  by (simp add: set_rule_def update_where_twice)

lemma set_delivery_id:
  assumes "distinct (map d_id (w_deliveries w))" "d \<in> set (w_deliveries w)" "f d = d"
  shows "set_delivery (d_id d) f w = w"
proof -
  have "update_where (\<lambda>x. d_id x = d_id d) f (w_deliveries w) =
      update_where (\<lambda>x. d_id x = d_id d) (\<lambda>x. x) (w_deliveries w)"
    using assms by (intro update_where_fun_cong) (metis distinct_map_eqD)
  then show ?thesis by (simp add: set_delivery_def update_where_def)
qed

lemma set_delivery_cong:
  assumes "distinct (map d_id (w_deliveries w))" "d \<in> set (w_deliveries w)" "f d = g d"
  shows "set_delivery (d_id d) f w = set_delivery (d_id d) g w"
proof -
  have "update_where (\<lambda>x. d_id x = d_id d) f (w_deliveries w) =
      update_where (\<lambda>x. d_id x = d_id d) g (w_deliveries w)"
    using assms by (intro update_where_fun_cong) (metis distinct_map_eqD)
  then show ?thesis by (simp add: set_delivery_def)
qed

lemma settle_current_cases:
  assumes ids: "distinct (map d_id (w_deliveries w))" and cur: "current_delivery w r = Some d"
  shows "settle_current n r now w =
    (if d_state d \<in> {Pending, Claimed, Cancelled}
     then if live_note n \<and> due_at (n_starts_at n) (r_offset_minutes r) > now
          then set_delivery (d_id d) reinstate_delivery w
          else cancel_current now (Some d) w
     else w)"
proof -
  have d: "d \<in> set (w_deliveries w)" using current_delivery_Some [OF cur] by simp
  note same = set_delivery_id [OF ids d, of "settle_delivery n r now"]
  note to = set_delivery_cong [OF ids d, of "settle_delivery n r now"]
  consider (closed) "d_state d \<notin> {Pending, Claimed, Cancelled}"
    | (due) "d_state d \<in> {Pending, Claimed, Cancelled}" "live_note n \<and> due_at (n_starts_at n) (r_offset_minutes r) > now"
    | (dead) "d_state d \<in> {Pending, Claimed, Cancelled}" "\<not> (live_note n \<and> due_at (n_starts_at n) (r_offset_minutes r) > now)"
    by blast
  then show ?thesis
  proof cases
    case closed
    then show ?thesis using cur same by (simp add: settle_current_def settle_delivery_def)
  next
    case due
    then show ?thesis using cur to [of reinstate_delivery]
      by (simp add: settle_current_def settle_delivery_def)
  next
    case dead
    then show ?thesis using cur same to [of "cancel_delivery now"]
      by (auto simp: settle_current_def settle_delivery_def cancel_current_def cancel_if_open_def open_delivery_def)
  qed
qed

lemma reconcile_rule_unwanted:
  "r_offset_minutes r \<notin> set wanted \<Longrightarrow> reconcile_rule env n wanted sc now r w =
     set_rule (r_id r) (\<lambda>r. r\<lparr>r_enabled := False\<rparr>) (cancel_current now (current_delivery w r) w)"
  by (simp add: reconcile_rule_def)

lemma reconcile_rule_cycle:
  "needs_cycle wanted sc r \<Longrightarrow> reconcile_rule env n wanted sc now r w =
     new_delivery env n (next_cycle r) now
       (set_rule (r_id r) next_cycle (cancel_current now (current_delivery w r) w))"
  by (auto simp: reconcile_rule_def needs_cycle_def next_cycle_def [abs_def] set_rule_twice comp_def Let_def)

lemma reconcile_rule_kept:
  assumes "distinct (map d_id (w_deliveries w))"
    and "r_offset_minutes r \<in> set wanted" "\<not> needs_cycle wanted sc r"
  shows "reconcile_rule env n wanted sc now r w =
     set_rule (r_id r) (\<lambda>r. r\<lparr>r_enabled := True\<rparr>) (settle_current n r now w)"
proof (cases "current_delivery w r")
  case None
  with assms show ?thesis
    by (simp add: reconcile_rule_def needs_cycle_def settle_current_def Let_def)
next
  case (Some d)
  then show ?thesis
    unfolding settle_current_cases [OF assms(1) Some] using assms(2,3)
    by (auto simp: reconcile_rule_def needs_cycle_def Let_def)
qed

lemma settle_current_dels:
  assumes "distinct (map d_id (w_deliveries w))"
    and cyc: "distinct (map d_cycle_number (dels (r_id r) (w_deliveries w)))"
  shows "dels j (w_deliveries (settle_current n r now w)) =
    (if j = r_id r
     then on_cycle (r_current_cycle_number r) (settle_delivery n r now) (dels (r_id r) (w_deliveries w))
     else dels j (w_deliveries w))"
proof (cases "current_delivery w r")
  case None
  then have "on_cycle (r_current_cycle_number r) f (dels (r_id r) (w_deliveries w)) =
      dels (r_id r) (w_deliveries w)" for f
    by (intro on_cycle_id) (auto dest: current_delivery_None)
  with None show ?thesis by (simp add: settle_current_def)
next
  case (Some d)
  show ?thesis
    using set_current_dels [OF assms Some, of "settle_delivery n r now" j] Some
    by (simp add: settle_current_def settle_delivery_def reinstate_delivery_def cancel_if_open_def
        cancel_delivery_def)
qed

lemma settle_current_frame [row_simps]:
  "w_rules (settle_current n r now w) = w_rules w"
  "draws (settle_current n r now w) = draws w"
  "map d_id (w_deliveries (settle_current n r now w)) = map d_id (w_deliveries w)"
  by (auto simp: settle_current_def set_delivery_def settle_delivery_def reinstate_delivery_def
      cancel_if_open_def cancel_delivery_def split: option.splits)

subsection \<open>Refinement\<close>

lemma reconcile_rule_dels:
  assumes ids: "distinct (map d_id (w_deliveries w))"
    and cyc: "distinct (map d_cycle_number (dels (r_id r) (w_deliveries w)))"
  shows "dels j (w_deliveries (reconcile_rule env n wanted sc now r w)) =
    (if j = r_id r
     then snd (reconcile_local (uuid4 env (draws w)) n wanted sc now (r, dels (r_id r) (w_deliveries w)))
     else dels j (w_deliveries w))"
proof -
  note cancel = cancel_current_dels [OF ids cyc]
  consider "r_offset_minutes r \<notin> set wanted" | "needs_cycle wanted sc r"
    | "r_offset_minutes r \<in> set wanted" "\<not> needs_cycle wanted sc r" by blast
  then show ?thesis
  proof cases
    case 1
    then show ?thesis by (simp add: reconcile_rule_unwanted row_simps cancel reconcile_local_def)
  next
    case 2
    have "d_reminder_rule_id (fresh_delivery i n (next_cycle r) now) = r_id r" for i
      by (simp add: fresh_delivery_def next_cycle_def Let_def)
    with 2 show ?thesis
      by (simp add: reconcile_rule_cycle row_simps cancel) (simp add: reconcile_local_def needs_cycle_def Let_def)
  next
    case 3
    then show ?thesis
      by (simp add: reconcile_rule_kept [OF ids] row_simps settle_current_dels [OF ids cyc])
        (simp add: reconcile_local_def needs_cycle_def)
  qed
qed

lemma reconcile_rule_rules:
  assumes ids: "distinct (map d_id (w_deliveries w))"
    and rules: "distinct (map r_id (w_rules w))" "r \<in> set (w_rules w)"
  shows "w_rules (reconcile_rule env n wanted sc now r w) =
    update_where (\<lambda>x. r_id x = r_id r)
      (\<lambda>_. fst (reconcile_local i n wanted sc now (r, ds))) (w_rules w)"
proof -
  note const = update_rule_const [OF rules]
  consider "r_offset_minutes r \<notin> set wanted" | "needs_cycle wanted sc r"
    | "r_offset_minutes r \<in> set wanted" "\<not> needs_cycle wanted sc r" by blast
  then show ?thesis
  proof cases
    case 1
    then show ?thesis
      using const [of "\<lambda>r. r\<lparr>r_enabled := False\<rparr>"]
      by (simp add: reconcile_rule_unwanted row_simps reconcile_local_def)
  next
    case 2
    then show ?thesis using const [of next_cycle]
      by (simp add: reconcile_rule_cycle row_simps) (simp add: reconcile_local_def needs_cycle_def Let_def)
  next
    case 3
    then have "r\<lparr>r_enabled := True\<rparr> = r" by (cases r) (simp add: needs_cycle_def)
    with 3 show ?thesis
      using const [of "\<lambda>r. r\<lparr>r_enabled := True\<rparr>"]
      by (simp add: reconcile_rule_kept [OF ids] row_simps) (simp add: reconcile_local_def needs_cycle_def)
  qed
qed

lemma reconcile_rule_ids:
  assumes ids: "distinct (map d_id (w_deliveries w))"
  shows "map d_id (w_deliveries (reconcile_rule env n wanted sc now r w)) =
      map d_id (w_deliveries w) @ (if needs_cycle wanted sc r then [uuid4 env (draws w)] else [])"
    and "draws (reconcile_rule env n wanted sc now r w) =
      draws w + (if needs_cycle wanted sc r then 1 else 0)"
proof -
  consider "r_offset_minutes r \<notin> set wanted" "\<not> needs_cycle wanted sc r" | "needs_cycle wanted sc r"
    | "r_offset_minutes r \<in> set wanted" "\<not> needs_cycle wanted sc r"
    by (auto simp: needs_cycle_def)
  note three = this
  show "map d_id (w_deliveries (reconcile_rule env n wanted sc now r w)) =
      map d_id (w_deliveries w) @ (if needs_cycle wanted sc r then [uuid4 env (draws w)] else [])"
    using three
    by cases (simp_all add: reconcile_rule_unwanted reconcile_rule_cycle reconcile_rule_kept [OF ids]
        row_simps fresh_delivery_def Let_def)
  show "draws (reconcile_rule env n wanted sc now r w) =
      draws w + (if needs_cycle wanted sc r then 1 else 0)"
    using three
    by cases (simp_all add: reconcile_rule_unwanted reconcile_rule_cycle reconcile_rule_kept [OF ids]
        row_simps)
qed

end
