(* ===== verification/ReminderInvariant.thy ===== *)
theory ReminderInvariant
  imports Reconcile
begin

section \<open>The invariant of reminders and its preservation by reconcile_reminders\<close>

text \<open>
  Every rule keeps a run of deliveries, one per cycle, the last one being the rule's current
  cycle. \<open>rule_ok\<close> says what the scheduler relies on: only the current delivery of an enabled rule
  of a live note can be open, and it is due at the note's start less the offset. \<open>reminders_ok\<close> is
  that for every rule, with the keys, foreign keys and CHECK constraints of the tables. A handler
  that changes a note breaks it for the rules of this note only, to \<open>rule_pre\<close>, and
  \<open>reconcile_reminders\<close> restores it.
\<close>

subsection \<open>One rule\<close>

definition cycles_ok :: "reminder_rule \<Rightarrow> reminder_delivery list \<Rightarrow> bool" where
  "cycles_ok r ds \<longleftrightarrow> distinct (map d_cycle_number ds)
     \<and> (\<forall>d \<in> set ds. d_cycle_number d \<le> r_current_cycle_number r)
     \<and> (\<exists>d \<in> set ds. d_cycle_number d = r_current_cycle_number r)"

definition due_ok :: "note_row \<Rightarrow> reminder_rule \<Rightarrow> reminder_delivery list \<Rightarrow> bool" where
  "due_ok n r ds \<longleftrightarrow> (r_enabled r \<longrightarrow>
     (\<forall>d \<in> set ds. d_cycle_number d = r_current_cycle_number r \<longrightarrow>
        d_due_at d = due_at (n_starts_at n) (r_offset_minutes r)))"

definition open_ok :: "note_row \<Rightarrow> reminder_rule \<Rightarrow> reminder_delivery list \<Rightarrow> bool" where
  "open_ok n r ds \<longleftrightarrow> (\<forall>d \<in> set ds. open_delivery d \<longrightarrow>
     r_enabled r \<and> d_cycle_number d = r_current_cycle_number r \<and> live_note n)"

definition rule_ok :: "note_row \<Rightarrow> reminder_rule \<Rightarrow> reminder_delivery list \<Rightarrow> bool" where
  "rule_ok n r ds \<longleftrightarrow> cycles_ok r ds \<and> due_ok n r ds \<and> open_ok n r ds"

definition rule_pre :: "bool \<Rightarrow> note_row \<Rightarrow> reminder_rule \<Rightarrow> reminder_delivery list \<Rightarrow> bool" where
  "rule_pre schedule_changed n r ds \<longleftrightarrow> cycles_ok r ds \<and> (\<not> schedule_changed \<longrightarrow> due_ok n r ds)
     \<and> (\<forall>d \<in> set ds. open_delivery d \<longrightarrow> d_cycle_number d = r_current_cycle_number r)"

lemma rule_ok_pre:
  "rule_ok m r ds \<Longrightarrow> (\<not> sc \<Longrightarrow> n_starts_at n = n_starts_at m) \<Longrightarrow> rule_pre sc n r ds"
  by (auto simp: rule_ok_def rule_pre_def due_ok_def open_ok_def)

lemma rule_ok_cong:
  "rule_ok m r ds \<Longrightarrow> n_starts_at n = n_starts_at m \<Longrightarrow> (live_note m \<Longrightarrow> live_note n) \<Longrightarrow> rule_ok n r ds"
  by (auto simp: rule_ok_def due_ok_def open_ok_def)

lemma set_on_cycle [simp]:
  "d \<in> set (on_cycle c f ds) \<longleftrightarrow> (\<exists>d0 \<in> set ds. d = (if d_cycle_number d0 = c then f d0 else d0))"
  by (auto simp: on_cycle_def row_simps)

lemma on_cycle_map [simp]:
  "(\<And>d. g (f d) = g d) \<Longrightarrow> map g (on_cycle c f ds) = map g ds"
  by (simp add: on_cycle_def)

lemma cancel_if_open_simps [simp]:
  "d_id (cancel_if_open now d) = d_id d"
  "d_cycle_number (cancel_if_open now d) = d_cycle_number d"
  "d_reminder_rule_id (cancel_if_open now d) = d_reminder_rule_id d"
  "d_due_at (cancel_if_open now d) = d_due_at d"
  "\<not> open_delivery (cancel_if_open now d)"
  by (auto simp: cancel_if_open_def cancel_delivery_def open_delivery_def)

lemma settle_delivery_simps [simp]:
  "d_id (settle_delivery n r now d) = d_id d"
  "d_cycle_number (settle_delivery n r now d) = d_cycle_number d"
  "d_reminder_rule_id (settle_delivery n r now d) = d_reminder_rule_id d"
  "d_due_at (settle_delivery n r now d) = d_due_at d"
  by (auto simp: settle_delivery_def reinstate_delivery_def)

lemma settle_delivery_open:
  assumes "open_delivery (settle_delivery n r now d)"
  shows "live_note n"
proof (rule ccontr)
  assume "\<not> live_note n"
  then have "settle_delivery n r now d = cancel_if_open now d
      \<or> settle_delivery n r now d = d \<and> \<not> open_delivery d"
    by (simp add: settle_delivery_def open_delivery_def)
  with assms show False by auto
qed

lemma cancel_if_open_shape:
  assumes "delivery_shape d"
  shows "delivery_shape (cancel_if_open now d)"
proof (cases "open_delivery d")
  case True
  then consider "d_state d = Pending" | "d_state d = Claimed" by (auto simp: open_delivery_def)
  then show ?thesis
    using assms by cases (simp_all add: cancel_if_open_def True cancel_delivery_def shape_simps)
next
  case False
  then show ?thesis using assms by (simp add: cancel_if_open_def)
qed

lemma settle_delivery_shape:
  assumes "delivery_shape d"
  shows "delivery_shape (settle_delivery n r now d)"
proof -
  have "delivery_shape (reinstate_delivery d)" if "d_state d \<in> {Pending, Claimed, Cancelled}"
  proof -
    from that consider "d_state d = Pending" | "d_state d = Claimed" | "d_state d = Cancelled" by auto
    then show ?thesis
      using assms by cases (simp_all add: reinstate_delivery_def shape_simps)
  qed
  then show ?thesis using assms by (simp add: settle_delivery_def cancel_if_open_shape)
qed

lemma fresh_delivery_simps [simp]:
  "d_id (fresh_delivery i n r now) = i"
  "d_reminder_rule_id (fresh_delivery i n r now) = r_id r"
  "d_cycle_number (fresh_delivery i n r now) = r_current_cycle_number r"
  "d_due_at (fresh_delivery i n r now) = due_at (n_starts_at n) (r_offset_minutes r)"
  "d_claim_token (fresh_delivery i n r now) = None"
  "open_delivery (fresh_delivery i n r now) \<longleftrightarrow>
     live_note n \<and> due_at (n_starts_at n) (r_offset_minutes r) > now"
  "delivery_shape (fresh_delivery i n r now)"
  by (simp_all add: fresh_delivery_def open_delivery_def shape_simps Let_def)

lemma next_cycle_simps [simp]:
  "r_id (next_cycle r) = r_id r" "r_note_id (next_cycle r) = r_note_id r"
  "r_offset_minutes (next_cycle r) = r_offset_minutes r" "r_enabled (next_cycle r)"
  "r_current_cycle_number (next_cycle r) = r_current_cycle_number r + 1"
  by (simp_all add: next_cycle_def)

text \<open>The local effect establishes the invariant of the rule, for the note as it now is.\<close>

lemma rule_preD:
  assumes "rule_pre sc n r ds"
  shows "cycles_ok r ds" and "\<not> sc \<Longrightarrow> due_ok n r ds"
    and "d \<in> set ds \<Longrightarrow> open_delivery d \<Longrightarrow> d_cycle_number d = r_current_cycle_number r"
  using assms by (simp_all add: rule_pre_def)

lemma cycles_ok_on_cycle:
  assumes "cycles_ok r ds" and f: "\<And>d. d_cycle_number (f d) = d_cycle_number d"
  shows "cycles_ok r (on_cycle c f ds)"
proof -
  have eq: "map d_cycle_number (on_cycle c f ds) = map d_cycle_number ds" using f by simp
  have im: "d_cycle_number ` set (on_cycle c f ds) = d_cycle_number ` set ds"
    using arg_cong [OF eq, of set] by (simp only: list.set_map)
  have iff: "cycles_ok r xs \<longleftrightarrow> distinct (map d_cycle_number xs)
      \<and> (\<forall>k \<in> d_cycle_number ` set xs. k \<le> r_current_cycle_number r)
      \<and> r_current_cycle_number r \<in> d_cycle_number ` set xs" for xs
    by (simp add: cycles_ok_def image_iff eq_commute [of "r_current_cycle_number r"])
  show ?thesis using assms(1) unfolding iff eq im .
qed

lemma on_cycle_closed:
  assumes "\<And>d. d \<in> set ds \<Longrightarrow> open_delivery d \<Longrightarrow> d_cycle_number d = c"
    and "d \<in> set (on_cycle c (cancel_if_open now) ds)"
  shows "\<not> open_delivery d"
proof -
  obtain d0 where "d0 \<in> set ds" "d = (if d_cycle_number d0 = c then cancel_if_open now d0 else d0)"
    using assms(2) by auto
  with assms(1) show ?thesis by (cases "d_cycle_number d0 = c") auto
qed

lemma unwanted_rule_ok:
  assumes "rule_pre sc n r ds"
  shows "rule_ok n (r\<lparr>r_enabled := False\<rparr>) (on_cycle (r_current_cycle_number r) (cancel_if_open now) ds)"
proof -
  have "cycles_ok r (on_cycle (r_current_cycle_number r) (cancel_if_open now) ds)"
    using rule_preD(1) [OF assms] by (rule cycles_ok_on_cycle) simp
  then have "cycles_ok (r\<lparr>r_enabled := False\<rparr>) (on_cycle (r_current_cycle_number r) (cancel_if_open now) ds)"
    by (simp add: cycles_ok_def)
  moreover have "\<not> open_delivery d"
    if "d \<in> set (on_cycle (r_current_cycle_number r) (cancel_if_open now) ds)" for d
    using on_cycle_closed [OF rule_preD(3) [OF assms] that] .
  ultimately show ?thesis by (simp add: rule_ok_def due_ok_def open_ok_def del: set_on_cycle)
qed

lemma cycle_rule_ok:
  assumes "rule_pre sc n r ds"
  shows "rule_ok n (next_cycle r)
    (on_cycle (r_current_cycle_number r) (cancel_if_open now) ds @ [fresh_delivery i n (next_cycle r) now])"
    (is "rule_ok _ _ (?old @ [?new])")
proof -
  have old: "cycles_ok r ?old"
    using rule_preD(1) [OF assms] by (rule cycles_ok_on_cycle) simp
  have closed: "\<not> open_delivery d" if "d \<in> set ?old" for d
    using on_cycle_closed [OF rule_preD(3) [OF assms] that] .
  have below: "d_cycle_number d \<le> r_current_cycle_number r" if "d \<in> set ?old" for d
    using old that unfolding cycles_ok_def by blast
  have "distinct (map d_cycle_number ?old)" using old by (simp add: cycles_ok_def)
  then have "cycles_ok (next_cycle r) (?old @ [?new])"
    unfolding cycles_ok_def using below by (force simp del: set_on_cycle on_cycle_map)
  moreover have "due_ok n (next_cycle r) (?old @ [?new])"
    unfolding due_ok_def using below by (force simp del: set_on_cycle)
  moreover have "open_ok n (next_cycle r) (?old @ [?new])"
    unfolding open_ok_def using closed by (auto simp del: set_on_cycle)
  ultimately show ?thesis by (simp add: rule_ok_def)
qed

lemma kept_rule_ok:
  assumes "rule_pre sc n r ds" "\<not> sc" "r_enabled r"
  shows "rule_ok n r (on_cycle (r_current_cycle_number r) (settle_delivery n r now) ds)"
    (is "rule_ok _ _ ?new")
proof -
  have "cycles_ok r ?new" using rule_preD(1) [OF assms(1)] by (rule cycles_ok_on_cycle) simp
  moreover have "due_ok n r ?new"
    using rule_preD(2) [OF assms(1,2)] unfolding due_ok_def by auto
  moreover have "open_ok n r ?new"
    unfolding open_ok_def
  proof (intro ballI impI conjI assms(3))
    fix d assume d: "d \<in> set ?new" "open_delivery d"
    then obtain d0 where d0: "d0 \<in> set ds"
      "d = (if d_cycle_number d0 = r_current_cycle_number r then settle_delivery n r now d0 else d0)"
      by auto
    with d(2) show cur: "d_cycle_number d = r_current_cycle_number r"
      using rule_preD(3) [OF assms(1) d0(1)] by (auto split: if_splits)
    with d0 have "d = settle_delivery n r now d0" by (auto split: if_splits)
    with d(2) show "live_note n" by (blast intro: settle_delivery_open)
  qed
  ultimately show ?thesis by (simp add: rule_ok_def)
qed

lemma on_cycle_shape:
  "\<forall>d \<in> set ds. delivery_shape d \<Longrightarrow> (\<And>d. delivery_shape d \<Longrightarrow> delivery_shape (f d)) \<Longrightarrow>
     \<forall>d \<in> set (on_cycle c f ds). delivery_shape d"
  by auto

lemma reconcile_local_cases:
  assumes "reconcile_local i n wanted sc now (r, ds) = (r', ds')"
  obtains (unwanted) "r_offset_minutes r \<notin> set wanted" "r' = r\<lparr>r_enabled := False\<rparr>"
      "ds' = on_cycle (r_current_cycle_number r) (cancel_if_open now) ds"
    | (cycle) "r_offset_minutes r \<in> set wanted" "r' = next_cycle r"
      "ds' = on_cycle (r_current_cycle_number r) (cancel_if_open now) ds @ [fresh_delivery i n (next_cycle r) now]"
    | (kept) "r_offset_minutes r \<in> set wanted" "\<not> sc" "r_enabled r" "r' = r"
      "ds' = on_cycle (r_current_cycle_number r) (settle_delivery n r now) ds"
proof (cases "r_offset_minutes r \<in> set wanted")
  case False
  with assms show thesis by (intro unwanted) (simp_all add: reconcile_local_def Let_def)
next
  case True
  show thesis
  proof (cases "sc \<or> \<not> r_enabled r")
    case new: True
    with True assms show thesis by (intro cycle) (auto simp: reconcile_local_def Let_def)
  next
    case False
    with True assms show thesis by (intro kept) (auto simp: reconcile_local_def Let_def)
  qed
qed

lemma reconcile_local_ok:
  assumes "rule_pre sc n r ds" "reconcile_local i n wanted sc now (r, ds) = (r', ds')"
  shows "rule_ok n r' ds'"
    and "r_id r' = r_id r \<and> r_note_id r' = r_note_id r \<and> r_offset_minutes r' = r_offset_minutes r"
    and "r_enabled r' \<longleftrightarrow> r_offset_minutes r \<in> set wanted"
  using assms(2)
  by (cases rule: reconcile_local_cases; simp add: unwanted_rule_ok [OF assms(1)]
      cycle_rule_ok [OF assms(1)] kept_rule_ok [OF assms(1)])+

lemma reconcile_local_shape:
  assumes "reconcile_local i n wanted sc now (r, ds) = (r', ds')" "\<forall>d \<in> set ds. delivery_shape d"
  shows "\<forall>d \<in> set ds'. delivery_shape d"
  using assms(1)
proof (cases rule: reconcile_local_cases)
  case unwanted
  show ?thesis unfolding unwanted by (rule on_cycle_shape [OF assms(2) cancel_if_open_shape])
next
  case cycle
  have "\<forall>d \<in> set (on_cycle (r_current_cycle_number r) (cancel_if_open now) ds). delivery_shape d"
    by (rule on_cycle_shape [OF assms(2) cancel_if_open_shape])
  then show ?thesis unfolding cycle by (simp del: set_on_cycle)
next
  case kept
  show ?thesis unfolding kept by (rule on_cycle_shape [OF assms(2) settle_delivery_shape])
qed

subsection \<open>Fresh identifiers\<close>

definition used_ids :: "world \<Rightarrow> uuid set" where
  "used_ids w = tag_id ` set (w_tags w) \<union> rs_id ` set (w_series w) \<union> n_id ` set (w_notes w)
     \<union> ta_id ` set (w_actions w) \<union> oe_id ` set (w_exceptions w) \<union> r_id ` set (w_rules w)
     \<union> d_id ` set (w_deliveries w) \<union> nf_id ` set (w_notifications w) \<union> ev_id ` set (w_outbox w)"

text \<open>\<open>uuid4\<close> never repeats itself, nor an identifier already in the database.\<close>

definition fresh :: "env \<Rightarrow> world \<Rightarrow> bool" where
  "fresh env w \<longleftrightarrow> inj (uuid4 env) \<and> (\<forall>k \<ge> draws w. uuid4 env k \<notin> used_ids w)"

definition grows :: "env \<Rightarrow> world \<Rightarrow> world \<Rightarrow> bool" where
  "grows env w w' \<longleftrightarrow> draws w \<le> draws w' \<and> used_ids w' \<subseteq> used_ids w \<union> uuid4 env ` {draws w..<draws w'}"

lemma grows_refl [simp]: "grows env w w"
  by (simp add: grows_def)

lemma grows_trans:
  assumes "grows env u v" "grows env v w"
  shows "grows env u w"
proof -
  have le: "draws u \<le> draws v" "draws v \<le> draws w" using assms by (simp_all add: grows_def)
  then have "{draws u..<draws v} \<subseteq> {draws u..<draws w}" "{draws v..<draws w} \<subseteq> {draws u..<draws w}"
    by simp_all
  then have "used_ids v \<subseteq> used_ids u \<union> uuid4 env ` {draws u..<draws w}"
    "used_ids w \<subseteq> used_ids v \<union> uuid4 env ` {draws u..<draws w}"
    using assms unfolding grows_def by blast+
  with le show ?thesis unfolding grows_def by (meson Un_least order_trans sup.cobounded2 le_trans)
qed

lemma fresh_grows:
  assumes "fresh env w" "grows env w w'"
  shows "fresh env w'"
  unfolding fresh_def
proof (intro conjI allI impI)
  show "inj (uuid4 env)" using assms(1) by (simp add: fresh_def)
next
  fix k assume k: "draws w' \<le> k"
  then have "draws w \<le> k" using assms(2) by (simp add: grows_def)
  then have old: "uuid4 env k \<notin> used_ids w" using assms(1) by (simp add: fresh_def)
  have "uuid4 env k \<notin> uuid4 env ` {draws w..<draws w'}"
    using assms(1) k by (auto simp: fresh_def inj_eq)
  with old assms(2) show "uuid4 env k \<notin> used_ids w'" unfolding grows_def by blast
qed

subsection \<open>All rules\<close>

definition reminder_rows_wf :: "world \<Rightarrow> bool" where
  "reminder_rows_wf w \<longleftrightarrow>
     distinct (map n_id (w_notes w)) \<and> distinct (map r_id (w_rules w))
     \<and> distinct (map d_id (w_deliveries w))
     \<and> (\<forall>r \<in> set (w_rules w). r_note_id r \<in> n_id ` set (w_notes w))
     \<and> (\<forall>d \<in> set (w_deliveries w). d_reminder_rule_id d \<in> r_id ` set (w_rules w))
     \<and> distinct (map (\<lambda>r. (r_note_id r, r_offset_minutes r)) (w_rules w))
     \<and> (\<forall>d \<in> set (w_deliveries w). delivery_shape d)"

definition rule_state :: "world \<Rightarrow> note_row \<Rightarrow> reminder_rule \<Rightarrow> bool" where
  "rule_state w n r \<longleftrightarrow> rule_ok n r (dels (r_id r) (w_deliveries w))"

definition reminders_ok :: "world \<Rightarrow> bool" where
  "reminders_ok w \<longleftrightarrow> reminder_rows_wf w
     \<and> (\<forall>n \<in> set (w_notes w). \<forall>r \<in> set (w_rules w). r_note_id r = n_id n \<longrightarrow> rule_state w n r)"

text \<open>The state of the loop: the rules of \<open>rs\<close> are still to be done.\<close>

definition reconciling ::
  "int list \<Rightarrow> bool \<Rightarrow> note_row \<Rightarrow> reminder_rule list \<Rightarrow> world \<Rightarrow> bool" where
  "reconciling wanted sc n rs w \<longleftrightarrow> reminder_rows_wf w \<and> n \<in> set (w_notes w)
     \<and> set rs \<subseteq> set (w_rules w) \<and> distinct rs
     \<and> (\<forall>r \<in> set rs. r_note_id r = n_id n \<and> rule_pre sc n r (dels (r_id r) (w_deliveries w)))
     \<and> (\<forall>m \<in> set (w_notes w). \<forall>r \<in> set (w_rules w) - set rs. r_note_id r = n_id m \<longrightarrow> rule_state w m r)
     \<and> (\<forall>r \<in> set (w_rules w) - set rs. r_note_id r = n_id n \<longrightarrow>
          (r_enabled r \<longleftrightarrow> r_offset_minutes r \<in> set wanted))"

lemma reconcile_rule_grows:
  assumes "distinct (map d_id (w_deliveries w))" "distinct (map r_id (w_rules w))" "r \<in> set (w_rules w)"
  shows "grows env w (reconcile_rule env n wanted sc now r w)"
proof -
  let ?w = "reconcile_rule env n wanted sc now r w"
  have ids: "d_id ` set (w_deliveries ?w) = d_id ` set (w_deliveries w)
      \<union> (if needs_cycle wanted sc r then {uuid4 env (draws w)} else {})"
    using arg_cong [OF reconcile_rule_ids(1) [OF assms(1), of env n wanted sc now r], of set] by simp
  have "map r_id (w_rules ?w) = map r_id (w_rules w)"
  proof -
    have "r_id (fst (reconcile_local i n wanted sc now (r, ds))) = r_id r" for i ds
      by (simp add: reconcile_local_def Let_def)
    then show ?thesis
      by (simp add: reconcile_rule_rules [OF assms, where i = 0 and ds = "[]"] update_where_def)
  qed
  then have rules: "r_id ` set (w_rules ?w) = r_id ` set (w_rules w)" by (metis list.set_map)
  show ?thesis
    using same_but_reminders_fields [OF reconcile_rule_frame [of w env n wanted sc now r]]
    unfolding grows_def used_ids_def reconcile_rule_ids(2) [OF assms(1)] ids rules
    by (cases "needs_cycle wanted sc r") auto
qed

text \<open>One rule of the loop is done.\<close>

lemma updated_rules:
  assumes "distinct (map r_id rules)" "r \<in> set rules" "r_id r' = r_id r"
  shows "x \<in> set (update_where (\<lambda>x. r_id x = r_id r) (\<lambda>_. r') rules) \<longleftrightarrow>
      x = r' \<or> x \<in> set rules \<and> x \<noteq> r"
    and "g r' = g r \<Longrightarrow> map g (update_where (\<lambda>x. r_id x = r_id r) (\<lambda>_. r') rules) = map g rules"
proof -
  have same: "x = r \<longleftrightarrow> r_id x = r_id r" if "x \<in> set rules" for x
    using distinct_map_eqD [OF assms(1) that assms(2)] by auto
  then show "x \<in> set (update_where (\<lambda>x. r_id x = r_id r) (\<lambda>_. r') rules) \<longleftrightarrow>
      x = r' \<or> x \<in> set rules \<and> x \<noteq> r"
    using assms(2) by (auto simp: row_simps)
  show "map g (update_where (\<lambda>x. r_id x = r_id r) (\<lambda>_. r') rules) = map g rules" if "g r' = g r"
    using that same by (auto simp: update_where_def)
qed

lemma draw_fresh: "fresh env w \<Longrightarrow> uuid4 env (draws w) \<notin> used_ids w"
  by (simp add: fresh_def)

text \<open>The effect of \<open>reconcile_rule\<close> on well-formed rows, as the local effect gives it.\<close>

lemma reconcile_rule_effect:
  assumes "reminder_rows_wf w" "r \<in> set (w_rules w)" "rule_pre sc n r (dels (r_id r) (w_deliveries w))"
    and loc: "reconcile_local (uuid4 env (draws w)) n wanted sc now
      (r, dels (r_id r) (w_deliveries w)) = (r', ds')"
  defines "w' \<equiv> reconcile_rule env n wanted sc now r w"
  shows "x \<in> set (w_rules w') \<longleftrightarrow> x = r' \<or> x \<in> set (w_rules w) \<and> x \<noteq> r"
    and "g r' = g r \<Longrightarrow> map g (w_rules w') = map g (w_rules w)"
    and "dels j (w_deliveries w') = (if j = r_id r then ds' else dels j (w_deliveries w))"
    and "w_notes w' = w_notes w"
proof -
  have ids: "distinct (map d_id (w_deliveries w))" "distinct (map r_id (w_rules w))"
    using assms(1) by (simp_all add: reminder_rows_wf_def)
  have cyc: "distinct (map d_cycle_number (dels (r_id r) (w_deliveries w)))"
    using assms(3) by (simp add: rule_pre_def cycles_ok_def)
  have key: "r_id r' = r_id r" using reconcile_local_ok(2) [OF assms(3) loc] by simp
  have rules: "w_rules w' = update_where (\<lambda>x. r_id x = r_id r) (\<lambda>_. r') (w_rules w)"
    using reconcile_rule_rules [OF ids assms(2), of env n wanted sc now] loc
    unfolding w'_def by (metis fst_conv)
  show "x \<in> set (w_rules w') \<longleftrightarrow> x = r' \<or> x \<in> set (w_rules w) \<and> x \<noteq> r"
    unfolding rules by (rule updated_rules(1) [OF ids(2) assms(2) key])
  show "map g (w_rules w') = map g (w_rules w)" if "g r' = g r"
    unfolding rules by (rule updated_rules(2) [OF ids(2) assms(2) key that])
  show "dels j (w_deliveries w') = (if j = r_id r then ds' else dels j (w_deliveries w))"
    using reconcile_rule_dels [OF ids(1) cyc, of j env n wanted sc now] loc by (simp add: w'_def)
  show "w_notes w' = w_notes w"
    unfolding w'_def by (rule same_but_reminders_fields [OF reconcile_rule_frame])
qed

lemma reconcile_rule_rows_wf:
  assumes wf: "reminder_rows_wf w" and r: "r \<in> set (w_rules w)"
    and pre: "rule_pre sc n r (dels (r_id r) (w_deliveries w))" and F: "fresh env w"
  shows "reminder_rows_wf (reconcile_rule env n wanted sc now r w)" (is "reminder_rows_wf ?w")
proof -
  obtain r' ds' where loc: "reconcile_local (uuid4 env (draws w)) n wanted sc now
      (r, dels (r_id r) (w_deliveries w)) = (r', ds')" by (meson surj_pair)
  note eff = reconcile_rule_effect [OF wf r pre loc]
  have ids: "distinct (map d_id (w_deliveries w))" "distinct (map r_id (w_rules w))"
    "distinct (map n_id (w_notes w))"
    using wf by (simp_all add: reminder_rows_wf_def)
  have key: "r_id r' = r_id r" "r_note_id r' = r_note_id r" "r_offset_minutes r' = r_offset_minutes r"
    using reconcile_local_ok(2) [OF pre loc] by simp_all
  have in_dels: "d \<in> set (if d_reminder_rule_id d = r_id r then ds'
      else dels (d_reminder_rule_id d) (w_deliveries w))" if "d \<in> set (w_deliveries ?w)" for d
    using that set_dels [of d "d_reminder_rule_id d" "w_deliveries ?w"] by (simp only: eff(3))
  have shape: "\<forall>d \<in> set ds'. delivery_shape d"
    by (rule reconcile_local_shape [OF loc]) (use wf in \<open>simp add: reminder_rows_wf_def\<close>)
  show ?thesis
    unfolding reminder_rows_wf_def eff(4)
  proof (intro conjI ballI)
    show "distinct (map n_id (w_notes w))" by (rule ids)
    show "distinct (map r_id (w_rules ?w))" using ids(2) eff(2) [of r_id, OF key(1)] by simp
    show "distinct (map (\<lambda>r. (r_note_id r, r_offset_minutes r)) (w_rules ?w))"
      using wf eff(2) [of "\<lambda>r. (r_note_id r, r_offset_minutes r)"] key
      by (simp add: reminder_rows_wf_def)
    show "distinct (map d_id (w_deliveries ?w))"
      using ids(1) draw_fresh [OF F] by (auto simp: reconcile_rule_ids(1) [OF ids(1)] used_ids_def)
  next
    fix x assume "x \<in> set (w_rules ?w)"
    then show "r_note_id x \<in> n_id ` set (w_notes w)"
      using wf r key(2) by (auto simp: eff(1) reminder_rows_wf_def)
  next
    fix d assume d: "d \<in> set (w_deliveries ?w)"
    have "r_id ` set (w_rules ?w) = r_id ` set (w_rules w)"
      using arg_cong [OF eff(2) [of r_id, OF key(1)], of set] by (simp only: list.set_map)
    with in_dels [OF d] wf r show "d_reminder_rule_id d \<in> r_id ` set (w_rules ?w)"
      by (auto simp: reminder_rows_wf_def split: if_splits)
    from in_dels [OF d] wf shape show "delivery_shape d"
      by (auto simp: reminder_rows_wf_def split: if_splits)
  qed
qed

lemma reconciling_step:
  assumes R: "reconciling wanted sc n (r # rs) w" and F: "fresh env w"
  shows "reconciling wanted sc n rs (reconcile_rule env n wanted sc now r w)" (is "reconciling _ _ _ _ ?w")
proof -
  obtain r' ds' where loc: "reconcile_local (uuid4 env (draws w)) n wanted sc now
      (r, dels (r_id r) (w_deliveries w)) = (r', ds')" by (meson surj_pair)
  have wf: "reminder_rows_wf w" and r: "r \<in> set (w_rules w)" "r_note_id r = n_id n" "r \<notin> set rs"
    and n: "n \<in> set (w_notes w)" and rs: "set rs \<subseteq> set (w_rules w)" "distinct rs"
    and pre: "rule_pre sc n r (dels (r_id r) (w_deliveries w))"
    and pre': "\<And>x. x \<in> set rs \<Longrightarrow> r_note_id x = n_id n \<and> rule_pre sc n x (dels (r_id x) (w_deliveries w))"
    and ok: "\<And>m x. m \<in> set (w_notes w) \<Longrightarrow> x \<in> set (w_rules w) \<Longrightarrow> x \<notin> set (r # rs) \<Longrightarrow>
        r_note_id x = n_id m \<Longrightarrow> rule_state w m x"
    and en: "\<And>x. x \<in> set (w_rules w) \<Longrightarrow> x \<notin> set (r # rs) \<Longrightarrow> r_note_id x = n_id n \<Longrightarrow>
        (r_enabled x \<longleftrightarrow> r_offset_minutes x \<in> set wanted)"
    using R by (auto simp: reconciling_def)
  note eff = reconcile_rule_effect [OF wf r(1) pre loc]
  note ok' = reconcile_local_ok [OF pre loc]
  have ids: "distinct (map r_id (w_rules w))" "distinct (map n_id (w_notes w))"
    using wf by (simp_all add: reminder_rows_wf_def)
  have other: "r_id x \<noteq> r_id r" if "x \<in> set (w_rules w)" "x \<noteq> r" for x
    using distinct_map_eqD [OF ids(1) that(1) r(1)] that(2) by blast
  have done_or_old: "x = r' \<or> x \<in> set (w_rules w) \<and> x \<noteq> r \<and> x \<notin> set (r # rs)"
    if "x \<in> set (w_rules ?w) - set rs" for x
    using that eff(1) by auto
  have "rule_state ?w m x"
    if m: "m \<in> set (w_notes w)" and x: "x \<in> set (w_rules ?w) - set rs" "r_note_id x = n_id m" for m x
    using done_or_old [OF x(1)]
  proof
    assume "x = r'"
    moreover from this have "m = n"
      using x(2) ok'(2) r(2) distinct_map_eqD [OF ids(2) m n] by simp
    ultimately show ?thesis using ok'(1,2) by (simp add: rule_state_def eff(3))
  next
    assume "x \<in> set (w_rules w) \<and> x \<noteq> r \<and> x \<notin> set (r # rs)"
    then show ?thesis using ok [OF m _ _ x(2)] other by (simp add: rule_state_def eff(3))
  qed
  moreover have "r_enabled x \<longleftrightarrow> r_offset_minutes x \<in> set wanted"
    if "x \<in> set (w_rules ?w) - set rs" "r_note_id x = n_id n" for x
    using done_or_old [OF that(1)] ok'(2,3) en [OF _ _ that(2)] by auto
  moreover have "rule_pre sc n x (dels (r_id x) (w_deliveries ?w))" "x \<in> set (w_rules ?w)"
    if "x \<in> set rs" for x
    using that r(3) rs(1) pre' [OF that] other [of x] by (auto simp: eff(1,3))
  ultimately show ?thesis
    unfolding reconciling_def eff(4)
    using reconcile_rule_rows_wf [OF wf r(1) pre F] n rs(2) pre' by auto
qed

text \<open>A rule added for an offset that has none.\<close>

definition rule_offsets :: "world \<Rightarrow> uuid \<Rightarrow> int set" where
  "rule_offsets w i = r_offset_minutes ` {r \<in> set (w_rules w). r_note_id r = i}"

definition first_rule :: "uuid \<Rightarrow> note_row \<Rightarrow> int \<Rightarrow> reminder_rule" where
  "first_rule i n m = \<lparr>r_id = i, r_note_id = n_id n, r_offset_minutes = m, r_enabled = True,
     r_current_cycle_number = 1\<rparr>"

lemma add_rule_rows:
  "w_rules (add_rule env n now m w) = w_rules w @ [first_rule (uuid4 env (draws w)) n m]"
  "w_deliveries (add_rule env n now m w) = w_deliveries w @
     [fresh_delivery (uuid4 env (Suc (draws w))) n (first_rule (uuid4 env (draws w)) n m) now]"
  "draws (add_rule env n now m w) = Suc (Suc (draws w))"
  "w_notes (add_rule env n now m w) = w_notes w"
  by (simp_all add: add_rule_def new_delivery_def new_uuid_def fresh_delivery_def first_rule_def Let_def)

lemma add_rule_grows: "grows env w (add_rule env n now m w)"
  using same_but_reminders_fields [OF add_rule_frame [of w env n now m]]
  unfolding grows_def used_ids_def
  by (auto simp: add_rule_rows first_rule_def)

lemma first_rule_ok:
  "rule_ok n (first_rule i n m) [fresh_delivery j n (first_rule i n m) now]"
  by (auto simp: rule_ok_def cycles_ok_def due_ok_def open_ok_def first_rule_def)

lemma add_rule_step:
  assumes R: "reconciling wanted sc n [] w" and F: "fresh env w"
    and m: "m \<in> set wanted" "m \<notin> rule_offsets w (n_id n)"
  shows "reconciling wanted sc n [] (add_rule env n now m w)" (is "reconciling _ _ _ _ ?w")
proof -
  let ?r = "first_rule (uuid4 env (draws w)) n m"
  have wf: "reminder_rows_wf w" and n: "n \<in> set (w_notes w)"
    using R by (simp_all add: reconciling_def)
  have new: "uuid4 env (draws w) \<notin> r_id ` set (w_rules w)"
    "uuid4 env (Suc (draws w)) \<notin> d_id ` set (w_deliveries w)"
    using F by (auto simp: fresh_def used_ids_def)
  have id: "r_id ?r = uuid4 env (draws w)" "r_note_id ?r = n_id n" "r_offset_minutes ?r = m" "r_enabled ?r"
    by (simp_all add: first_rule_def)
  have "d_reminder_rule_id d \<noteq> r_id ?r" if "d \<in> set (w_deliveries w)" for d
    using wf new(1) that unfolding id reminder_rows_wf_def by metis
  then have no_dels: "dels (r_id ?r) (w_deliveries w) = []"
    by (simp add: dels_def filter_empty_conv)
  have no_pair: "(n_id n, m) \<notin> (\<lambda>r. (r_note_id r, r_offset_minutes r)) ` set (w_rules w)"
    using m(2) by (auto simp: rule_offsets_def)
  have rows: "reminder_rows_wf ?w"
    using wf new n no_pair unfolding reminder_rows_wf_def add_rule_rows by (simp add: id)
  have st: "rule_state ?w k x \<longleftrightarrow> rule_state w k x" if "x \<in> set (w_rules w)" for k x
  proof -
    have "r_id x \<noteq> r_id ?r" using new(1) that id(1) by (metis image_eqI)
    then show ?thesis by (simp add: rule_state_def add_rule_rows)
  qed
  have "rule_state ?w k ?r" if "k \<in> set (w_notes w)" "n_id k = n_id n" for k
  proof -
    have "k = n" using wf that n distinct_map_eqD [of n_id "w_notes w" k n] by (simp add: reminder_rows_wf_def)
    then show ?thesis
      using first_rule_ok by (simp add: rule_state_def add_rule_rows no_dels)
  qed
  then show ?thesis
    using R rows st m(1) id unfolding reconciling_def by (auto simp: add_rule_rows)
qed

lemma rule_offsets_add_rule: "rule_offsets (add_rule env n now m w) (n_id n) = insert m (rule_offsets w (n_id n))"
proof -
  have "{r \<in> set (w_rules (add_rule env n now m w)). r_note_id r = n_id n} =
      insert (first_rule (uuid4 env (draws w)) n m) {r \<in> set (w_rules w). r_note_id r = n_id n}"
    by (auto simp: add_rule_rows first_rule_def)
  then show ?thesis unfolding rule_offsets_def by (simp add: first_rule_def)
qed

text \<open>The two loops.\<close>

lemma rules_loop:
  assumes "reconciling wanted sc n rs w" "fresh env w"
    and "fold (reconcile_rule env n wanted sc now) rs w = w'"
  shows "reconciling wanted sc n [] w' \<and> grows env w w' \<and> rule_offsets w' (n_id n) = rule_offsets w (n_id n)"
  using assms
proof (induction rs arbitrary: w)
  case (Cons r rs)
  let ?w = "reconcile_rule env n wanted sc now r w"
  have wf: "reminder_rows_wf w" and r: "r \<in> set (w_rules w)" "r_note_id r = n_id n"
    and pre: "rule_pre sc n r (dels (r_id r) (w_deliveries w))"
    using Cons.prems(1) by (simp_all add: reconciling_def)
  obtain r' ds' where loc: "reconcile_local (uuid4 env (draws w)) n wanted sc now
      (r, dels (r_id r) (w_deliveries w)) = (r', ds')" by (meson surj_pair)
  have "grows env w ?w"
    using wf r(1) by (intro reconcile_rule_grows) (simp_all add: reminder_rows_wf_def)
  moreover have "rule_offsets ?w (n_id n) = rule_offsets w (n_id n)"
  proof -
    have "{x \<in> set (w_rules ?w). r_note_id x = n_id n} =
        insert r' ({x \<in> set (w_rules w). r_note_id x = n_id n} - {r})"
      using reconcile_rule_effect(1) [OF wf r(1) pre loc] reconcile_local_ok(2) [OF pre loc] r(2) by auto
    moreover have "r \<in> {x \<in> set (w_rules w). r_note_id x = n_id n}" using r by simp
    ultimately show ?thesis
      unfolding rule_offsets_def using reconcile_local_ok(2) [OF pre loc]
      by (metis (no_types, lifting) image_insert insert_Diff)
  qed
  ultimately show ?case
    using Cons.IH [OF reconciling_step [OF Cons.prems(1,2)] fresh_grows [OF Cons.prems(2)]] Cons.prems(3)
      grows_trans [of env w ?w w'] by simp
qed simp

lemma offsets_loop:
  assumes "reconciling wanted sc n [] w" "fresh env w" "set ms \<subseteq> set wanted" "distinct ms"
    and "set ms \<inter> rule_offsets w (n_id n) = {}"
    and "fold (add_rule env n now) ms w = w'"
  shows "reconciling wanted sc n [] w' \<and> grows env w w'
    \<and> rule_offsets w' (n_id n) = set ms \<union> rule_offsets w (n_id n)"
  using assms
proof (induction ms arbitrary: w)
  case (Cons m ms)
  let ?w = "add_rule env n now m w"
  have "reconciling wanted sc n [] ?w" using Cons.prems by (intro add_rule_step) simp_all
  from Cons.IH [OF this fresh_grows [OF Cons.prems(2) add_rule_grows]] Cons.prems
  show ?case using grows_trans [OF add_rule_grows [of env w n now m], of w'] by (auto simp: rule_offsets_add_rule)
qed simp

text \<open>What has been sent, has failed or was missed is history: no reconciliation touches it.\<close>

definition settled :: "reminder_delivery \<Rightarrow> bool" where
  "settled d \<longleftrightarrow> d_state d \<notin> {Pending, Claimed, Cancelled}"

lemma settled_on_cycle:
  assumes "settled d" "d \<in> set ds" "\<And>x. settled x \<Longrightarrow> f x = x"
  shows "d \<in> set (on_cycle c f ds)"
  using assms by (auto intro!: bexI [of _ d])

lemma settled_fixed:
  "settled d \<Longrightarrow> cancel_if_open now d = d"
  "settled d \<Longrightarrow> settle_delivery n r now d = d"
  by (auto simp: settled_def cancel_if_open_def open_delivery_def settle_delivery_def)

lemma reconcile_local_settled:
  assumes "reconcile_local i n wanted sc now (r, ds) = (r', ds')" "settled d" "d \<in> set ds"
  shows "d \<in> set ds'"
  using assms(1)
proof (cases rule: reconcile_local_cases)
  case unwanted
  show ?thesis unfolding unwanted by (rule settled_on_cycle [OF assms(2,3) settled_fixed(1)])
next
  case cycle
  have "d \<in> set (on_cycle (r_current_cycle_number r) (cancel_if_open now) ds)"
    by (rule settled_on_cycle [OF assms(2,3) settled_fixed(1)])
  then show ?thesis unfolding cycle by (simp del: set_on_cycle)
next
  case kept
  show ?thesis unfolding kept by (rule settled_on_cycle [OF assms(2,3) settled_fixed(2)])
qed

lemma rules_loop_settled:
  assumes "reconciling wanted sc n rs w" "fresh env w" "settled d" "d \<in> set (w_deliveries w)"
  shows "d \<in> set (w_deliveries (fold (reconcile_rule env n wanted sc now) rs w))"
  using assms
proof (induction rs arbitrary: w)
  case (Cons r rs)
  let ?w = "reconcile_rule env n wanted sc now r w"
  have wf: "reminder_rows_wf w" and r: "r \<in> set (w_rules w)"
    and pre: "rule_pre sc n r (dels (r_id r) (w_deliveries w))"
    using Cons.prems(1) by (simp_all add: reconciling_def)
  obtain r' ds' where loc: "reconcile_local (uuid4 env (draws w)) n wanted sc now
      (r, dels (r_id r) (w_deliveries w)) = (r', ds')" by (meson surj_pair)
  have "d \<in> set (dels (d_reminder_rule_id d) (w_deliveries ?w))"
    unfolding reconcile_rule_effect(3) [OF wf r pre loc]
    using reconcile_local_settled [OF loc Cons.prems(3)] Cons.prems(4) by simp
  then have "d \<in> set (w_deliveries ?w)" by simp
  moreover have "grows env w ?w"
    using wf r by (intro reconcile_rule_grows) (simp_all add: reminder_rows_wf_def)
  ultimately show ?case
    using Cons.IH [OF reconciling_step [OF Cons.prems(1,2)] fresh_grows [OF Cons.prems(2)]] Cons.prems(3)
    by simp
qed simp

lemma offsets_loop_deliveries:
  "set (w_deliveries w) \<subseteq> set (w_deliveries (fold (add_rule env n now) ms w))"
  by (rule fold_invariant_set) (auto simp: add_rule_rows)

subsection \<open>The whole operation\<close>

lemma rules_of_set:
  assumes "distinct (map r_id (w_rules w))"
  shows "set (rules_of w i) = {r \<in> set (w_rules w). r_note_id r = i}" "distinct (rules_of w i)"
  using assms by (auto simp: rules_of_def distinct_map)

lemma reconcile_ok:
  assumes wf: "reminder_rows_wf w" and n: "n \<in> set (w_notes w)" and F: "fresh env w"
    and pre: "\<And>r. r \<in> set (w_rules w) \<Longrightarrow> r_note_id r = n_id n \<Longrightarrow>
        rule_pre sc n r (dels (r_id r) (w_deliveries w))"
    and ok: "\<And>m r. m \<in> set (w_notes w) \<Longrightarrow> m \<noteq> n \<Longrightarrow> r \<in> set (w_rules w) \<Longrightarrow>
        r_note_id r = n_id m \<Longrightarrow> rule_state w m r"
    and w': "reconcile_reminders env n offsets sc now w = w'"
  shows "reminders_ok w'" "set (enabled_offsets w' (n_id n)) = set offsets" "grows env w w'" "fresh env w'"
    and "settled d \<Longrightarrow> d \<in> set (w_deliveries w) \<Longrightarrow> d \<in> set (w_deliveries w')"
proof -
  let ?rs = "rules_of w (n_id n)"
  let ?ms = "sort (filter (\<lambda>m. m \<notin> r_offset_minutes ` set ?rs) (remdups offsets))"
  let ?u = "fold (reconcile_rule env n offsets sc now) ?rs w"
  have rs: "set ?rs = {r \<in> set (w_rules w). r_note_id r = n_id n}" "distinct ?rs"
    using rules_of_set wf by (auto simp: reminder_rows_wf_def)
  have "rule_state w m r"
    if "m \<in> set (w_notes w)" "r \<in> set (w_rules w) - set ?rs" "r_note_id r = n_id m" for m r
    using that ok [of m r] rs(1) by auto
  moreover have "r \<in> set ?rs" if "r \<in> set (w_rules w)" "r_note_id r = n_id n" for r
    using that rs(1) by simp
  ultimately have start: "reconciling offsets sc n ?rs w"
    unfolding reconciling_def using wf n rs pre by auto
  from rules_loop [OF this F refl] have u: "reconciling offsets sc n [] ?u" "grows env w ?u"
    "rule_offsets ?u (n_id n) = r_offset_minutes ` set ?rs"
    by (simp_all add: rule_offsets_def rs)
  have "reconciling offsets sc n [] w' \<and> grows env ?u w'
      \<and> rule_offsets w' (n_id n) = set ?ms \<union> rule_offsets ?u (n_id n)"
    by (rule offsets_loop [OF u(1) fresh_grows [OF F u(2)], of ?ms])
      (use w' u(3) in \<open>auto simp: reconcile_reminders_def Let_def\<close>)
  then have v: "reconciling offsets sc n [] w'" "grows env ?u w'"
    "rule_offsets w' (n_id n) = set ?ms \<union> r_offset_minutes ` set ?rs"
    using u(3) by simp_all
  show "reminders_ok w'" using v(1) by (simp add: reconciling_def reminders_ok_def)
  show "grows env w w'" by (rule grows_trans [OF u(2) v(2)])
  show "fresh env w'" by (rule fresh_grows [OF F \<open>grows env w w'\<close>])
  show "d \<in> set (w_deliveries w')" if "settled d" "d \<in> set (w_deliveries w)"
    using rules_loop_settled [OF start F that, of now] offsets_loop_deliveries [of ?u env n now ?ms] w'
    by (auto simp: reconcile_reminders_def Let_def)
  show "set (enabled_offsets w' (n_id n)) = set offsets"
  proof -
    have "r_enabled r \<longleftrightarrow> r_offset_minutes r \<in> set offsets"
      if "r \<in> set (w_rules w')" "r_note_id r = n_id n" for r
      using v(1) that by (simp add: reconciling_def)
    then have "set (enabled_offsets w' (n_id n)) = rule_offsets w' (n_id n) \<inter> set offsets"
      by (auto simp: enabled_offsets_def rule_offsets_def)
    then show ?thesis unfolding v(3) by auto
  qed
qed

text \<open>A handler changes one note and reconciles its reminders.\<close>

lemma save_note_rows [row_simps]:
  "w_rules (save_note i f w) = w_rules w" "w_deliveries (save_note i f w) = w_deliveries w"
  "w_tags (save_note i f w) = w_tags w" "w_series (save_note i f w) = w_series w"
  "w_actions (save_note i f w) = w_actions w" "w_exceptions (save_note i f w) = w_exceptions w"
  "w_notifications (save_note i f w) = w_notifications w" "w_outbox (save_note i f w) = w_outbox w"
  "draws (save_note i f w) = draws w" "ticks (save_note i f w) = ticks w"
  "w_note_tags (save_note i f w) = w_note_tags w"
  by (simp_all add: save_note_def)

text \<open>
  The row of one note changes, and then its reminders are reconciled; tables other than those of
  rules and deliveries may change in between.
\<close>

lemma change_reconcile_ok:
  assumes inv: "reminders_ok w" and F: "fresh env w1" and n: "n \<in> set (w_notes w)"
    and id: "n_id n' = n_id n" and sc: "n_starts_at n' = n_starts_at n \<or> sc"
    and rows: "w_notes w1 = update_where (\<lambda>m. n_id m = n_id n) (\<lambda>m. n') (w_notes w)"
    and same: "w_rules w1 = w_rules w" "w_deliveries w1 = w_deliveries w"
    and w': "reconcile_reminders env n' offsets sc now w1 = w'"
  shows "reminders_ok w'" "set (enabled_offsets w' (n_id n)) = set offsets" "grows env w1 w'" "fresh env w'"
    and "settled d \<Longrightarrow> d \<in> set (w_deliveries w) \<Longrightarrow> d \<in> set (w_deliveries w')"
proof -
  have dist: "distinct (map n_id (w_notes w))" using inv by (simp add: reminders_ok_def reminder_rows_wf_def)
  have ids: "map n_id (w_notes w1) = map n_id (w_notes w)"
    using id unfolding rows update_where_def by auto
  then have img: "n_id ` set (w_notes w1) = n_id ` set (w_notes w)" by (metis list.set_map)
  have wf: "reminder_rows_wf w1"
    using inv unfolding reminders_ok_def reminder_rows_wf_def ids img same by simp
  have mem: "n' \<in> set (w_notes w1)" using n unfolding rows by (auto simp: row_simps)
  have others: "m \<in> set (w_notes w)" if "m \<in> set (w_notes w1)" "m \<noteq> n'" for m
    using that unfolding rows by (auto simp: row_simps split: if_splits)
  have st: "rule_state w1 m r = rule_state w m r" for m r by (simp add: rule_state_def same)
  have pre: "rule_pre sc n' r (dels (r_id r) (w_deliveries w1))"
    if "r \<in> set (w_rules w1)" "r_note_id r = n_id n'" for r
  proof -
    have "rule_ok n r (dels (r_id r) (w_deliveries w))"
      using inv n that id by (simp add: reminders_ok_def rule_state_def same)
    then show ?thesis unfolding same by (rule rule_ok_pre) (use sc in simp)
  qed
  have ok: "rule_state w1 m r"
    if "m \<in> set (w_notes w1)" "m \<noteq> n'" "r \<in> set (w_rules w1)" "r_note_id r = n_id m" for m r
    using inv others [OF that(1,2)] that(3,4) unfolding st same by (simp add: reminders_ok_def)
  show "reminders_ok w'" "set (enabled_offsets w' (n_id n)) = set offsets" "grows env w1 w'" "fresh env w'"
    and "settled d \<Longrightarrow> d \<in> set (w_deliveries w) \<Longrightarrow> d \<in> set (w_deliveries w')"
    using reconcile_ok [OF wf mem F, of sc offsets now w'] pre ok w' id same by auto
qed

lemma save_note_on_row:
  assumes "distinct (map n_id (w_notes w))" "n \<in> set (w_notes w)"
  shows "w_notes (save_note (n_id n) f w) =
    update_where (\<lambda>m. n_id m = n_id n) (\<lambda>m. (f n)\<lparr>n_version := n_version n + 1\<rparr>) (w_notes w)"
  using assms distinct_map_eqD [OF assms(1) _ assms(2)] by (auto simp: save_note_def update_where_def)

lemma save_note_used_ids: "(\<And>m. n_id (f m) = n_id m) \<Longrightarrow> used_ids (save_note i f w) = used_ids w"
proof -
  assume id: "\<And>m. n_id (f m) = n_id m"
  have "map n_id (w_notes (save_note i f w)) = map n_id (w_notes w)" by (simp add: save_note_def id)
  then have "n_id ` set (w_notes (save_note i f w)) = n_id ` set (w_notes w)" by (metis list.set_map)
  then show ?thesis by (simp add: used_ids_def row_simps)
qed

lemma save_note_reconcile_ok:
  assumes inv: "reminders_ok w" and F: "fresh env w" and n: "n \<in> set (w_notes w)"
    and id: "\<And>m. n_id (f m) = n_id m" and sc: "n_starts_at (f n) = n_starts_at n \<or> sc"
    and w': "reconcile_reminders env ((f n)\<lparr>n_version := n_version n + 1\<rparr>) offsets sc now
      (save_note (n_id n) f w) = w'"
  shows "reminders_ok w'" "set (enabled_offsets w' (n_id n)) = set offsets" "fresh env w'"
    and "settled d \<Longrightarrow> d \<in> set (w_deliveries w) \<Longrightarrow> d \<in> set (w_deliveries w')"
proof -
  have dist: "distinct (map n_id (w_notes w))" using inv by (simp add: reminders_ok_def reminder_rows_wf_def)
  have F': "fresh env (save_note (n_id n) f w)"
    using F unfolding fresh_def save_note_used_ids [of f, OF id] by (simp add: row_simps)
  show "reminders_ok w'" "set (enabled_offsets w' (n_id n)) = set offsets" "fresh env w'"
    and "settled d \<Longrightarrow> d \<in> set (w_deliveries w) \<Longrightarrow> d \<in> set (w_deliveries w')"
    using change_reconcile_ok [OF inv F' n _ _ save_note_on_row [OF dist n] _ _ w'] id sc
    by (simp_all add: row_simps)
qed

text \<open>A note is added and its reminders are made.\<close>

lemma add_note_reconcile_ok:
  assumes inv: "reminders_ok w" and F: "fresh env w1" and n: "n_id n \<notin> n_id ` set (w_notes w)"
    and rows: "w_notes w1 = w_notes w @ [n]"
    and same: "w_rules w1 = w_rules w" "w_deliveries w1 = w_deliveries w"
    and w': "reconcile_reminders env n offsets sc now w1 = w'"
  shows "reminders_ok w'" "set (enabled_offsets w' (n_id n)) = set offsets" "grows env w1 w'" "fresh env w'"
    and "settled d \<Longrightarrow> d \<in> set (w_deliveries w) \<Longrightarrow> d \<in> set (w_deliveries w')"
proof -
  have wf: "reminder_rows_wf w1"
    using inv n unfolding reminders_ok_def reminder_rows_wf_def same rows by auto
  have mem: "n \<in> set (w_notes w1)" by (simp add: rows)
  have none: "r_note_id r \<noteq> n_id n" if "r \<in> set (w_rules w1)" for r
    using inv n that unfolding reminders_ok_def reminder_rows_wf_def same by metis
  have ok: "rule_state w1 m r"
    if "m \<in> set (w_notes w1)" "m \<noteq> n" "r \<in> set (w_rules w1)" "r_note_id r = n_id m" for m r
    using inv that unfolding reminders_ok_def rule_state_def same rows by auto
  show "reminders_ok w'" "set (enabled_offsets w' (n_id n)) = set offsets" "grows env w1 w'" "fresh env w'"
    and "settled d \<Longrightarrow> d \<in> set (w_deliveries w) \<Longrightarrow> d \<in> set (w_deliveries w')"
    using reconcile_ok [OF wf mem F, of sc offsets now w'] none ok w' same by auto
qed

subsection \<open>A concrete instance\<close>

definition sample_note :: note_row where
  "sample_note = \<lparr>n_id = 1, n_title = ''Call'', n_body = [], n_starts_at = minutes 120, n_active = True,
     n_deleted_at = None, n_superseded_at = None, n_series_trashed_at = None, n_purged_at = None,
     n_series_id = None, n_recurrence_key = None, n_trash_action_id = None, n_created_at = 0,
     n_updated_at = 0, n_version = 1\<rparr>"

definition sample_rule :: reminder_rule where
  "sample_rule = \<lparr>r_id = 2, r_note_id = 1, r_offset_minutes = 10, r_enabled = True,
     r_current_cycle_number = 1\<rparr>"

definition sample_delivery :: reminder_delivery where
  "sample_delivery = \<lparr>d_id = 3, d_reminder_rule_id = 2, d_cycle_number = 1, d_due_at = minutes 110,
     d_state = Pending, d_claim_token = None, d_claim_expires_at = None, d_authorized_at = None,
     d_recipient_snapshot = None, d_content_snapshot = None, d_result_at = None, d_error_code = None\<rparr>"

definition sample_settings :: user_settings where
  "sample_settings = \<lparr>us_id = 1, us_email = ''demo@example.test'', us_timezone = ''UTC'',
     us_updated_at = 0, us_version = 1\<rparr>"

definition sample_world :: world where
  "sample_world = empty_world\<lparr>w_settings := [sample_settings], w_notes := [sample_note],
     w_rules := [sample_rule], w_deliveries := [sample_delivery]\<rparr>"

lemmas sample_defs = sample_world_def sample_note_def sample_rule_def sample_delivery_def
  sample_settings_def empty_world_def

lemma sample_reminders_ok: "reminders_ok sample_world"
  by (simp add: reminders_ok_def reminder_rows_wf_def rule_state_def rule_ok_def cycles_ok_def due_ok_def
      open_ok_def sample_defs shape_simps live_note_def due_at_def minutes_def seconds_def)

lemma sample_fresh: "fresh sample_env sample_world"
  by (simp add: fresh_def used_ids_def sample_defs sample_env_def inj_def)

text \<open>
  C6: whatever a handler changes of a note, reconciling its reminders afterwards restores the
  invariant of all reminders (an open delivery belongs to the current cycle of an enabled rule
  of a live note and is due at the note's start less the offset; rows satisfy their keys and
  CHECK constraints), enables exactly the requested offsets, and leaves every delivery that was
  attempted or missed as it was. A changed start needs \<open>schedule_changed\<close>.
\<close>

theorem reconcile_keeps_reminders:
  assumes "reminders_ok w" "fresh env w" "n \<in> set (w_notes w)" "\<And>m. n_id (f m) = n_id m"
    and "n_starts_at (f n) = n_starts_at n \<or> schedule_changed"
  shows "let w' = reconcile_reminders env ((f n)\<lparr>n_version := n_version n + 1\<rparr>) offsets
        schedule_changed now (save_note (n_id n) f w)
    in reminders_ok w' \<and> set (enabled_offsets w' (n_id n)) = set offsets \<and> fresh env w'
       \<and> (\<forall>d \<in> set (w_deliveries w). settled d \<longrightarrow> d \<in> set (w_deliveries w'))"
  unfolding Let_def using save_note_reconcile_ok [OF assms refl] by blast

theorem reconcile_keeps_reminders_witness:
  "let w' = reconcile_reminders sample_env (sample_note\<lparr>n_starts_at := minutes 300, n_version := 2\<rparr>)
       [60, 1440] True 5 (save_note 1 (\<lambda>n. n\<lparr>n_starts_at := minutes 300\<rparr>) sample_world)
   in reminders_ok w' \<and> set (enabled_offsets w' 1) = {60, 1440}"
proof -
  have n: "sample_note \<in> set (w_notes sample_world)" "n_id sample_note = 1" "n_version sample_note = 1"
    by (simp_all add: sample_defs)
  show ?thesis
    using reconcile_keeps_reminders [OF sample_reminders_ok sample_fresh n(1),
        of "\<lambda>n. n\<lparr>n_starts_at := minutes 300\<rparr>" True "[60, 1440]" 5]
    by (simp add: n Let_def)
qed

end
