(* ===== verification/Senders.thy ===== *)
theory Senders
  imports Common
begin

section \<open>Mail (app/email/senders.py)\<close>

text \<open>
  An email, the transcript of the SMTP session that sends it, and the test adapter. A server is
  a function that says of each command whether it fails, and how; the session stops at the first
  failure. Setting a header to a value of more than one line raises, before any connection.
\<close>

record email =
  em_recipient :: string
  em_subject :: string
  em_body :: string
  em_message_id :: string

text \<open>What a send may raise, as far as the caller distinguishes it.\<close>

datatype send_exn = TimeoutExn | ServerDisconnected | OtherExn string

record email_message =
  mm_headers :: "(string \<times> string) list"
  mm_content :: string

datatype smtp_command =
  SmtpConnect string int int
| SmtpStartTls
| SmtpLogin string string
| SmtpSendMessage email_message

record smtp_sender_config =
  smtp_host :: string
  smtp_port :: int
  smtp_from :: string
  smtp_username :: string
  smtp_password :: string
  smtp_starttls :: bool
  smtp_timeout :: int

type_synonym server = "smtp_command \<Rightarrow> send_exn option"

text \<open>\<open>len(value.splitlines()) > 1\<close>: a line break followed by something.\<close>

definition line_break :: "char \<Rightarrow> bool" where
  "line_break c \<longleftrightarrow> code_point c \<in> {10, 11, 12, 13, 28, 29, 30, 133}"

definition several_lines :: "string \<Rightarrow> bool" where
  "several_lines s =
     (case dropWhile (\<lambda>c. \<not> line_break c) s of
        [] \<Rightarrow> False
      | c # cs \<Rightarrow> (case cs of
          [] \<Rightarrow> False
        | c' # cs' \<Rightarrow> \<not> (code_point c = 13 \<and> code_point c' = 10 \<and> cs' = [])))"

fun set_headers :: "(string \<times> string) list \<Rightarrow> send_exn + (string \<times> string) list" where
  "set_headers [] = Inr []"
| "set_headers ((name, v) # hs) =
     (if several_lines v
      then Inl (OtherExn ''Header values may not contain linefeed or carriage return characters'')
      else try_then (set_headers hs) (\<lambda>rest. Inr ((name, v) # rest)))"

definition build_message :: "smtp_sender_config \<Rightarrow> email \<Rightarrow> send_exn + email_message" where
  "build_message cfg email =
     try_then (set_headers [(''From'', smtp_from cfg), (''To'', em_recipient email),
         (''Subject'', em_subject email), (''Message-ID'', em_message_id email)])
       (\<lambda>headers. Inr \<lparr>mm_headers = headers, mm_content = em_body email\<rparr>)"

definition smtp_script :: "smtp_sender_config \<Rightarrow> email_message \<Rightarrow> smtp_command list" where
  "smtp_script cfg msg =
     [SmtpConnect (smtp_host cfg) (smtp_port cfg) (smtp_timeout cfg)]
     @ (if smtp_starttls cfg then [SmtpStartTls] else [])
     @ (if smtp_username cfg \<noteq> [] then [SmtpLogin (smtp_username cfg) (smtp_password cfg)] else [])
     @ [SmtpSendMessage msg]"

text \<open>The commands issued, and the exception of the last of them if it failed.\<close>

fun run_script :: "server \<Rightarrow> smtp_command list \<Rightarrow> smtp_command list \<times> send_exn option" where
  "run_script server [] = ([], None)"
| "run_script server (c # cs) =
     (case server c of
        Some e \<Rightarrow> ([c], Some e)
      | None \<Rightarrow> (let (issued, r) = run_script server cs in (c # issued, r)))"

definition smtp_send :: "smtp_sender_config \<Rightarrow> server \<Rightarrow> email \<Rightarrow> smtp_command list \<times> send_exn option" where
  "smtp_send cfg server email =
     (case build_message cfg email of
        Inl e \<Rightarrow> ([], Some e)
      | Inr msg \<Rightarrow> run_script server (smtp_script cfg msg))"

text \<open>The test adapter: it records the message, then raises what it was told to.\<close>

record fake_sender =
  fk_messages :: "email list"
  fk_error :: "send_exn option"

definition fake_send :: "email \<Rightarrow> fake_sender \<Rightarrow> fake_sender \<times> send_exn option" where
  "fake_send email f = (f\<lparr>fk_messages := fk_messages f @ [email]\<rparr>, fk_error f)"

subsection \<open>Properties\<close>

lemma run_script_prefix: "run_script server cs = (issued, r) \<Longrightarrow> \<exists>rest. cs = issued @ rest"
  by (induction cs arbitrary: issued) (auto split: option.splits prod.splits)

lemma run_script_ok: "run_script server cs = (issued, None) \<Longrightarrow> issued = cs \<and> (\<forall>c \<in> set cs. server c = None)"
  by (induction cs arbitrary: issued) (auto split: option.splits prod.splits)

lemma run_script_stops:
  "run_script server cs = (issued, Some e) \<Longrightarrow>
     issued \<noteq> [] \<and> server (last issued) = Some e \<and> (\<forall>c \<in> set (butlast issued). server c = None)"
  by (induction cs arbitrary: issued) (auto split: option.splits prod.splits if_splits)


end
