(* ===== verification/Reminders.thy ===== *)
theory Reminders
  imports Senders ReminderInvariant "HOL-Library.Option_ord"
begin

section \<open>The reminder jobs (app/jobs/reminders.py)\<close>

text \<open>
  Claiming due deliveries under a lease, the authorization boundary before the one SMTP attempt,
  the two transactions of \<open>deliver\<close> with the send between them, and the classification of
  attempts whose worker never came back. \<open>skip_locked\<close> is the parameter \<open>locked\<close>: the rows some
  other transaction holds. The scan loop need not end, so it is a partial function to \<open>option\<close>.
\<close>

definition profile_id :: uuid where
  "profile_id = 1"

subsection \<open>Claiming\<close>

definition claimable :: "instant \<Rightarrow> reminder_delivery \<Rightarrow> bool" where
  "claimable now d \<longleftrightarrow>
     (d_state d = Pending
      \<or> d_state d = Claimed \<and> (case d_claim_expires_at d of None \<Rightarrow> False | Some t \<Rightarrow> t \<le> now))
     \<and> d_due_at d \<le> now"

definition miss_delivery :: "instant \<Rightarrow> reminder_delivery \<Rightarrow> reminder_delivery" where
  "miss_delivery now d =
     d\<lparr>d_state := Missed, d_claim_token := None, d_claim_expires_at := None, d_result_at := Some now\<rparr>"

definition lease_delivery :: "uuid \<Rightarrow> instant \<Rightarrow> reminder_delivery \<Rightarrow> reminder_delivery" where
  "lease_delivery token expires d =
     d\<lparr>d_state := Claimed, d_claim_token := Some token, d_claim_expires_at := Some expires\<rparr>"

definition claim_one ::
  "env \<Rightarrow> instant \<Rightarrow> int \<Rightarrow> int \<Rightarrow> reminder_delivery \<Rightarrow> (uuid \<times> uuid) list \<times> world
    \<Rightarrow> (uuid \<times> uuid) list \<times> world" where
  "claim_one env now grace_seconds lease_seconds d = (\<lambda>(claimed, w).
     if d_due_at d < now - seconds grace_seconds
     then (claimed, set_delivery (d_id d) (miss_delivery now) w)
     else let (token, w) = new_uuid env w
          in (claimed @ [(d_id d, token)],
              set_delivery (d_id d) (lease_delivery token (now + seconds lease_seconds)) w))"

definition due_rows :: "(uuid \<Rightarrow> bool) \<Rightarrow> instant \<Rightarrow> world \<Rightarrow> reminder_delivery list" where
  "due_rows locked now w =
     sort_key (\<lambda>d. (d_due_at d, d_id d))
       (filter (\<lambda>d. claimable now d \<and> \<not> locked (d_id d)) (w_deliveries w))"

definition claim_due_batch ::
  "env \<Rightarrow> (uuid \<Rightarrow> bool) \<Rightarrow> instant \<Rightarrow> int \<Rightarrow> int \<Rightarrow> nat \<Rightarrow> world
    \<Rightarrow> ((uuid \<times> uuid) list \<times> nat) \<times> world" where
  "claim_due_batch env locked now grace_seconds lease_seconds limit w =
     (let rows = take limit (due_rows locked now w);
          (claimed, w) = fold (claim_one env now grace_seconds lease_seconds) rows ([], w)
      in ((claimed, length rows), w))"

definition claim_due ::
  "env \<Rightarrow> (uuid \<Rightarrow> bool) \<Rightarrow> instant \<Rightarrow> int \<Rightarrow> int \<Rightarrow> nat \<Rightarrow> world \<Rightarrow> (uuid \<times> uuid) list \<times> world" where
  "claim_due env locked now grace_seconds lease_seconds limit w =
     (let ((claims, _), w) = claim_due_batch env locked now grace_seconds lease_seconds limit w
      in (claims, w))"

text \<open>
  The loop: one transaction per batch, then the enqueue calls, whose failures are ignored; the
  accumulator holds the calls made. \<open>locked k\<close> is what the k-th batch finds locked.
\<close>

partial_function (option) scan_loop ::
  "env \<Rightarrow> (nat \<Rightarrow> uuid \<Rightarrow> bool) \<Rightarrow> instant \<Rightarrow> nat \<Rightarrow> (string \<times> string) list \<Rightarrow> nat \<Rightarrow> world
    \<Rightarrow> (nat \<times> (string \<times> string) list \<times> world) option" where
  "scan_loop env locked scan_now k calls total_claims w =
     (let ((claims, processed), w) = claim_due_batch env (locked k) scan_now (reminder_grace_seconds env)
            (reminder_claim_seconds env) 100 (begin_tx env w);
          calls = calls @ map (\<lambda>(i, token). (uuid_text i, uuid_text token)) claims;
          total_claims = total_claims + length claims
      in if processed < 100 then Some (total_claims, calls, w)
         else scan_loop env locked scan_now (Suc k) calls total_claims w)"

definition scan_and_enqueue ::
  "env \<Rightarrow> (nat \<Rightarrow> uuid \<Rightarrow> bool) \<Rightarrow> world \<Rightarrow> (nat \<times> (string \<times> string) list \<times> world) option" where
  "scan_and_enqueue env locked w =
     (let (scan_now, w) = utcnow env w in scan_loop env locked scan_now 0 [] 0 w)"

subsection \<open>Authorization\<close>

definition notification_event ::
  "env \<Rightarrow> uuid \<Rightarrow> instant \<Rightarrow> uuid option \<Rightarrow> world \<Rightarrow> world" where
  "notification_event env notification_id now series_id w =
     (let (event_id, w) = new_uuid env w
      in w\<lparr>w_outbox := w_outbox w @
            [\<lparr>ev_id = event_id, ev_event_type = ''notification.created'',
              ev_entity_id = Some notification_id,
              ev_payload = \<lparr>p_event_id = event_id, p_type = ''notification.created'',
                p_occurred_at = now, p_entity_id = notification_id,
                p_notification_id = Some notification_id, p_version = 1, p_series_id = series_id\<rparr>,
              ev_created_at = w_now w, ev_published_at = None, ev_attempts = 0,
              ev_next_attempt_at = None, ev_error_code = None\<rparr>]\<rparr>)"

definition start_attempt ::
  "instant \<Rightarrow> string \<Rightarrow> note_row \<Rightarrow> reminder_delivery \<Rightarrow> reminder_delivery" where
  "start_attempt now recipient n d =
     d\<lparr>d_state := AttemptStarted, d_authorized_at := Some now, d_claim_expires_at := None,
       d_recipient_snapshot := Some recipient,
       d_content_snapshot := Some \<lparr>c_title = n_title n, c_body = n_body n, c_note_id = n_id n\<rparr>\<rparr>"

definition unclaim_delivery :: "reminder_delivery \<Rightarrow> reminder_delivery" where
  "unclaim_delivery d = d\<lparr>d_state := Pending, d_claim_token := None, d_claim_expires_at := None\<rparr>"

definition reminder_email :: "string \<Rightarrow> note_row \<Rightarrow> reminder_delivery \<Rightarrow> email" where
  "reminder_email recipient n d =
     \<lparr>em_recipient = recipient, em_subject = ''Reminder: '' @ n_title n, em_body = n_body n,
      em_message_id = ''<'' @ uuid_text (d_id d) @ ''.'' @ show_int (d_cycle_number d)
        @ ''@notetaker.local>''\<rparr>"

text \<open>The join of delivery, rule and note.\<close>

definition delivery_context ::
  "world \<Rightarrow> uuid \<Rightarrow> (reminder_delivery \<times> reminder_rule \<times> note_row) option" where
  "delivery_context w delivery_id =
     (case find (\<lambda>d. d_id d = delivery_id) (w_deliveries w) of
        None \<Rightarrow> None
      | Some d \<Rightarrow>
          (case find (\<lambda>r. r_id r = d_reminder_rule_id d) (w_rules w) of
             None \<Rightarrow> None
           | Some r \<Rightarrow>
               (case find (\<lambda>n. n_id n = r_note_id r) (w_notes w) of
                  None \<Rightarrow> None
                | Some n \<Rightarrow> Some (d, r, n))))"

definition recipient_of :: "env \<Rightarrow> world \<Rightarrow> string" where
  "recipient_of env w =
     (case find (\<lambda>s. us_id s = profile_id) (w_settings w) of
        Some s \<Rightarrow> strip (us_email s)
      | None \<Rightarrow> strip (app_default_email env))"

definition authorize_delivery ::
  "env \<Rightarrow> uuid \<Rightarrow> uuid \<Rightarrow> instant \<Rightarrow> int \<Rightarrow> world \<Rightarrow> error + email option \<times> world" where
  "authorize_delivery env delivery_id token now grace_seconds w =
     (case delivery_context w delivery_id of
        None \<Rightarrow> Inr (None, w)
      | Some (d, r, n) \<Rightarrow>
          if (case n_series_id n of None \<Rightarrow> False | Some sid \<Rightarrow> find (\<lambda>s. rs_id s = sid) (w_series w) = None)
          then Inl NoResultFound
          else if d_state d \<noteq> Claimed \<or> d_claim_token d \<noteq> Some token then Inr (None, w)
          else if \<not> r_enabled r \<or> r_current_cycle_number r \<noteq> d_cycle_number d \<or> \<not> n_active n
                  \<or> n_deleted_at n \<noteq> None \<or> n_superseded_at n \<noteq> None \<or> n_purged_at n \<noteq> None
          then Inr (None, set_delivery (d_id d) (cancel_delivery now) w)
          else if d_due_at d > now then Inr (None, set_delivery (d_id d) unclaim_delivery w)
          else if d_due_at d < now - seconds grace_seconds
          then Inr (None, set_delivery (d_id d) (miss_delivery now) w)
          else
            let recipient = recipient_of env w;
                w = set_delivery (d_id d) (start_attempt now recipient n) w;
                (notification_id, w) = new_uuid env w;
                w = w\<lparr>w_notifications := w_notifications w @
                      [\<lparr>nf_id = notification_id, nf_reminder_delivery_id = d_id d,
                        nf_scheduled_at = d_due_at d, nf_created_at = w_now w,
                        nf_title = n_title n, nf_body = n_body n\<rparr>]\<rparr>;
                w = notification_event env notification_id now (n_series_id n) w
            in Inr (Some (reminder_email recipient n d), w))"

subsection \<open>Delivery\<close>

definition valid_recipient :: "string \<Rightarrow> bool" where
  "valid_recipient recipient =
     (let (local, separator, domain) = partition_at (CHR ''@'') (strip recipient)
      in local \<noteq> [] \<and> separator \<noteq> [] \<and> domain \<noteq> [] \<and> list_all (\<lambda>c. \<not> is_space c) recipient)"

definition ambiguous_smtp_error :: "send_exn \<Rightarrow> bool" where
  "ambiguous_smtp_error e \<longleftrightarrow> e = TimeoutExn \<or> e = ServerDisconnected"

definition failure_prefix :: "bool \<Rightarrow> string" where
  "failure_prefix unknown = (if unknown then ''[Email outcome unknown] '' else ''[Email failed] '')"

definition mark_title :: "bool \<Rightarrow> notification \<Rightarrow> notification" where
  "mark_title unknown nf =
     (if \<not> startswith (failure_prefix unknown) (nf_title nf)
      then nf\<lparr>nf_title := take 255 (failure_prefix unknown @ nf_title nf)\<rparr> else nf)"

definition record_visible_email_failure ::
  "env \<Rightarrow> reminder_delivery \<Rightarrow> instant \<Rightarrow> bool \<Rightarrow> world \<Rightarrow> error + world" where
  "record_visible_email_failure env d now unknown w =
     (case find (\<lambda>nf. nf_reminder_delivery_id nf = d_id d) (w_notifications w) of
        None \<Rightarrow> Inl NoResultFound
      | Some nf \<Rightarrow>
          Inr (notification_event env (nf_id nf) now None
                (w\<lparr>w_notifications :=
                     update_where (\<lambda>x. nf_id x = nf_id nf) (mark_title unknown) (w_notifications w)\<rparr>)))"

text \<open>What the send amounts to: the error code to record and whether the outcome is unknown.\<close>

definition send_outcome :: "(email \<Rightarrow> send_exn option) \<Rightarrow> email \<Rightarrow> string option \<times> bool" where
  "send_outcome send email =
     (if \<not> valid_recipient (em_recipient email) then (Some ''invalid_recipient'', False)
      else (case send email of
              None \<Rightarrow> (None, False)
            | Some e \<Rightarrow> if ambiguous_smtp_error e then (Some ''smtp_outcome_unknown'', True)
                        else (Some ''smtp_send_failed'', False)))"

definition finish_attempt ::
  "string option \<Rightarrow> bool \<Rightarrow> instant \<Rightarrow> reminder_delivery \<Rightarrow> reminder_delivery" where
  "finish_attempt error_code unknown finished_at d =
     d\<lparr>d_state := (if unknown then Unknown else if error_code \<noteq> None then Failed else Sent),
       d_error_code := error_code, d_result_at := Some finished_at\<rparr>"

text \<open>The second transaction of \<open>deliver\<close>.\<close>

definition record_outcome ::
  "env \<Rightarrow> uuid \<Rightarrow> string option \<Rightarrow> bool \<Rightarrow> world \<Rightarrow> error + world" where
  "record_outcome env delivery_id error_code unknown w =
     (case find (\<lambda>d. d_id d = delivery_id) (w_deliveries w) of
        None \<Rightarrow> Inl NoResultFound
      | Some d \<Rightarrow>
          if d_state d = AttemptStarted
          then let (finished_at, w) = utcnow env w;
                   w = set_delivery (d_id d) (finish_attempt error_code unknown finished_at) w
               in if error_code \<noteq> None
                  then record_visible_email_failure env d finished_at unknown w
                  else Inr w
          else Inr w)"

text \<open>
  \<open>deliver\<close>: the value or the exception, the database as it was committed, and the emails that
  were handed to the sender.
\<close>

definition deliver ::
  "env \<Rightarrow> uuid \<Rightarrow> uuid \<Rightarrow> (email \<Rightarrow> send_exn option) \<Rightarrow> world \<Rightarrow> (error + bool) \<times> world \<times> email list" where
  "deliver env delivery_id token send w =
     (let (now, w) = utcnow env w
      in (case authorize_delivery env delivery_id token now (reminder_grace_seconds env) (begin_tx env w) of
            Inl e \<Rightarrow> (Inl e, w, [])
          | Inr (None, w) \<Rightarrow> (Inr False, w, [])
          | Inr (Some email, w) \<Rightarrow>
              let (error_code, unknown) = send_outcome send email;
                  sent = (if valid_recipient (em_recipient email) then [email] else [])
              in (case record_outcome env delivery_id error_code unknown (begin_tx env w) of
                    Inl e \<Rightarrow> (Inl e, w, sent)
                  | Inr w \<Rightarrow> (Inr (error_code = None), w, sent))))"

subsection \<open>Attempts whose outcome is unknown\<close>

definition stuck_rows :: "(uuid \<Rightarrow> bool) \<Rightarrow> instant \<Rightarrow> int \<Rightarrow> world \<Rightarrow> reminder_delivery list" where
  "stuck_rows locked now older_than_seconds w =
     sort_key (\<lambda>d. (d_authorized_at d, d_id d))
       (filter (\<lambda>d. d_state d = AttemptStarted
          \<and> (case d_authorized_at d of None \<Rightarrow> False | Some t \<Rightarrow> t < now - seconds older_than_seconds)
          \<and> \<not> locked (d_id d)) (w_deliveries w))"

definition give_up :: "instant \<Rightarrow> reminder_delivery \<Rightarrow> reminder_delivery" where
  "give_up now d =
     d\<lparr>d_state := Unknown, d_result_at := Some now,
       d_error_code := (case d_error_code d of
           None \<Rightarrow> Some ''worker_outcome_unknown''
         | Some c \<Rightarrow> if c = [] then Some ''worker_outcome_unknown'' else Some c)\<rparr>"

definition classify_unknown ::
  "env \<Rightarrow> (uuid \<Rightarrow> bool) \<Rightarrow> instant \<Rightarrow> int \<Rightarrow> nat \<Rightarrow> world \<Rightarrow> error + nat \<times> world" where
  "classify_unknown env locked now older_than_seconds limit w =
     (let rows = take limit (stuck_rows locked now older_than_seconds w)
      in try_then (fold_ok (\<lambda>d w. record_visible_email_failure env d now True
                      (set_delivery (d_id d) (give_up now) w)) rows w)
           (\<lambda>w. Inr (length rows, w)))"

end
