(* ===== verification/ReminderSafety.thy ===== *)
theory ReminderSafety
  imports Reminders
begin

section \<open>What the reminder jobs keep and what they may do\<close>

text \<open>
  Every job keeps the invariant of reminders and never takes back an attempt: \<open>reminder_safe\<close> is
  that contract of one transaction. From it follows that the boundary of \<open>authorize_delivery\<close> is
  crossed at most once per delivery.
\<close>

subsection \<open>Updates of one delivery\<close>

definition attempted :: "reminder_delivery \<Rightarrow> bool" where
  "attempted d \<longleftrightarrow> d_state d \<in> {AttemptStarted, Sent, Failed, Unknown}"

definition attempted_ids :: "world \<Rightarrow> uuid set" where
  "attempted_ids w = d_id ` {d \<in> set (w_deliveries w). attempted d}"

text \<open>An update of delivery rows that a job may make: keys and deadline stay, nothing is opened.\<close>

definition harmless :: "(reminder_delivery \<Rightarrow> reminder_delivery) \<Rightarrow> reminder_delivery \<Rightarrow> bool" where
  "harmless f d \<longleftrightarrow> d_id (f d) = d_id d \<and> d_reminder_rule_id (f d) = d_reminder_rule_id d
     \<and> d_cycle_number (f d) = d_cycle_number d \<and> d_due_at (f d) = d_due_at d
     \<and> (open_delivery (f d) \<longrightarrow> open_delivery d) \<and> (attempted d \<longrightarrow> attempted (f d))
     \<and> delivery_shape (f d)"

lemma map_update_same:
  "(\<And>r. r \<in> set rows \<Longrightarrow> p r \<Longrightarrow> g (f r) = g r) \<Longrightarrow> map g (update_where p f rows) = map g rows"
  by (auto simp: update_where_def)

lemma rule_ok_update:
  assumes "rule_ok n r ds" "\<And>d. d \<in> set ds \<Longrightarrow> p d \<Longrightarrow> harmless f d"
  shows "rule_ok n r (update_where p f ds)"
proof -
  have cyc: "map d_cycle_number (update_where p f ds) = map d_cycle_number ds"
    by (rule map_update_same) (use assms(2) in \<open>simp add: harmless_def\<close>)
  then have img: "d_cycle_number ` set (update_where p f ds) = d_cycle_number ` set ds"
    by (metis list.set_map)
  have "cycles_ok r (update_where p f ds)"
    using assms(1) cyc img unfolding rule_ok_def cycles_ok_def by (metis image_iff)
  moreover have "due_ok n r (update_where p f ds)" "open_ok n r (update_where p f ds)"
    using assms unfolding rule_ok_def due_ok_def open_ok_def harmless_def
    by (auto simp: row_simps split: if_splits)
  ultimately show ?thesis by (simp add: rule_ok_def)
qed

lemma update_where_on_set: "update_where p f xs = update_where (\<lambda>x. p x \<and> x \<in> set xs) f xs"
  by (auto simp: update_where_def)

lemma dels_update_harmless:
  assumes "\<And>d. d \<in> set ds \<Longrightarrow> p d \<Longrightarrow> harmless f d"
  shows "dels j (update_where p f ds) = update_where p f (dels j ds)"
  using assms by (induction ds) (auto simp: dels_def update_where_def harmless_def)

lemma update_deliveries_ok:
  assumes inv: "reminders_ok w" and f: "\<And>d. d \<in> set (w_deliveries w) \<Longrightarrow> p d \<Longrightarrow> harmless f d"
  shows "reminders_ok (w\<lparr>w_deliveries := update_where p f (w_deliveries w)\<rparr>)"
    and "attempted_ids w \<subseteq> attempted_ids (w\<lparr>w_deliveries := update_where p f (w_deliveries w)\<rparr>)"
proof -
  let ?ds = "update_where p f (w_deliveries w)"
  have "map d_id ?ds = map d_id (w_deliveries w)"
    by (rule map_update_same) (use f in \<open>simp add: harmless_def\<close>)
  moreover have "d_reminder_rule_id d \<in> r_id ` set (w_rules w)" "delivery_shape d" if "d \<in> set ?ds" for d
    using inv that f unfolding reminders_ok_def reminder_rows_wf_def harmless_def
    by (auto simp: row_simps split: if_splits)
  ultimately have "reminder_rows_wf (w\<lparr>w_deliveries := ?ds\<rparr>)"
    using inv by (simp add: reminders_ok_def reminder_rows_wf_def)
  moreover have "rule_state (w\<lparr>w_deliveries := ?ds\<rparr>) n r" if "rule_state w n r" for n r
    using that f unfolding rule_state_def
    by (simp add: dels_update_harmless) (rule rule_ok_update, auto)
  ultimately show "reminders_ok (w\<lparr>w_deliveries := ?ds\<rparr>)"
    using inv by (simp add: reminders_ok_def)
  have "\<exists>d' \<in> set ?ds. d_id d' = d_id d \<and> attempted d'"
    if "d \<in> set (w_deliveries w)" "attempted d" for d
    using that f [OF that(1)]
    by (intro bexI [of _ "if p d then f d else d"]) (auto simp: row_simps harmless_def)
  then show "attempted_ids w \<subseteq> attempted_ids (w\<lparr>w_deliveries := ?ds\<rparr>)"
    unfolding attempted_ids_def by (auto simp: image_iff) metis
qed

text \<open>The updates the jobs make, on the states they make them in.\<close>

lemma open_cases:
  assumes "open_delivery d" obtains "d_state d = Pending" | "d_state d = Claimed"
  using assms by (auto simp: open_delivery_def)

lemmas update_defs = miss_delivery_def lease_delivery_def cancel_delivery_def unclaim_delivery_def
  start_attempt_def finish_attempt_def give_up_def

lemma harmless_open:
  assumes "open_delivery d" "delivery_shape d"
  shows "harmless (miss_delivery now) d" "harmless (lease_delivery token e) d"
    "harmless (cancel_delivery now) d"
  using assms(1)
  by (cases rule: open_cases;
      use assms(2) in \<open>simp add: harmless_def open_delivery_def attempted_def update_defs shape_simps\<close>)+

lemma harmless_claimed:
  assumes "d_state d = Claimed" "delivery_shape d"
  shows "harmless unclaim_delivery d" "harmless (start_attempt now rec n) d"
  using assms by (simp_all add: harmless_def open_delivery_def attempted_def update_defs shape_simps)

lemma harmless_attempt:
  assumes "d_state d = AttemptStarted" "delivery_shape d"
  shows "(unknown \<Longrightarrow> c \<noteq> None) \<Longrightarrow> harmless (finish_attempt c unknown t) d" "harmless (give_up now) d"
  using assms by (auto simp add: harmless_def open_delivery_def attempted_def update_defs shape_simps)

subsection \<open>The contract of a transaction\<close>

definition reminder_safe :: "env \<Rightarrow> world \<Rightarrow> world \<Rightarrow> bool" where
  "reminder_safe env w w' \<longleftrightarrow> (reminders_ok w \<and> fresh env w \<longrightarrow>
     reminders_ok w' \<and> fresh env w' \<and> attempted_ids w \<subseteq> attempted_ids w')"

lemma reminder_safe_refl [inv_intros]: "reminder_safe env w w"
  by (simp add: reminder_safe_def)

lemma reminder_safe_trans: "reminder_safe env u v \<Longrightarrow> reminder_safe env v w \<Longrightarrow> reminder_safe env u w"
  unfolding reminder_safe_def by blast

text \<open>A change that leaves the rules, the deliveries and the notes alone.\<close>

lemma reminder_safe_frame:
  assumes "w_rules w' = w_rules w" "w_deliveries w' = w_deliveries w" "w_notes w' = w_notes w"
    and "grows env w w'"
  shows "reminder_safe env w w'"
  using assms fresh_grows [of env w w']
  by (simp add: reminder_safe_def reminders_ok_def reminder_rows_wf_def rule_state_def attempted_ids_def)

lemma shape_of: "reminders_ok w \<Longrightarrow> d \<in> set (w_deliveries w) \<Longrightarrow> delivery_shape d"
  by (simp add: reminders_ok_def reminder_rows_wf_def)

lemma used_ids_deliveries:
  "map d_id ds = map d_id (w_deliveries w) \<Longrightarrow> used_ids (w\<lparr>w_deliveries := ds\<rparr>) = used_ids w"
  unfolding used_ids_def by (simp del: map_eq_conv) (metis list.set_map)

lemma set_delivery_safe:
  assumes "\<And>d. reminders_ok w \<Longrightarrow> d \<in> set (w_deliveries w) \<Longrightarrow> d_id d = i \<Longrightarrow> harmless f d"
  shows "reminder_safe env w (set_delivery i f w)"
  unfolding reminder_safe_def
proof (intro impI, elim conjE)
  assume ok: "reminders_ok w" and fr: "fresh env w"
  note f = assms [OF ok]
  have "map d_id (update_where (\<lambda>d. d_id d = i) f (w_deliveries w)) = map d_id (w_deliveries w)"
    by (rule map_update_same) (use f in \<open>simp add: harmless_def\<close>)
  from used_ids_deliveries [OF this] fr have "fresh env (set_delivery i f w)"
    by (simp add: fresh_def set_delivery_def)
  then show "reminders_ok (set_delivery i f w) \<and> fresh env (set_delivery i f w)
      \<and> attempted_ids w \<subseteq> attempted_ids (set_delivery i f w)"
    using update_deliveries_ok [OF ok, of "\<lambda>d. d_id d = i" f] f by (simp add: set_delivery_def)
qed

lemma delivery_unique:
  "reminders_ok w \<Longrightarrow> d \<in> set (w_deliveries w) \<Longrightarrow> d' \<in> set (w_deliveries w) \<Longrightarrow> d_id d = d_id d' \<Longrightarrow> d = d'"
  unfolding reminders_ok_def reminder_rows_wf_def by (blast dest: distinct_map_eqD)

text \<open>The row found by its identifier is the one updated.\<close>

lemma set_this_delivery_safe:
  assumes "d \<in> set (w_deliveries w)" "delivery_shape d \<Longrightarrow> harmless f d"
  shows "reminder_safe env w (set_delivery (d_id d) f w)"
  by (rule set_delivery_safe) (use assms delivery_unique shape_of in metis)

lemma grows_new_uuid [simp]: "grows env w (w\<lparr>draws := Suc (draws w)\<rparr>)"
  by (auto simp: grows_def used_ids_def)

lemma begin_tx_rows [row_simps]:
  "w_deliveries (begin_tx env w) = w_deliveries w" "w_rules (begin_tx env w) = w_rules w"
  "w_notes (begin_tx env w) = w_notes w" "w_notifications (begin_tx env w) = w_notifications w"
  "w_series (begin_tx env w) = w_series w" "w_settings (begin_tx env w) = w_settings w"
  "draws (begin_tx env w) = draws w" "used_ids (begin_tx env w) = used_ids w"
  by (simp_all add: begin_tx_def used_ids_def)

lemma begin_tx_safe [inv_intros]: "reminder_safe env w (begin_tx env w)"
  by (rule reminder_safe_frame) (simp_all add: row_simps grows_def)

subsection \<open>The jobs keep the contract\<close>

lemma new_uuid_safe: "reminder_safe env w (snd (new_uuid env w))"
  by (rule reminder_safe_frame) (simp_all add: new_uuid_def)

lemma notification_event_rows [row_simps]:
  "w_deliveries (notification_event env i now sid w) = w_deliveries w"
  "w_rules (notification_event env i now sid w) = w_rules w"
  "w_notes (notification_event env i now sid w) = w_notes w"
  "w_notifications (notification_event env i now sid w) = w_notifications w"
  by (simp_all add: notification_event_def new_uuid_def)

lemma notification_event_safe [inv_intros]: "reminder_safe env w (notification_event env i now sid w)"
  by (rule reminder_safe_frame)
    (auto simp: row_simps grows_def used_ids_def notification_event_def new_uuid_def)

lemma mark_title_key [simp]: "nf_id (mark_title u nf) = nf_id nf"
  "nf_reminder_delivery_id (mark_title u nf) = nf_reminder_delivery_id nf"
  by (simp_all add: mark_title_def)

lemma mark_notifications_safe:
  "reminder_safe env w (w\<lparr>w_notifications := update_where p (mark_title u) (w_notifications w)\<rparr>)"
proof -
  have "map nf_id (update_where p (mark_title u) (w_notifications w)) = map nf_id (w_notifications w)" by simp
  then have "nf_id ` set (update_where p (mark_title u) (w_notifications w)) = nf_id ` set (w_notifications w)"
    by (metis list.set_map)
  then show ?thesis by (intro reminder_safe_frame) (simp_all add: grows_def used_ids_def)
qed

lemma record_failure_safe:
  "record_visible_email_failure env d now u w = Inr w' \<Longrightarrow> reminder_safe env w w'"
  by (auto simp: record_visible_email_failure_def split: option.splits
      intro: reminder_safe_trans [OF mark_notifications_safe notification_event_safe])

lemma due_rowsD:
  assumes "d \<in> set (take k (due_rows locked now w))"
  shows "d \<in> set (w_deliveries w)" "claimable now d" "\<not> locked (d_id d)"
  using in_set_takeD [OF assms] by (auto simp: due_rows_def)

lemma claimable_open: "claimable now d \<Longrightarrow> open_delivery d"
  by (auto simp: claimable_def open_delivery_def)

text \<open>One claim, and the rows still to be claimed.\<close>

lemma claim_one_rows:
  assumes "claim_one env now g l d (c, w) = (c', w')"
  shows "w_deliveries w' = update_where (\<lambda>x. d_id x = d_id d)
      (if d_due_at d < now - seconds g then miss_delivery now
       else lease_delivery (uuid4 env (draws w)) (now + seconds l)) (w_deliveries w)"
    and "c' = (if d_due_at d < now - seconds g then c else c @ [(d_id d, uuid4 env (draws w))])"
    and "draws w' = (if d_due_at d < now - seconds g then draws w else Suc (draws w))"
  using assms by (auto simp: claim_one_def new_uuid_def set_delivery_def split: if_splits)

lemma claim_one_safe:
  assumes "d \<in> set (w_deliveries w)" "open_delivery d" "claim_one env now g l d (c, w) = (c', w')"
  shows "reminder_safe env w w'"
proof -
  have "reminder_safe env w (set_delivery (d_id d) (miss_delivery now) w)"
    using assms(1,2) by (intro set_this_delivery_safe harmless_open)
  moreover have "reminder_safe env w
      (set_delivery (d_id d) (lease_delivery token e) (w\<lparr>draws := Suc (draws w)\<rparr>))" for token e
  proof (rule reminder_safe_trans)
    show "reminder_safe env w (w\<lparr>draws := Suc (draws w)\<rparr>)"
      using new_uuid_safe [of env w] by (simp add: new_uuid_def)
    show "reminder_safe env (w\<lparr>draws := Suc (draws w)\<rparr>)
        (set_delivery (d_id d) (lease_delivery token e) (w\<lparr>draws := Suc (draws w)\<rparr>))"
      by (rule set_this_delivery_safe) (use assms(1) harmless_open(2) [OF assms(2)] in simp_all)
  qed
  ultimately show ?thesis
    using assms(3) by (auto simp: claim_one_def new_uuid_def split: if_splits)
qed

text \<open>The row a claimed delivery becomes, and the loop over the rows of a batch.\<close>

definition claimed_row ::
  "instant \<Rightarrow> int \<Rightarrow> int \<Rightarrow> (uuid \<times> uuid) list \<Rightarrow> reminder_delivery \<Rightarrow> reminder_delivery \<Rightarrow> bool" where
  "claimed_row now g l claims d d' \<longleftrightarrow>
     (if d_due_at d < now - seconds g then d' = miss_delivery now d
      else \<exists>token. (d_id d, token) \<in> set claims \<and> d' = lease_delivery token (now + seconds l) d)"

lemma claim_loop:
  assumes "fold (claim_one env now g l) rows (c, w) = (c', w')"
    and "set rows \<subseteq> set (w_deliveries w)" "distinct (map d_id rows)" "\<forall>d \<in> set rows. open_delivery d"
    and "reminders_ok w" "fresh env w"
  shows "reminder_safe env w w'
    \<and> (\<exists>cs. c' = c @ cs \<and> map fst cs = map d_id (filter (\<lambda>d. \<not> d_due_at d < now - seconds g) rows)
         \<and> map snd cs = map (uuid4 env) [draws w..<draws w'])
    \<and> draws w \<le> draws w'
    \<and> (\<forall>x \<in> set (w_deliveries w). x \<notin> set rows \<longrightarrow> x \<in> set (w_deliveries w'))
    \<and> (\<forall>d \<in> set rows. \<exists>d' \<in> set (w_deliveries w'). claimed_row now g l c' d d')"
  using assms
proof (induction rows arbitrary: c w)
  case Nil
  then show ?case by (simp add: reminder_safe_refl)
next
  case (Cons d rows)
  obtain c1 w1 where one: "claim_one env now g l d (c, w) = (c1, w1)" by fastforce
  note rows1 = claim_one_rows [OF one]
  let ?f = "if d_due_at d < now - seconds g then miss_delivery now
       else lease_delivery (uuid4 env (draws w)) (now + seconds l)"
  have d: "d \<in> set (w_deliveries w)" "open_delivery d" using Cons.prems by simp_all
  have safe1: "reminder_safe env w w1" by (rule claim_one_safe [OF d one])
  then have inv1: "reminders_ok w1" "fresh env w1" using Cons.prems(5,6) by (simp_all add: reminder_safe_def)
  have id: "d_id (?f d) = d_id d" by (simp add: miss_delivery_def lease_delivery_def)
  have fd: "?f d \<in> set (w_deliveries w1)" using d(1) rows1(1) by (auto simp: row_simps)
  have other: "x \<in> set (w_deliveries w1)" if "x \<in> set (w_deliveries w)" "x \<noteq> d" for x
    using that rows1(1) delivery_unique [OF Cons.prems(5) that(1) d(1)] by (auto simp: row_simps)
  have "x \<in> set (w_deliveries w1)" if "x \<in> set rows" for x
    using that Cons.prems(2,3) other by auto
  then have sub: "set rows \<subseteq> set (w_deliveries w1)" by blast
  have run: "fold (claim_one env now g l) rows (c1, w1) = (c', w')" using Cons.prems(1) one by simp
  note IH = Cons.IH [OF run sub _ _ inv1]
  have dist: "distinct (map d_id rows)" "\<forall>x \<in> set rows. open_delivery x" "d_id d \<notin> d_id ` set rows"
    using Cons.prems(3,4) by simp_all
  from IH [OF dist(1,2)] obtain cs where cs: "c' = c1 @ cs"
      "map fst cs = map d_id (filter (\<lambda>d. \<not> d_due_at d < now - seconds g) rows)"
      "map snd cs = map (uuid4 env) [draws w1..<draws w']"
    and le: "draws w1 \<le> draws w'" and safe2: "reminder_safe env w1 w'"
    and keep: "\<And>x. x \<in> set (w_deliveries w1) \<Longrightarrow> x \<notin> set rows \<Longrightarrow> x \<in> set (w_deliveries w')"
    and got: "\<And>x. x \<in> set rows \<Longrightarrow> \<exists>d' \<in> set (w_deliveries w'). claimed_row now g l c' x d'"
    by blast
  have "?f d \<notin> set rows" using dist(3) imageI [of "?f d" "set rows" d_id] unfolding id by blast
  with fd have "?f d \<in> set (w_deliveries w')" by (rule keep)
  then have "\<exists>d' \<in> set (w_deliveries w'). claimed_row now g l c' d d'"
    using rows1(2) cs(1) by (auto simp: claimed_row_def split: if_splits)
  moreover have "\<exists>cs. c' = c @ cs
      \<and> map fst cs = map d_id (filter (\<lambda>d. \<not> d_due_at d < now - seconds g) (d # rows))
      \<and> map snd cs = map (uuid4 env) [draws w..<draws w']"
    using rows1(2,3) cs le
    by (cases "d_due_at d < now - seconds g")
      (auto simp: upt_rec [of "draws w"] Suc_le_eq intro: exI [of _ "(d_id d, uuid4 env (draws w)) # cs"])
  moreover have "draws w \<le> draws w'" using rows1(3) le by (simp split: if_splits)
  ultimately show ?case
    using reminder_safe_trans [OF safe1 safe2] got other keep by auto
qed

subsection \<open>The authorization boundary\<close>

lemma delivery_contextD:
  assumes "delivery_context w i = Some (d, r, n)"
  shows "d \<in> set (w_deliveries w)" "d_id d = i" "r \<in> set (w_rules w)" "r_id r = d_reminder_rule_id d"
    "n \<in> set (w_notes w)" "n_id n = r_note_id r"
  using assms by (auto simp: delivery_context_def dest!: find_Some_set split: option.splits)

lemma grant_rows:
  assumes "w1 = set_delivery i f w" "new_uuid env w1 = (k, w2)"
    and "w3 = notification_event env k now sid (w2\<lparr>w_notifications := w_notifications w2 @ [nf]\<rparr>)"
    and "nf_id nf = k"
  shows "w_deliveries w3 = w_deliveries w1" "w_notifications w3 = w_notifications w @ [nf]"
    "reminder_safe env w1 w3"
proof -
  show "w_deliveries w3 = w_deliveries w1" "w_notifications w3 = w_notifications w @ [nf]"
    using assms by (auto simp: row_simps new_uuid_def set_delivery_def)
  have "reminder_safe env w1 (w2\<lparr>w_notifications := w_notifications w2 @ [nf]\<rparr>)"
    by (rule reminder_safe_frame) (use assms in \<open>auto simp: new_uuid_def grows_def used_ids_def\<close>)
  then show "reminder_safe env w1 w3"
    unfolding assms(3) by (rule reminder_safe_trans) (rule notification_event_safe)
qed

text \<open>The conditions under which the email goes out, and what is then committed.\<close>

definition may_send :: "world \<Rightarrow> uuid \<Rightarrow> uuid \<Rightarrow> instant \<Rightarrow> int \<Rightarrow> reminder_delivery \<Rightarrow> reminder_rule \<Rightarrow> note_row \<Rightarrow> bool" where
  "may_send w i token now grace_seconds d r n \<longleftrightarrow> delivery_context w i = Some (d, r, n)
     \<and> d_state d = Claimed \<and> d_claim_token d = Some token
     \<and> r_enabled r \<and> r_current_cycle_number r = d_cycle_number d \<and> live_note n
     \<and> d_due_at d \<le> now \<and> now - seconds grace_seconds \<le> d_due_at d"

lemma authorize_cases:
  assumes "authorize_delivery env i token now g w = Inr (res, w')"
  obtains (refused) "res = None" "w' = w"
  | (withdrawn) d r n f where "res = None" "delivery_context w i = Some (d, r, n)" "d_state d = Claimed"
      "w' = set_delivery (d_id d) f w" "f \<in> {cancel_delivery now, unclaim_delivery, miss_delivery now}"
  | (granted) d r n nf where "res = Some (reminder_email (recipient_of env w) n d)"
      "may_send w i token now g d r n"
      "w_deliveries w' = w_deliveries (set_delivery (d_id d) (start_attempt now (recipient_of env w) n) w)"
      "w_notifications w' = w_notifications w @ [nf]" "nf_reminder_delivery_id nf = d_id d"
      "nf_title nf = n_title n" "nf_body nf = n_body n" "nf_scheduled_at nf = d_due_at d"
      "reminder_safe env (set_delivery (d_id d) (start_attempt now (recipient_of env w) n) w) w'"
proof (cases "delivery_context w i")
  case None
  with assms show thesis by (intro refused) (simp_all add: authorize_delivery_def)
next
  case (Some x)
  obtain d r n where x: "x = (d, r, n)" by (cases x)
  note a = assms [unfolded authorize_delivery_def Some x, simplified]
  show thesis
  proof (cases "d_state d \<noteq> Claimed \<or> d_claim_token d \<noteq> Some token")
    case True
    with a show thesis by (intro refused) (auto split: if_splits)
  next
    case claimed: False
    show thesis
    proof (cases "r_enabled r \<and> r_current_cycle_number r = d_cycle_number d \<and> live_note n
        \<and> d_due_at d \<le> now \<and> now - seconds g \<le> d_due_at d")
      case False
      then consider (cancel) "w' = set_delivery (d_id d) (cancel_delivery now) w" "res = None"
        | (unclaim) "w' = set_delivery (d_id d) unclaim_delivery w" "res = None"
        | (miss) "w' = set_delivery (d_id d) (miss_delivery now) w" "res = None"
        using a claimed by (auto simp: live_note_def split: if_splits)
      then show thesis
      proof cases
        case cancel
        with Some x claimed show thesis by (intro withdrawn [of d r n "cancel_delivery now"]) simp_all
      next
        case unclaim
        with Some x claimed show thesis by (intro withdrawn [of d r n unclaim_delivery]) simp_all
      next
        case miss
        with Some x claimed show thesis by (intro withdrawn [of d r n "miss_delivery now"]) simp_all
      qed
    next
      case True
      let ?w1 = "set_delivery (d_id d) (start_attempt now (recipient_of env w) n) w"
      obtain k w2 where k: "new_uuid env ?w1 = (k, w2)" by fastforce
      let ?nf = "\<lparr>nf_id = k, nf_reminder_delivery_id = d_id d, nf_scheduled_at = d_due_at d,
          nf_created_at = w_now w2, nf_title = n_title n, nf_body = n_body n\<rparr>"
      have w': "w' = notification_event env k now (n_series_id n)
          (w2\<lparr>w_notifications := w_notifications w2 @ [?nf]\<rparr>)"
        and res: "res = Some (reminder_email (recipient_of env w) n d)"
        using a claimed True k by (auto simp: live_note_def Let_def split: if_splits)
      show thesis
        by (rule granted [where d = d and r = r and n = n and nf = ?nf, OF res _ _ _ _ _ _ _ grant_rows(3) [OF refl k w']])
          (use claimed True Some x grant_rows(1,2) [OF refl k w'] in \<open>simp_all add: may_send_def\<close>)
    qed
  qed
qed

lemma attempted_unique:
  assumes "reminders_ok w" "d \<in> set (w_deliveries w)"
  shows "d_id d \<in> attempted_ids w \<longleftrightarrow> attempted d"
  using delivery_unique [OF assms(1) _ assms(2)] assms(2) by (auto simp: attempted_ids_def image_iff)

lemma authorize_safe:
  assumes "authorize_delivery env i token now g w = Inr (res, w')"
  shows "reminder_safe env w w'"
  using assms
proof (cases rule: authorize_cases)
  case refused
  then show ?thesis by (simp add: reminder_safe_refl)
next
  case (withdrawn d r n f)
  have "harmless f d" if "delivery_shape d"
    using withdrawn(3,5) that harmless_open harmless_claimed by (auto simp: open_delivery_def)
  then show ?thesis
    unfolding withdrawn(4) by (rule set_this_delivery_safe [OF delivery_contextD(1) [OF withdrawn(2)]])
next
  case (granted d r n nf)
  then have d: "d \<in> set (w_deliveries w)" "d_state d = Claimed"
    using delivery_contextD(1) by (auto simp: may_send_def)
  have "reminder_safe env w (set_delivery (d_id d) (start_attempt now (recipient_of env w) n) w)"
    using d by (intro set_this_delivery_safe harmless_claimed)
  from reminder_safe_trans [OF this granted(9)] show ?thesis .
qed

text \<open>Crossing the boundary: the delivery was not attempted before, and is from now on.\<close>

lemma authorize_attempts:
  assumes "authorize_delivery env i token now g w = Inr (Some e, w')" "reminders_ok w"
  shows "i \<notin> attempted_ids w" "i \<in> attempted_ids w'"
proof -
  from assms(1) obtain d r n where d: "may_send w i token now g d r n"
    and w': "w_deliveries w' = w_deliveries (set_delivery (d_id d) (start_attempt now (recipient_of env w) n) w)"
    by (cases rule: authorize_cases) auto
  then have mem: "d \<in> set (w_deliveries w)" "d_id d = i" "\<not> attempted d"
    using delivery_contextD(1,2) by (auto simp: may_send_def attempted_def)
  then show "i \<notin> attempted_ids w" using attempted_unique [OF assms(2) mem(1)] by simp
  have "start_attempt now (recipient_of env w) n d \<in> set (w_deliveries w')"
    using mem(1) unfolding w' by (auto simp: row_simps)
  then show "i \<in> attempted_ids w'"
    using mem(2) by (auto simp: attempted_ids_def attempted_def start_attempt_def image_iff
        intro!: bexI [of _ "start_attempt now (recipient_of env w) n d"])
qed

lemma record_outcome_safe:
  assumes "record_outcome env i c u w = Inr w'" "u \<Longrightarrow> c \<noteq> None"
  shows "reminder_safe env w w'"
proof -
  obtain d where d: "find (\<lambda>d. d_id d = i) (w_deliveries w) = Some d"
    using assms(1) by (auto simp: record_outcome_def split: option.splits)
  then have mem: "d \<in> set (w_deliveries w)" by (auto dest: find_Some_set)
  let ?t = "clock env (ticks w)"
  let ?w1 = "set_delivery (d_id d) (finish_attempt c u ?t) (w\<lparr>ticks := Suc (ticks w)\<rparr>)"
  have tick: "reminder_safe env w (w\<lparr>ticks := Suc (ticks w)\<rparr>)"
    by (rule reminder_safe_frame) (simp_all add: grows_def used_ids_def)
  show ?thesis
  proof (cases "d_state d = AttemptStarted")
    case True
    have "reminder_safe env (w\<lparr>ticks := Suc (ticks w)\<rparr>) ?w1"
      using mem True assms(2) by (intro set_this_delivery_safe harmless_attempt) simp_all
    from reminder_safe_trans [OF tick this] have safe: "reminder_safe env w ?w1" .
    have "c = None \<and> w' = ?w1 \<or> record_visible_email_failure env d ?t u ?w1 = Inr w'"
      using assms(1) d True by (auto simp: record_outcome_def utcnow_def Let_def split: if_splits)
    with safe reminder_safe_trans [OF safe record_failure_safe] show ?thesis by auto
  next
    case False
    with assms(1) d show ?thesis by (simp add: record_outcome_def reminder_safe_refl)
  qed
qed

lemma reminders_ids: "reminders_ok w \<Longrightarrow> distinct (map d_id (w_deliveries w))"
  by (simp add: reminders_ok_def reminder_rows_wf_def)

lemma give_up_one:
  assumes "record_visible_email_failure env d now True (set_delivery (d_id d) (give_up now) w) = Inr w'"
    and "d \<in> set (w_deliveries w)" "d_state d = AttemptStarted"
  shows "reminder_safe env w w'"
    and "w_deliveries w' = update_where (\<lambda>x. d_id x = d_id d) (give_up now) (w_deliveries w)"
proof -
  have "reminder_safe env w (set_delivery (d_id d) (give_up now) w)"
    using assms(2,3) by (intro set_this_delivery_safe harmless_attempt)
  from reminder_safe_trans [OF this record_failure_safe [OF assms(1)]] show "reminder_safe env w w'" .
  show "w_deliveries w' = update_where (\<lambda>x. d_id x = d_id d) (give_up now) (w_deliveries w)"
    using assms(1) by (auto simp: record_visible_email_failure_def row_simps split: option.splits)
qed

lemma give_up_loop:
  assumes "fold_ok (\<lambda>d w. record_visible_email_failure env d now True
      (set_delivery (d_id d) (give_up now) w)) rows w = Inr w'"
    and "set rows \<subseteq> set (w_deliveries w)" "distinct (map d_id rows)"
    and "\<forall>d \<in> set rows. d_state d = AttemptStarted" "reminders_ok w" "fresh env w"
  shows "reminder_safe env w w'
    \<and> (\<forall>x \<in> set (w_deliveries w). x \<notin> set rows \<longrightarrow> x \<in> set (w_deliveries w'))
    \<and> (\<forall>d \<in> set rows. give_up now d \<in> set (w_deliveries w'))"
  using assms
proof (induction rows arbitrary: w)
  case Nil
  then show ?case by (simp add: reminder_safe_refl)
next
  case (Cons d rows)
  from Cons.prems(1) obtain w1 where
    one: "record_visible_email_failure env d now True (set_delivery (d_id d) (give_up now) w) = Inr w1"
    and rest: "fold_ok (\<lambda>d w. record_visible_email_failure env d now True
      (set_delivery (d_id d) (give_up now) w)) rows w1 = Inr w'" by auto
  have d: "d \<in> set (w_deliveries w)" "d_state d = AttemptStarted" using Cons.prems by simp_all
  note eff = give_up_one [OF one d]
  have inv1: "reminders_ok w1" "fresh env w1"
    using eff(1) Cons.prems(5,6) by (simp_all add: reminder_safe_def)
  have id: "d_id (give_up now d) = d_id d" by (simp add: give_up_def)
  have fd: "give_up now d \<in> set (w_deliveries w1)" using d(1) eff(2) by (auto simp: row_simps)
  have other: "x \<in> set (w_deliveries w1)" if "x \<in> set (w_deliveries w)" "x \<noteq> d" for x
    using that eff(2) delivery_unique [OF Cons.prems(5) that(1) d(1)] by (auto simp: row_simps)
  then have "set rows \<subseteq> set (w_deliveries w1)" using Cons.prems(2,3) by fastforce
  from Cons.IH [OF rest this _ _ inv1] Cons.prems(3,4)
  have IH: "reminder_safe env w1 w'"
    "\<And>x. x \<in> set (w_deliveries w1) \<Longrightarrow> x \<notin> set rows \<Longrightarrow> x \<in> set (w_deliveries w')"
    "\<And>d. d \<in> set rows \<Longrightarrow> give_up now d \<in> set (w_deliveries w')" by auto
  have "give_up now d \<notin> set rows"
    using Cons.prems(3) imageI [of "give_up now d" "set rows" d_id] unfolding id by auto
  with IH(2) [OF fd] have "give_up now d \<in> set (w_deliveries w')" by blast
  with IH other reminder_safe_trans [OF eff(1) IH(1)] show ?case by auto
qed

lemma stuck_rowsD:
  assumes "d \<in> set (take k (stuck_rows locked now old w))"
  shows "d \<in> set (w_deliveries w)" "d_state d = AttemptStarted" "\<not> locked (d_id d)"
    "\<exists>t. d_authorized_at d = Some t \<and> t < now - seconds old"
  using in_set_takeD [OF assms] by (auto simp: stuck_rows_def split: option.splits)

lemma classify_unknown_loop:
  assumes "classify_unknown env locked now old lim w = Inr (k, w')" "reminders_ok w" "fresh env w"
  defines "rows \<equiv> take lim (stuck_rows locked now old w)"
  shows "k = length rows" "reminder_safe env w w'"
    and "\<forall>x \<in> set (w_deliveries w). x \<notin> set rows \<longrightarrow> x \<in> set (w_deliveries w')"
    and "\<forall>d \<in> set rows. give_up now d \<in> set (w_deliveries w')"
proof -
  have run: "k = length rows" "fold_ok (\<lambda>d w. record_visible_email_failure env d now True
      (set_delivery (d_id d) (give_up now) w)) rows w = Inr w'"
    using assms(1) by (auto simp: classify_unknown_def rows_def Let_def)
  have sub: "set rows \<subseteq> set (w_deliveries w)" "\<forall>d \<in> set rows. d_state d = AttemptStarted"
    unfolding rows_def using stuck_rowsD(1,2) by blast+
  have "distinct (map d_id rows)"
    unfolding rows_def stuck_rows_def by (rule batch_distinct [OF reminders_ids [OF assms(2)]])
  from give_up_loop [OF run(2) sub(1) this sub(2) assms(2,3)] run(1)
  show "k = length rows" "reminder_safe env w w'"
    and "\<forall>x \<in> set (w_deliveries w). x \<notin> set rows \<longrightarrow> x \<in> set (w_deliveries w')"
    and "\<forall>d \<in> set rows. give_up now d \<in> set (w_deliveries w')" by simp_all
qed

lemma classify_unknown_safe:
  "classify_unknown env locked now old lim w = Inr (k, w') \<Longrightarrow> reminder_safe env w w'"
  using classify_unknown_loop(2) unfolding reminder_safe_def by blast

lemma claim_batch_loop:
  assumes "claim_due_batch env locked now g l lim w = ((claims, processed), w')" "reminders_ok w" "fresh env w"
  defines "rows \<equiv> take lim (due_rows locked now w)"
  shows "processed = length rows" "reminder_safe env w w'"
    and "map fst claims = map d_id (filter (\<lambda>d. \<not> d_due_at d < now - seconds g) rows)"
    and "map snd claims = map (uuid4 env) [draws w..<draws w']"
    and "\<forall>x \<in> set (w_deliveries w). x \<notin> set rows \<longrightarrow> x \<in> set (w_deliveries w')"
    and "\<forall>d \<in> set rows. \<exists>d' \<in> set (w_deliveries w'). claimed_row now g l claims d d'"
proof -
  have run: "processed = length rows" "fold (claim_one env now g l) rows ([], w) = (claims, w')"
    using assms(1) by (auto simp: claim_due_batch_def rows_def Let_def split: prod.splits)
  have sub: "set rows \<subseteq> set (w_deliveries w)" "\<forall>d \<in> set rows. open_delivery d"
    unfolding rows_def using due_rowsD(1,2) claimable_open by blast+
  have "distinct (map d_id rows)"
    unfolding rows_def due_rows_def by (rule batch_distinct [OF reminders_ids [OF assms(2)]])
  from claim_loop [OF run(2) sub(1) this sub(2) assms(2,3)] run(1)
  show "processed = length rows" "reminder_safe env w w'"
    and "map fst claims = map d_id (filter (\<lambda>d. \<not> d_due_at d < now - seconds g) rows)"
    and "map snd claims = map (uuid4 env) [draws w..<draws w']"
    and "\<forall>x \<in> set (w_deliveries w). x \<notin> set rows \<longrightarrow> x \<in> set (w_deliveries w')"
    and "\<forall>d \<in> set rows. \<exists>d' \<in> set (w_deliveries w'). claimed_row now g l claims d d'"
    by simp_all
qed

lemma claim_batch_safe:
  "claim_due_batch env locked now g l lim w = ((claims, processed), w') \<Longrightarrow> reminder_safe env w w'"
  using claim_batch_loop(2) unfolding reminder_safe_def by blast

lemma claim_due_batch_of:
  "claim_due env locked now g l lim w = (claims, w') \<Longrightarrow>
     \<exists>k. claim_due_batch env locked now g l lim w = ((claims, k), w')"
  by (auto simp: claim_due_def split: prod.splits)

end
