(* ===== verification/ReminderProperties.thy ===== *)
theory ReminderProperties
  imports ReminderSafety
begin

section \<open>Properties of the reminder jobs\<close>

text \<open>
  The functional behaviour of a claim, of the authorization boundary and of a delivery, the
  termination of the scan under a positive lease, and the link between the address check of the
  API and the one before the send. The concrete instances run on one note whose reminder is due.
\<close>

subsection \<open>A due reminder\<close>

definition claimed_world :: world where
  "claimed_world = sample_world\<lparr>w_deliveries := [lease_delivery 7 (minutes 111) sample_delivery]\<rparr>"

lemma claimed_world_ok: "reminders_ok claimed_world"
  unfolding claimed_world_def lease_delivery_def
  by (simp add: reminders_ok_def reminder_rows_wf_def rule_state_def rule_ok_def cycles_ok_def due_ok_def
      open_ok_def sample_defs shape_simps live_note_def due_at_def minutes_def seconds_def)

lemma claimed_world_fresh: "fresh sample_env claimed_world"
  by (simp add: fresh_def used_ids_def claimed_world_def lease_delivery_def sample_defs sample_env_def inj_def)

subsection \<open>Claiming\<close>

text \<open>
  C9: a claim handles the first \<open>limit\<close> due rows that nobody holds, oldest deadline first: a row
  past the grace period becomes missed, every other row is leased until \<open>now\<close> plus the lease
  under a token of its own, exactly the leased rows are returned, all other deliveries stay as
  they are, and the invariant of reminders holds afterwards.
\<close>

theorem claim_due_correct:
  assumes "reminders_ok w" "fresh env w"
    and "claim_due env locked now grace lease limit w = (claims, w')"
  shows "let rows = take limit (due_rows locked now w) in
    reminders_ok w' \<and> distinct (map snd claims)
    \<and> map fst claims = map d_id (filter (\<lambda>d. now - seconds grace \<le> d_due_at d) rows)
    \<and> (\<forall>d \<in> set rows. \<exists>d' \<in> set (w_deliveries w'). claimed_row now grace lease claims d d')
    \<and> (\<forall>d \<in> set (w_deliveries w) - set rows. d \<in> set (w_deliveries w'))"
proof -
  obtain k where "claim_due_batch env locked now grace lease limit w = ((claims, k), w')"
    using claim_due_batch_of [OF assms(3)] by blast
  note loop = claim_batch_loop [OF this assms(1,2)]
  have "inj (uuid4 env)" using assms(2) by (simp add: fresh_def)
  then have "distinct (map snd claims)"
    unfolding loop(4) by (simp add: distinct_map inj_on_subset [OF _ subset_UNIV])
  moreover have "reminders_ok w'" using loop(2) assms(1,2) by (simp add: reminder_safe_def)
  ultimately show ?thesis using loop(3,5,6) by (simp add: Let_def not_less)
qed

theorem claim_due_correct_witness:
  "\<exists>claims w'. claim_due sample_env (\<lambda>_. False) (minutes 110) 60 30 100 sample_world = (claims, w')
     \<and> map fst claims = [3] \<and> reminders_ok w'"
proof -
  obtain claims w' where run: "claim_due sample_env (\<lambda>_. False) (minutes 110) 60 30 100 sample_world = (claims, w')"
    by fastforce
  have "due_rows (\<lambda>_. False) (minutes 110) sample_world = [sample_delivery]"
    by (simp add: due_rows_def claimable_def sample_defs)
  with claim_due_correct [OF sample_reminders_ok sample_fresh run] run show ?thesis
    by (simp add: sample_delivery_def seconds_def)
qed

subsection \<open>The boundary\<close>

text \<open>
  C7: \<open>authorize_delivery\<close> lets an email out only for a delivery that is claimed under the given
  token, is the current cycle of an enabled rule of a live note, was never attempted before and
  is due (at the note's start less the offset) now or at most the grace period ago. Then the
  delivery counts as attempted, exactly one notification is written, for this delivery and with
  the note's content, and the email carries the note to the current address of the profile.
\<close>

theorem authorize_delivery_boundary:
  assumes "reminders_ok w"
    and "authorize_delivery env i token now grace w = Inr (Some e, w')"
  shows "\<exists>d r n nf. may_send w i token now grace d r n
    \<and> d_due_at d = due_at (n_starts_at n) (r_offset_minutes r)
    \<and> e = reminder_email (recipient_of env w) n d
    \<and> i \<notin> attempted_ids w \<and> i \<in> attempted_ids w'
    \<and> w_notifications w' = w_notifications w @ [nf] \<and> nf_reminder_delivery_id nf = i
    \<and> nf_title nf = n_title n \<and> nf_body nf = n_body n \<and> nf_scheduled_at nf = d_due_at d"
  using assms(2)
proof (cases rule: authorize_cases)
  case (granted d r n nf)
  then have ctx: "delivery_context w i = Some (d, r, n)" "r_enabled r"
    "r_current_cycle_number r = d_cycle_number d"
    by (simp_all add: may_send_def)
  note mem = delivery_contextD [OF ctx(1)]
  have "rule_ok n r (dels (r_id r) (w_deliveries w))"
    using assms(1) mem(3,5,6) by (simp add: reminders_ok_def rule_state_def)
  then have "d_due_at d = due_at (n_starts_at n) (r_offset_minutes r)"
    using ctx mem by (simp add: rule_ok_def due_ok_def)
  with granted authorize_attempts [OF assms(2,1)] mem(2) show ?thesis
    by (intro exI [of _ d] exI [of _ r] exI [of _ n] exI [of _ nf]) simp
qed simp_all

lemma authorize_example:
  "\<exists>w'. authorize_delivery sample_env 3 7 (minutes 110) 60 claimed_world =
     Inr (Some (reminder_email ''demo@example.test'' sample_note sample_delivery), w')"
  by (simp add: authorize_delivery_def delivery_context_def claimed_world_def lease_delivery_def
      sample_defs recipient_of_def profile_id_def new_uuid_def minutes_def seconds_def
      set_delivery_def update_where_def reminder_email_def strip_def is_space_def code_point_def Let_def)

theorem authorize_delivery_boundary_witness:
  "\<exists>e w' d r n. authorize_delivery sample_env 3 7 (minutes 110) 60 claimed_world = Inr (Some e, w')
     \<and> may_send claimed_world 3 7 (minutes 110) 60 d r n \<and> 3 \<in> attempted_ids w'"
  using authorize_example authorize_delivery_boundary [OF claimed_world_ok] by blast

subsection \<open>Delivering\<close>

lemma send_outcome_cases:
  "send_outcome send e = (c, u) \<Longrightarrow> (u \<longrightarrow> c \<noteq> None)
     \<and> (c = None \<longleftrightarrow> valid_recipient (em_recipient e) \<and> send e = None)"
  by (auto simp: send_outcome_def split: if_splits option.splits)

lemma record_outcome_state:
  assumes "record_outcome env i c u w = Inr w'" "d \<in> set (w_deliveries w)" "d_id d = i"
    and "d_state d = AttemptStarted" "reminders_ok w"
  shows "\<exists>d' \<in> set (w_deliveries w'). d_id d' = i
    \<and> d_state d' = (if u then Unknown else if c \<noteq> None then Failed else Sent)"
proof -
  have "find (\<lambda>d. d_id d = i) (w_deliveries w) = Some d"
    using delivery_row.find_pk [OF reminders_ids [OF assms(5)]] assms(2,3) by simp
  then have "w_deliveries w' = update_where (\<lambda>x. d_id x = i) (finish_attempt c u (clock env (ticks w))) (w_deliveries w)"
    using assms(1,3,4)
    by (auto simp: record_outcome_def utcnow_def record_visible_email_failure_def row_simps Let_def
        split: if_splits option.splits)
  then have "finish_attempt c u (clock env (ticks w)) d \<in> set (w_deliveries w')"
    using assms(2,3) by (auto simp: row_simps)
  then show ?thesis
    using assms(3) by (intro bexI [of _ "finish_attempt c u (clock env (ticks w)) d"])
      (simp_all add: finish_attempt_def)
qed

lemma authorize_row:
  assumes "authorize_delivery env i token now g w = Inr (Some e, w')"
  shows "\<exists>d \<in> set (w_deliveries w'). d_id d = i \<and> d_state d = AttemptStarted"
  using assms
proof (cases rule: authorize_cases)
  case (granted d r n nf)
  then have "d \<in> set (w_deliveries w)" "d_id d = i" using delivery_contextD(1,2) by (auto simp: may_send_def)
  then show ?thesis
    unfolding granted(3) row_simps
    by (intro bexI [of _ "start_attempt now (recipient_of env w) n d"])
      (auto simp: start_attempt_def set_update_where)
qed simp_all

lemma deliver_result:
  assumes "reminders_ok w" "fresh env w" "deliver env i token send w = (Inr ok, w', sent)"
  shows "reminders_ok w' \<and> (ok \<longleftrightarrow> (\<exists>e. sent = [e] \<and> send e = None))
    \<and> (sent = [] \<or> (\<exists>e. sent = [e] \<and> i \<notin> attempted_ids w
        \<and> (\<exists>d \<in> set (w_deliveries w'). d_id d = i \<and> d_state d =
             (case send e of None \<Rightarrow> Sent | Some x \<Rightarrow> if ambiguous_smtp_error x then Unknown else Failed))))"
proof -
  let ?now = "clock env (ticks w)" and ?w0 = "begin_tx env (w\<lparr>ticks := Suc (ticks w)\<rparr>)"
  have s0: "reminder_safe env w ?w0"
    by (rule reminder_safe_frame) (simp_all add: begin_tx_def grows_def used_ids_def)
  then have ok0: "reminders_ok ?w0" "fresh env ?w0" using assms(1,2) by (simp_all add: reminder_safe_def)
  have att0: "attempted_ids ?w0 = attempted_ids w" by (simp add: attempted_ids_def begin_tx_def)
  obtain r w1 where auth: "authorize_delivery env i token ?now (reminder_grace_seconds env) ?w0 = Inr (r, w1)"
    using assms(3) by (auto simp: deliver_def utcnow_def split: sum.splits)
  have ok1: "reminders_ok w1" "fresh env w1"
    using authorize_safe [OF auth] ok0 by (simp_all add: reminder_safe_def)
  show ?thesis
  proof (cases r)
    case None
    with assms(3) auth ok1 show ?thesis by (auto simp: deliver_def utcnow_def)
  next
    case (Some e)
    obtain c u where out: "send_outcome send e = (c, u)" by fastforce
    obtain w2 where rec: "record_outcome env i c u (begin_tx env w1) = Inr w2"
      and res: "w' = w2" "ok \<longleftrightarrow> c = None" "sent = (if valid_recipient (em_recipient e) then [e] else [])"
      using assms(3) auth Some out by (auto simp: deliver_def utcnow_def Let_def split: sum.splits)
    note auth = auth [unfolded Some]
    have "reminder_safe env w1 (begin_tx env w1)" by (rule begin_tx_safe)
    then have ok2: "reminders_ok (begin_tx env w1)" "fresh env (begin_tx env w1)"
      using ok1 by (simp_all add: reminder_safe_def)
    have "u \<Longrightarrow> c \<noteq> None" using send_outcome_cases [OF out] by blast
    from record_outcome_safe [OF rec this] have inv: "reminders_ok w'"
      using ok2 res(1) by (simp add: reminder_safe_def)
    obtain d where d: "d \<in> set (w_deliveries (begin_tx env w1))" "d_id d = i" "d_state d = AttemptStarted"
      using authorize_row [OF auth] by (auto simp: row_simps)
    from record_outcome_state [OF rec d ok2(1)] res(1)
    have row: "\<exists>d' \<in> set (w_deliveries w'). d_id d' = i
        \<and> d_state d' = (if u then Unknown else if c \<noteq> None then Failed else Sent)" by simp
    have "i \<notin> attempted_ids w" using authorize_attempts(1) [OF auth ok0(1)] att0 by simp
    with inv row res(2,3) out show ?thesis
      by (auto simp: send_outcome_def split: if_splits option.splits)
  qed
qed

text \<open>
  C8: a call of \<open>deliver\<close> that returns hands at most one email to the sender, and only for a
  delivery that was not attempted before; it returns true exactly when that email was accepted,
  and then the delivery is recorded as sent; when the email was refused the delivery is recorded
  as failed or, if the server may have accepted it, as unknown. The invariant is kept.
\<close>

theorem deliver_outcome:
  assumes "reminders_ok w" "fresh env w" "deliver env i token send w = (Inr ok, w', sent)"
  shows "reminders_ok w' \<and> (ok \<longleftrightarrow> (\<exists>e. sent = [e] \<and> send e = None))
    \<and> (sent = [] \<or> (\<exists>e. sent = [e] \<and> i \<notin> attempted_ids w
        \<and> (\<exists>d \<in> set (w_deliveries w'). d_id d = i \<and> d_state d =
             (case send e of None \<Rightarrow> Sent | Some x \<Rightarrow> if ambiguous_smtp_error x then Unknown else Failed))))"
  by (rule deliver_result [OF assms])

lemma claimed_later:
  "reminders_ok (claimed_world\<lparr>ticks := k\<rparr>)" "fresh sample_env (claimed_world\<lparr>ticks := k\<rparr>)"
  using claimed_world_ok claimed_world_fresh
  by (simp_all add: reminders_ok_def reminder_rows_wf_def rule_state_def fresh_def used_ids_def)

lemmas deliver_evaluation = deliver_def utcnow_def begin_tx_def authorize_delivery_def
  delivery_context_def claimed_world_def lease_delivery_def sample_defs recipient_of_def profile_id_def
  new_uuid_def minutes_def seconds_def set_delivery_def update_where_def reminder_email_def strip_def
  is_space_def code_point_def Let_def sample_env_def send_outcome_def valid_recipient_def
  partition_at_def record_outcome_def record_visible_email_failure_def notification_event_def
  start_attempt_def finish_attempt_def ambiguous_smtp_error_def

theorem deliver_outcome_witness:
  "\<exists>w' e. deliver sample_env 3 7 (\<lambda>_. Some TimeoutExn) (claimed_world\<lparr>ticks := 6599\<rparr>) = (Inr False, w', [e])
     \<and> reminders_ok w' \<and> (\<exists>d \<in> set (w_deliveries w'). d_id d = 3 \<and> d_state d = Unknown)"
proof -
  have "\<exists>w' e. deliver sample_env 3 7 (\<lambda>_. Some TimeoutExn) (claimed_world\<lparr>ticks := 6599\<rparr>) = (Inr False, w', [e])"
    by (simp add: deliver_evaluation)
  then obtain w' e where run: "deliver sample_env 3 7 (\<lambda>_. Some TimeoutExn) (claimed_world\<lparr>ticks := 6599\<rparr>)
      = (Inr False, w', [e])" by blast
  from deliver_outcome [OF claimed_later run] run show ?thesis
    by (auto simp: ambiguous_smtp_error_def)
qed

subsection \<open>The scan\<close>

text \<open>The identifiers a later batch could still claim: under a positive lease a batch uses them up.\<close>

definition claimable_ids :: "instant \<Rightarrow> world \<Rightarrow> uuid set" where
  "claimable_ids now w = d_id ` {d \<in> set (w_deliveries w). claimable now d}"

lemma claim_loop_ids:
  "fold (claim_one env now g l) rows (c, w) = (c', w') \<Longrightarrow>
     map d_id (w_deliveries w') = map d_id (w_deliveries w)"
proof (induction rows arbitrary: c w)
  case (Cons d rows)
  obtain c1 w1 where one: "claim_one env now g l d (c, w) = (c1, w1)" by fastforce
  have "map d_id (w_deliveries w1) = map d_id (w_deliveries w)"
    unfolding claim_one_rows(1) [OF one]
    by (rule map_update_same) (simp add: miss_delivery_def lease_delivery_def)
  with Cons one show ?case by simp
qed simp

lemma claimed_not_claimable:
  "0 < l \<Longrightarrow> claimed_row now g l claims d d' \<Longrightarrow> \<not> claimable now d' \<and> d_id d' = d_id d"
  by (auto simp: claimed_row_def miss_delivery_def lease_delivery_def claimable_def seconds_def split: if_splits)

lemma claim_batch_progress:
  assumes run: "claim_due_batch env locked now g l lim w = ((claims, processed), w')"
    and ok: "reminders_ok w" "fresh env w" and lease: "0 < l"
  shows "card (claimable_ids now w') + processed \<le> card (claimable_ids now w)"
proof -
  let ?rows = "take lim (due_rows locked now w)"
  note loop = claim_batch_loop [OF run ok]
  have dist: "distinct (map d_id ?rows)"
    unfolding due_rows_def by (rule batch_distinct [OF reminders_ids [OF ok(1)]])
  have ok': "reminders_ok w'" using loop(2) ok by (simp add: reminder_safe_def)
  obtain c where "fold (claim_one env now g l) ?rows ([], w) = (c, w')"
    using run by (auto simp: claim_due_batch_def Let_def split: prod.splits)
  from claim_loop_ids [OF this] have ids: "d_id ` set (w_deliveries w') = d_id ` set (w_deliveries w)"
    by (metis list.set_map)
  have rows: "d_id ` set ?rows \<subseteq> claimable_ids now w"
    using due_rowsD unfolding claimable_ids_def by blast
  have "claimable_ids now w' \<subseteq> claimable_ids now w - d_id ` set ?rows"
  proof
    fix i assume "i \<in> claimable_ids now w'"
    then obtain x' where x': "x' \<in> set (w_deliveries w')" "claimable now x'" "d_id x' = i"
      by (auto simp: claimable_ids_def)
    then obtain x where x: "x \<in> set (w_deliveries w)" "d_id x = i" using ids by (metis image_iff)
    have "x \<notin> set ?rows"
    proof
      assume "x \<in> set ?rows"
      with loop(6) obtain y where y: "y \<in> set (w_deliveries w')" "claimed_row now g l claims x y" by blast
      with claimed_not_claimable [OF lease y(2)] x x' delivery_unique [OF ok'] show False by metis
    qed
    then have "x \<in> set (w_deliveries w')" using loop(5) x(1) by blast
    then have "x = x'" using delivery_unique [OF ok'] x x' by metis
    with x x' have "i \<in> claimable_ids now w" unfolding claimable_ids_def by blast
    moreover have "i \<notin> d_id ` set ?rows"
    proof
      assume "i \<in> d_id ` set ?rows"
      then obtain y where y: "y \<in> set ?rows" "d_id y = i" by blast
      then have "y = x" using delivery_unique [OF ok(1) due_rowsD(1) [OF y(1)] x(1)] x(2) by simp
      with y(1) \<open>x \<notin> set ?rows\<close> show False by simp
    qed
    ultimately show "i \<in> claimable_ids now w - d_id ` set ?rows" by blast
  qed
  moreover have fin: "finite (claimable_ids now w)" by (simp add: claimable_ids_def)
  ultimately have "card (claimable_ids now w') \<le> card (claimable_ids now w - d_id ` set ?rows)"
    by (intro card_mono) simp_all
  moreover have "card (d_id ` set ?rows) = length ?rows"
    using dist by (metis distinct_card length_map list.set_map)
  moreover have "card (claimable_ids now w - d_id ` set ?rows) = card (claimable_ids now w) - card (d_id ` set ?rows)"
    by (rule card_Diff_subset [OF _ rows]) simp
  ultimately show ?thesis using card_mono [OF fin rows] loop(1) by linarith
qed

lemma scan_loop_ends:
  assumes "0 < reminder_claim_seconds env" "reminders_ok w" "fresh env w" "length calls = n"
  shows "\<exists>m calls' w'. scan_loop env locked now k calls n w = Some (m, calls', w')
    \<and> reminders_ok w' \<and> length calls' = m \<and> attempted_ids w \<subseteq> attempted_ids w'"
  using assms(2,3,4)
proof (induction "card (claimable_ids now w)" arbitrary: k calls n w rule: less_induct)
  case less
  let ?w0 = "begin_tx env w"
  have s0: "reminder_safe env w ?w0" by (rule begin_tx_safe)
  then have ok0: "reminders_ok ?w0" "fresh env ?w0" using less.prems by (simp_all add: reminder_safe_def)
  obtain claims processed w1 where batch: "claim_due_batch env (locked k) now (reminder_grace_seconds env)
      (reminder_claim_seconds env) 100 ?w0 = ((claims, processed), w1)" by (metis prod.exhaust)
  let ?calls = "calls @ map (\<lambda>(i, token). (uuid_text i, uuid_text token)) claims"
  have step: "scan_loop env locked now k calls n w =
      (if processed < 100 then Some (n + length claims, ?calls, w1)
       else scan_loop env locked now (Suc k) ?calls (n + length claims) w1)"
    by (subst scan_loop.simps) (simp add: batch Let_def)
  have s1: "reminder_safe env w w1" by (rule reminder_safe_trans [OF s0 claim_batch_safe [OF batch]])
  then have ok1: "reminders_ok w1" "fresh env w1" and att: "attempted_ids w \<subseteq> attempted_ids w1"
    using less.prems(1,2) by (simp_all add: reminder_safe_def)
  show ?case
  proof (cases "processed < 100")
    case True
    with step ok1 att less.prems(3) show ?thesis by simp
  next
    case False
    have "claimable_ids now ?w0 = claimable_ids now w" by (simp add: claimable_ids_def row_simps)
    with claim_batch_progress [OF batch ok0 assms(1)] False
    have dec: "card (claimable_ids now w1) < card (claimable_ids now w)" by simp
    from less.hyps [OF dec ok1, of ?calls "n + length claims" "Suc k"] less.prems(3)
    obtain m calls' w' where "scan_loop env locked now (Suc k) ?calls (n + length claims) w1 = Some (m, calls', w')"
      "reminders_ok w'" "length calls' = m" "attempted_ids w1 \<subseteq> attempted_ids w'" by auto
    with step False att show ?thesis by auto
  qed
qed



subsection \<open>Addresses\<close>

text \<open>
  An address the API accepted for the profile is one the delivery accepts as a recipient, as
  it stands and stripped: no reminder fails with \<open>invalid_recipient\<close> because of it.
\<close>

theorem validated_email_is_recipient:
  assumes "validate_email value = Inr email"
  shows "valid_recipient email \<and> strip email = email"
proof -
  have m: "email_matches value" "email = value" using assms by simp_all
  then have ns: "\<forall>c \<in> set email. \<not> is_space c" using email_matches_plain by simp
  then have st: "strip email = email" by (rule strip_id_no_space)
  from m obtain a b h where p: "partition_at (CHR ''@'') email = (a, b, h)"
    "a \<noteq> []" "b \<noteq> []" "CHR ''.'' \<in> set (butlast (tl h))"
    unfolding email_matches_def by (cases "partition_at (CHR ''@'') email") auto
  then have "h \<noteq> []" by auto
  with p ns st show ?thesis by (simp add: valid_recipient_def list_all_iff)
qed

theorem validated_email_is_recipient_witness:
  "validate_email ''a@b.c'' = Inr ''a@b.c'' \<and> valid_recipient ''a@b.c''"
proof -
  have "validate_email ''a@b.c'' = Inr ''a@b.c''"
    by (simp add: email_matches_def partition_at_def plain_def is_space_def code_point_def)
  with validated_email_is_recipient [OF this] show ?thesis by simp
qed

end
