(* ===== verification/Outbox.thy ===== *)
theory Outbox
  imports Common "HOL-Library.Option_ord"
begin

section \<open>Publication of the outbox (app/jobs/outbox.py)\<close>

text \<open>
  A batch takes the unpublished events whose next attempt is due and that no other transaction
  holds, oldest first, and publishes each; a refusal is recorded with an exponential back-off.
  \<open>accepts\<close> is the broker: whether \<open>publish\<close> returns on that text or raises.
\<close>

definition channel :: string where
  "channel = ''notetaker.events''"

text \<open>The payload as the JSON document it is stored as, keys in the order they are written.\<close>

definition iso :: "instant \<Rightarrow> json" where
  "iso t = (case isoformat t of None \<Rightarrow> JNull | Some s \<Rightarrow> JStr s)"

definition payload_json :: "payload \<Rightarrow> json" where
  "payload_json p = JObj (
     [(''event_id'', JStr (uuid_text (p_event_id p))), (''type'', JStr (p_type p)),
      (''occurred_at'', iso (p_occurred_at p)), (''entity_id'', JStr (uuid_text (p_entity_id p)))]
     @ (case p_notification_id p of None \<Rightarrow> [] | Some i \<Rightarrow> [(''notification_id'', JStr (uuid_text i))])
     @ [(''version'', JInt (p_version p)),
        (''series_id'', case p_series_id p of None \<Rightarrow> JNull | Some s \<Rightarrow> JStr (uuid_text s))])"

definition event_text :: "outbox_event \<Rightarrow> string" where
  "event_text e = dumps '','' '':'' (payload_json (ev_payload e))"

definition publishable :: "instant \<Rightarrow> outbox_event \<Rightarrow> bool" where
  "publishable now e \<longleftrightarrow> ev_published_at e = None
     \<and> (case ev_next_attempt_at e of None \<Rightarrow> True | Some t \<Rightarrow> t \<le> now)"

definition outbox_rows :: "(uuid \<Rightarrow> bool) \<Rightarrow> instant \<Rightarrow> nat \<Rightarrow> world \<Rightarrow> outbox_event list" where
  "outbox_rows locked now limit w =
     take limit (sort_key (\<lambda>e. (ev_created_at e, ev_id e))
       (filter (\<lambda>e. publishable now e \<and> \<not> locked (ev_id e)) (w_outbox w)))"

definition backoff :: "int \<Rightarrow> int" where
  "backoff attempts = min 60 (2 ^ nat (min (attempts - 1) 6))"

text \<open>What one attempt makes of a row.\<close>

definition attempt_event :: "(string \<Rightarrow> string \<Rightarrow> bool) \<Rightarrow> instant \<Rightarrow> outbox_event \<Rightarrow> outbox_event" where
  "attempt_event accepts now e =
     (let attempts = ev_attempts e + 1
      in if accepts channel (event_text e)
         then e\<lparr>ev_attempts := attempts, ev_published_at := Some now, ev_next_attempt_at := None,
                ev_error_code := None\<rparr>
         else e\<lparr>ev_attempts := attempts, ev_error_code := Some ''outbox_publish_failed'',
                ev_next_attempt_at := Some (now + seconds (backoff attempts))\<rparr>)"

definition publish_one ::
  "(string \<Rightarrow> string \<Rightarrow> bool) \<Rightarrow> instant \<Rightarrow> outbox_event \<Rightarrow> nat \<times> world \<Rightarrow> nat \<times> world" where
  "publish_one accepts now e = (\<lambda>(published, w).
     (if accepts channel (event_text e) then Suc published else published,
      w\<lparr>w_outbox := update_where (\<lambda>x. ev_id x = ev_id e) (attempt_event accepts now) (w_outbox w)\<rparr>))"

definition publish_batch ::
  "(string \<Rightarrow> string \<Rightarrow> bool) \<Rightarrow> (uuid \<Rightarrow> bool) \<Rightarrow> instant \<Rightarrow> nat \<Rightarrow> world \<Rightarrow> nat \<times> world" where
  "publish_batch accepts locked now limit w =
     fold (publish_one accepts now) (outbox_rows locked now limit w) (0, w)"

text \<open>\<open>publish_outbox\<close>: one batch of 100 in a transaction of its own.\<close>

definition publish_outbox ::
  "env \<Rightarrow> (string \<Rightarrow> string \<Rightarrow> bool) \<Rightarrow> (uuid \<Rightarrow> bool) \<Rightarrow> world \<Rightarrow> nat \<times> world" where
  "publish_outbox env accepts locked w =
     (let w = begin_tx env w; (now, w) = utcnow env w in publish_batch accepts locked now 100 w)"

subsection \<open>Properties\<close>

text \<open>A row as it may be in the table: attempts counted from 0, the CHECK constraints satisfied.\<close>

definition event_ok :: "outbox_event \<Rightarrow> bool" where
  "event_ok e \<longleftrightarrow> 0 \<le> ev_attempts e \<and> outbox_shape e \<and> outbox_error_allowed e"

lemma attempt_event_simps [simp]: "ev_id (attempt_event a now e) = ev_id e"
  "ev_payload (attempt_event a now e) = ev_payload e" "ev_created_at (attempt_event a now e) = ev_created_at e"
  "event_text (attempt_event a now e) = event_text e"
  "ev_attempts (attempt_event a now e) = ev_attempts e + 1"
  by (simp_all add: attempt_event_def event_text_def Let_def)

interpretation outbox_row: keyed_rows ev_id "attempt_event accepts now" for accepts now
  by unfold_locales simp

lemma attempt_event_ok:
  assumes "event_ok e" "ev_published_at e = None"
  shows "event_ok (attempt_event a now e)"
  using assms
  by (cases "a channel (event_text e)")
    (simp_all add: event_ok_def attempt_event_def outbox_shape_def outbox_error_allowed_def Let_def)

lemma backoff_bounds: "1 \<le> backoff n" "backoff n \<le> 60"
  by (simp_all add: backoff_def)

text \<open>The batch as one pass over the table.\<close>

lemma publish_fold:
  assumes "distinct (map ev_id rows)"
  shows "fold (publish_one accepts now) rows (n, w) =
    (n + length (filter (\<lambda>e. accepts channel (event_text e)) rows),
     w\<lparr>w_outbox := update_where (\<lambda>x. ev_id x \<in> ev_id ` set rows) (attempt_event accepts now) (w_outbox w)\<rparr>)"
  using assms
proof (induction rows arbitrary: n w)
  case Nil
  then show ?case by (simp add: update_where_def)
next
  case (Cons e rows)
  then have "update_where (\<lambda>x. ev_id x \<in> ev_id ` set rows) (attempt_event accepts now)
      (update_where (\<lambda>x. ev_id x = ev_id e) (attempt_event accepts now) es) =
      update_where (\<lambda>x. ev_id x \<in> ev_id ` set (e # rows)) (attempt_event accepts now) es" for es
    by (auto simp: update_where_def)
  with Cons show ?case by (simp add: publish_one_def)
qed

lemma outbox_rows_distinct:
  "distinct (map ev_id (w_outbox w)) \<Longrightarrow> distinct (map ev_id (outbox_rows locked now limit w))"
  unfolding outbox_rows_def by (rule batch_distinct)

lemma outbox_rowsD:
  "e \<in> set (outbox_rows locked now limit w) \<Longrightarrow> e \<in> set (w_outbox w) \<and> publishable now e \<and> \<not> locked (ev_id e)"
  unfolding outbox_rows_def by (auto dest: in_set_takeD)

text \<open>
  C24: a batch attempts exactly the selected rows, each once, and reports how many the broker
  took; every other event is untouched. An accepted event is marked published and is never
  selected again; a refused one keeps its payload and waits at least a second and at most a
  minute. The constraints of the table hold afterwards.
\<close>

theorem publish_batch_correct:
  assumes "distinct (map ev_id (w_outbox w))" "\<forall>e \<in> set (w_outbox w). event_ok e"
    and "publish_batch accepts locked now limit w = (published, w')"
  shows "let rows = outbox_rows locked now limit w in
    w_outbox w' = map (\<lambda>e. if e \<in> set rows then attempt_event accepts now e else e) (w_outbox w)
    \<and> published = length (filter (\<lambda>e. accepts channel (event_text e)) rows)
    \<and> (\<forall>e \<in> set (w_outbox w'). event_ok e)
    \<and> (\<forall>e \<in> set rows. if accepts channel (event_text e)
         then (\<forall>later. \<not> publishable later (attempt_event accepts now e))
         else (\<exists>t. ev_next_attempt_at (attempt_event accepts now e) = Some t
                 \<and> now + seconds 1 \<le> t \<and> t \<le> now + seconds 60))"
proof -
  let ?rows = "outbox_rows locked now limit w"
  have same: "ev_id e \<in> ev_id ` set ?rows \<longleftrightarrow> e \<in> set ?rows" if e: "e \<in> set (w_outbox w)" for e
  proof
    assume "ev_id e \<in> ev_id ` set ?rows"
    then obtain x where x: "x \<in> set ?rows" "ev_id e = ev_id x" by blast
    then have "e = x" using outbox_rowsD distinct_map_eqD [OF assms(1) e] by blast
    with x(1) show "e \<in> set ?rows" by simp
  qed simp
  have res: "published = length (filter (\<lambda>e. accepts channel (event_text e)) ?rows)"
    "w_outbox w' = update_where (\<lambda>x. ev_id x \<in> ev_id ` set ?rows) (attempt_event accepts now) (w_outbox w)"
    using assms(3) publish_fold [OF outbox_rows_distinct [OF assms(1)], of accepts now locked now limit 0 w]
    by (auto simp: publish_batch_def)
  have eq: "w_outbox w' = map (\<lambda>e. if e \<in> set ?rows then attempt_event accepts now e else e) (w_outbox w)"
    unfolding res(2) update_where_def using same by simp
  have ok: "event_ok (attempt_event accepts now e)" if "e \<in> set ?rows" for e
    using outbox_rowsD [OF that] assms(2) by (intro attempt_event_ok) (auto simp: publishable_def)
  have later: "if accepts channel (event_text e)
         then (\<forall>later. \<not> publishable later (attempt_event accepts now e))
         else (\<exists>t. ev_next_attempt_at (attempt_event accepts now e) = Some t
                 \<and> now + seconds 1 \<le> t \<and> t \<le> now + seconds 60)" for e
    using backoff_bounds [of "ev_attempts e + 1"]
    by (simp add: attempt_event_def publishable_def seconds_def Let_def)
  show ?thesis
    unfolding Let_def using eq res(1) ok later assms(2) by auto
qed

definition sample_event :: outbox_event where
  "sample_event = \<lparr>ev_id = 9, ev_event_type = ''note.created'', ev_entity_id = Some 1,
     ev_payload = \<lparr>p_event_id = 9, p_type = ''note.created'', p_occurred_at = 0, p_entity_id = 1,
       p_notification_id = None, p_version = 1, p_series_id = None\<rparr>,
     ev_created_at = 0, ev_published_at = None, ev_attempts = 2, ev_next_attempt_at = Some 4,
     ev_error_code = Some ''outbox_publish_failed''\<rparr>"

theorem publish_batch_correct_witness:
  "w_outbox (snd (publish_batch (\<lambda>c s. c = channel) (\<lambda>i. False) 5 100
      (empty_world\<lparr>w_outbox := [sample_event]\<rparr>))) =
     [sample_event\<lparr>ev_attempts := 3, ev_published_at := Some 5, ev_next_attempt_at := None,
        ev_error_code := None\<rparr>]"
proof -
  let ?w = "empty_world\<lparr>w_outbox := [sample_event]\<rparr>"
  let ?r = "publish_batch (\<lambda>c s. c = channel) (\<lambda>i. False) 5 100 ?w"
  have "distinct (map ev_id (w_outbox ?w))" "\<forall>e \<in> set (w_outbox ?w). event_ok e"
    by (simp_all add: sample_event_def event_ok_def outbox_shape_def outbox_error_allowed_def)
  from publish_batch_correct [OF this, of "\<lambda>c s. c = channel" "\<lambda>i. False" 5 100 "fst ?r" "snd ?r"]
  show ?thesis
    by (simp add: Let_def outbox_rows_def publishable_def sample_event_def attempt_event_def)
qed

end
