(* ===== verification/Realtime.thy ===== *)
theory Realtime
  imports Outbox
begin

section \<open>Realtime fan-out (app/realtime/broker.py)\<close>

text \<open>
  The connection manager keeps the open sockets; a broadcast works on a snapshot of them, during
  which other tasks may connect and disconnect (\<open>meanwhile\<close>), and then drops the sockets whose
  send failed. The subscriber reconnects for ever: one round of its loop is a session with the
  broker, which fails to subscribe, or yields messages and then ends or fails. Its actions are
  the broadcasts, the \<open>resync_required\<close> notices and the pauses. \<open>loads\<close> is \<open>json.loads\<close>, \<open>None\<close>
  where it raises; an unfinished run is the list of the rounds so far.
\<close>

type_synonym socket = nat

definition connect :: "socket \<Rightarrow> socket list \<Rightarrow> socket list" where
  "connect s conns = (if s \<in> set conns then conns else conns @ [s])"

definition disconnect :: "socket \<Rightarrow> socket list \<Rightarrow> socket list" where
  "disconnect s conns = filter (\<lambda>x. x \<noteq> s) conns"

definition broadcast ::
  "(socket \<Rightarrow> string \<Rightarrow> bool) \<Rightarrow> (socket list \<Rightarrow> socket list) \<Rightarrow> string \<Rightarrow> socket list
    \<Rightarrow> (socket \<times> string) list \<times> socket list" where
  "broadcast send_ok meanwhile message conns =
     (let sockets = conns;
          dead = filter (\<lambda>s. \<not> send_ok s message) sockets;
          delivered = map (\<lambda>s. (s, message)) (filter (\<lambda>s. send_ok s message) sockets);
          conns = meanwhile conns
      in (delivered, filter (\<lambda>s. s \<notin> set dead) conns))"

definition resync_json :: "uuid \<Rightarrow> instant \<Rightarrow> json" where
  "resync_json event_id now = JObj
     [(''event_id'', JStr (uuid_text event_id)), (''type'', JStr ''resync_required''),
      (''occurred_at'', iso now), (''entity_id'', JNull), (''version'', JInt 1), (''series_id'', JNull)]"

subsection \<open>The subscriber\<close>

record redis_message =
  rm_type :: "string option"
  rm_data :: "string option"

datatype session_end = ListenEnded | ListenRaised

datatype session = SubscribeFailed | Session (messages: "redis_message list") (ending: session_end)

datatype action = Broadcast string | Resync | Pause int

fun json_get :: "string \<Rightarrow> (string \<times> json) list \<Rightarrow> json option" where
  "json_get k [] = None"
| "json_get k ((k', v) # kvs) =
     (case json_get k kvs of Some v' \<Rightarrow> Some v' | None \<Rightarrow> if k' = k then Some v else None)"

fun is_str :: "json option \<Rightarrow> bool" where
  "is_str (Some (JStr s)) = True"
| "is_str v = False"

fun event_document :: "json \<Rightarrow> bool" where
  "event_document (JObj kvs) = (is_str (json_get ''event_id'' kvs) \<and> is_str (json_get ''type'' kvs))"
| "event_document v = False"

definition forward :: "(string \<Rightarrow> json option) \<Rightarrow> redis_message \<Rightarrow> action list" where
  "forward loads m =
     (case rm_data m of
        None \<Rightarrow> []
      | Some text \<Rightarrow>
          if rm_type m \<noteq> Some ''message'' then []
          else (case loads text of
                  None \<Rightarrow> []
                | Some payload \<Rightarrow> if event_document payload then [Broadcast text] else []))"

text \<open>The state of the loop: the flag \<open>failed\<close> and the delay in seconds.\<close>

definition on_failure :: "bool \<times> int \<Rightarrow> action list \<times> bool \<times> int" where
  "on_failure = (\<lambda>(failed, delay).
     ((if \<not> failed then [Resync] else []) @ [Pause delay], True, min (delay * 2) 30))"

fun subscribe_round ::
  "(string \<Rightarrow> json option) \<Rightarrow> session \<Rightarrow> bool \<times> int \<Rightarrow> action list \<times> bool \<times> int" where
  "subscribe_round loads SubscribeFailed st = on_failure st"
| "subscribe_round loads (Session msgs e) (failed, delay) =
     (let acts = (if failed then [Resync] else []) @ concat (map (forward loads) msgs)
      in case e of
           ListenEnded \<Rightarrow> (acts, False, 1)
         | ListenRaised \<Rightarrow> (let (more, st) = on_failure (False, 1) in (acts @ more, st)))"

fun subscribe_run ::
  "(string \<Rightarrow> json option) \<Rightarrow> session list \<Rightarrow> bool \<times> int \<Rightarrow> action list \<times> bool \<times> int" where
  "subscribe_run loads [] st = ([], st)"
| "subscribe_run loads (s # ss) st =
     (let (acts, st) = subscribe_round loads s st; (more, st) = subscribe_run loads ss st
      in (acts @ more, st))"

definition subscribe :: "(string \<Rightarrow> json option) \<Rightarrow> session list \<Rightarrow> action list" where
  "subscribe loads sessions = fst (subscribe_run loads sessions (False, 1))"

subsection \<open>Properties\<close>

text \<open>
  A broadcast delivers the message to exactly the sockets open when it began whose send
  works; it closes those whose send failed and no other, in particular none that connected
  while it was under way.
\<close>

theorem broadcast_correct:
  "case broadcast send_ok meanwhile message conns of (delivered, conns') \<Rightarrow>
     set delivered = {(s, message) | s. s \<in> set conns \<and> send_ok s message}
     \<and> set conns' = set (meanwhile conns) - {s \<in> set conns. \<not> send_ok s message}"
  by (auto simp: broadcast_def)

text \<open>
  A client may have missed events as soon as the subscriber paused, until it is told to refetch;
  \<open>told\<close> says that no event is broadcast in between.
\<close>

fun told :: "bool \<Rightarrow> action list \<Rightarrow> bool" where
  "told missed [] = True"
| "told missed (Pause d # as) = told True as"
| "told missed (Resync # as) = told False as"
| "told missed (Broadcast m # as) = (\<not> missed \<and> told missed as)"

fun missed_after :: "bool \<Rightarrow> action list \<Rightarrow> bool" where
  "missed_after missed [] = missed"
| "missed_after missed (Pause d # as) = missed_after True as"
| "missed_after missed (Resync # as) = missed_after False as"
| "missed_after missed (Broadcast m # as) = missed_after missed as"

lemma told_append [simp]: "told m (xs @ ys) \<longleftrightarrow> told m xs \<and> told (missed_after m xs) ys"
  by (induction m xs rule: told.induct) auto

lemma missed_after_append [simp]: "missed_after m (xs @ ys) = missed_after (missed_after m xs) ys"
  by (induction m xs rule: told.induct) auto

lemma forward_only_broadcasts [simp]:
  "told False (forward loads m)" "missed_after b (forward loads m) = b"
  by (auto simp: forward_def split: option.splits if_splits)

lemma forwards_only_broadcast [simp]:
  "told False (concat (map (forward loads) ms))" "missed_after b (concat (map (forward loads) ms)) = b"
  by (induction ms) auto

lemma subscribe_round_told:
  assumes "subscribe_round loads s (failed, delay) = (acts, failed', delay')" "missed \<longrightarrow> failed"
  shows "told missed acts \<and> (missed_after missed acts \<longrightarrow> failed')"
  using assms by (cases s) (auto simp: on_failure_def Let_def split: session_end.splits if_splits)

lemma subscribe_run_told:
  "missed \<longrightarrow> failed \<Longrightarrow> told missed (fst (subscribe_run loads ss (failed, delay)))"
proof (induction ss arbitrary: missed failed delay)
  case (Cons s ss)
  obtain acts failed' delay' where r: "subscribe_round loads s (failed, delay) = (acts, failed', delay')"
    by (metis prod.exhaust)
  from subscribe_round_told [OF this Cons.prems] Cons.IH [of "missed_after missed acts" failed' delay'] r
  show ?case by (auto split: prod.splits)
qed simp

text \<open>
  C36: whatever the broker does, after a lost or refused subscription no event reaches the
  clients before they have been told to refetch.
\<close>

theorem subscribe_tells_clients: "told False (subscribe loads sessions)"
  unfolding subscribe_def by (rule subscribe_run_told) simp

lemma failures_pause:
  "fst (subscribe_run loads (replicate k SubscribeFailed) (True, d)) = map (\<lambda>j. Pause (min (2 ^ j * d) 30)) [0..<k]"
  if "1 \<le> d" "d \<le> 30"
  using that
proof (induction k arbitrary: d)
  case (Suc k)
  have m: "min (2 ^ j * min (d * 2) 30) 30 = min (2 ^ Suc j * d) (30::int)" for j :: nat
  proof (cases "d * 2 \<le> 30")
    case True
    then show ?thesis by (simp add: mult.commute mult.left_commute)
  next
    case False
    have "(1::int) * 30 \<le> 2 ^ j * 30" "(1::int) * 30 \<le> 2 ^ j * (d * 2)"
      using False by (intro mult_mono; simp)+
    with False show ?thesis by (simp add: mult.commute mult.left_commute)
  qed
  have c: "1 \<le> min (d * 2) 30" "min (d * 2) 30 \<le> 30" using Suc.prems by auto
  have step: "fst (subscribe_run loads (replicate (Suc k) SubscribeFailed) (True, d)) =
      Pause d # fst (subscribe_run loads (replicate k SubscribeFailed) (True, min (d * 2) 30))"
    by (simp add: on_failure_def split: prod.splits)
  have "[0..<Suc k] = 0 # map Suc [0..<k]" by (simp add: map_Suc_upt upt_conv_Cons del: upt_Suc)
  then have "map (\<lambda>j. Pause (min (2 ^ j * d) 30)) [0..<Suc k] =
      Pause d # map (\<lambda>j. Pause (min (2 ^ Suc j * d) 30)) [0..<k]"
    using Suc.prems by (simp add: comp_def del: upt_Suc power_Suc)
  then show ?case unfolding step Suc.IH [OF c] m by simp
qed simp

text \<open>
  C37: the pauses of the subscriber grow from one second by doubling up to half a minute: after
  \<open>k\<close> failed subscriptions in a row the next pause is \<open>min (2 ^ k) 30\<close>.
\<close>

theorem subscribe_backoff:
  "subscribe loads (replicate (Suc k) SubscribeFailed) =
     Resync # map (\<lambda>j. Pause (min (2 ^ j) 30)) [0..<Suc k]"
proof -
  have first: "subscribe loads (replicate (Suc k) SubscribeFailed) =
      [Resync, Pause 1] @ fst (subscribe_run loads (replicate k SubscribeFailed) (True, 2))"
    by (simp add: subscribe_def on_failure_def split: prod.splits)
  have "fst (subscribe_run loads (replicate k SubscribeFailed) (True, 2)) = map (\<lambda>j. Pause (min (2 ^ j * 2) 30)) [0..<k]"
    by (rule failures_pause) simp_all
  also have "\<dots> = map ((\<lambda>j. Pause (min (2 ^ j) 30)) \<circ> Suc) [0..<k]" by (simp add: comp_def mult.commute)
  also have "\<dots> = map (\<lambda>j. Pause (min (2 ^ j) 30)) [Suc 0..<Suc k]" by (simp only: map_map [symmetric] map_Suc_upt)
  finally show ?thesis unfolding first by (simp add: upt_conv_Cons del: upt_Suc)
qed

text \<open>
  An event published by the outbox is forwarded verbatim by the subscriber, whatever its
  content: the text written by \<open>json.dumps\<close> passes the subscriber's checks once \<open>json.loads\<close>
  reads it back.
\<close>

theorem published_event_is_forwarded:
  assumes "loads (event_text e) = Some (payload_json (ev_payload e))"
  shows "forward loads \<lparr>rm_type = Some ''message'', rm_data = Some (event_text e)\<rparr> = [Broadcast (event_text e)]"
  using assms by (auto simp: forward_def payload_json_def split: option.splits)

end
