(* ===== verification/Live.thy ===== *)
theory Live
  imports Realtime JsonReader
begin

section \<open>The websocket route (app/realtime/router.py)\<close>

text \<open>
  The route of one socket: \<open>connect\<close>, the wait for messages, and \<open>disconnect\<close> however it ends.
  The routes of all sockets, the broadcasts under way and the manager they share are one state
  machine; its steps interleave freely.
\<close>

subsection \<open>One route\<close>

text \<open>What \<open>receive_text\<close> yields: a text, the end of the socket, or another exception.\<close>

datatype received = ReceivedText string | SocketClosed | ReceiveRaised

datatype route_end = StillOpen | Returned | RouteRaised

fun receive_loop :: "received list \<Rightarrow> route_end" where
  "receive_loop [] = StillOpen"
| "receive_loop (ReceivedText t # rs) = receive_loop rs"
| "receive_loop (SocketClosed # rs) = Returned"
| "receive_loop (ReceiveRaised # rs) = RouteRaised"

text \<open>\<open>meanwhile\<close> is what the other tasks do to the manager while the route waits.\<close>

definition websocket_events ::
  "socket \<Rightarrow> bool \<Rightarrow> received list \<Rightarrow> (socket list \<Rightarrow> socket list) \<Rightarrow> socket list \<Rightarrow> route_end \<times> socket list" where
  "websocket_events s accepted rs meanwhile conns =
     (if \<not> accepted then (RouteRaised, conns)
      else let conns = meanwhile (connect s conns); e = receive_loop rs
           in (e, if e = StillOpen then conns else disconnect s conns))"

lemma ended_route_is_unregistered:
  "websocket_events s True rs meanwhile conns = (e, conns') \<Longrightarrow> e \<noteq> StillOpen \<Longrightarrow> s \<notin> set conns'"
  by (auto simp: websocket_events_def disconnect_def Let_def)

subsection \<open>All routes\<close>

text \<open>
  \<open>hb_open\<close> are the sockets whose route is in its wait, \<open>hb_failed\<close> those a send to which has ever
  failed, \<open>hb_sends\<close> the broadcasts under way: message, sockets of the snapshot not yet sent to, and
  the dead ones found so far.
\<close>

record hub =
  hb_conns :: "socket list"
  hb_open :: "socket set"
  hb_failed :: "socket set"
  hb_sends :: "(string \<times> socket list \<times> socket list) list"
  hb_delivered :: "(socket \<times> string) list"

inductive hub_step :: "hub \<Rightarrow> hub \<Rightarrow> bool" where
  route_starts: "s \<notin> hb_open h \<Longrightarrow>
     hub_step h (h\<lparr>hb_conns := connect s (hb_conns h), hb_open := insert s (hb_open h)\<rparr>)"
| route_ends: "s \<in> hb_open h \<Longrightarrow>
     hub_step h (h\<lparr>hb_conns := disconnect s (hb_conns h), hb_open := hb_open h - {s}\<rparr>)"
| broadcast_starts: "hub_step h (h\<lparr>hb_sends := hb_sends h @ [(m, hb_conns h, [])]\<rparr>)"
| send_works: "hb_sends h = as @ (m, s # ss, dead) # bs \<Longrightarrow>
     hub_step h (h\<lparr>hb_sends := as @ (m, ss, dead) # bs, hb_delivered := hb_delivered h @ [(s, m)]\<rparr>)"
| send_fails: "hb_sends h = as @ (m, s # ss, dead) # bs \<Longrightarrow>
     hub_step h (h\<lparr>hb_sends := as @ (m, ss, dead @ [s]) # bs, hb_failed := insert s (hb_failed h)\<rparr>)"
| broadcast_ends: "hb_sends h = as @ (m, [], dead) # bs \<Longrightarrow>
     hub_step h (h\<lparr>hb_sends := as @ bs, hb_conns := filter (\<lambda>s. s \<notin> set dead) (hb_conns h)\<rparr>)"

inductive hub_run :: "hub \<Rightarrow> bool" where
  hub_empty: "hub_run \<lparr>hb_conns = [], hb_open = {}, hb_failed = {}, hb_sends = [], hb_delivered = []\<rparr>"
| hub_more: "hub_run h \<Longrightarrow> hub_step h h' \<Longrightarrow> hub_run h'"

definition hub_ok :: "hub \<Rightarrow> bool" where
  "hub_ok h \<longleftrightarrow> set (hb_conns h) \<subseteq> hb_open h \<and> hb_open h \<subseteq> set (hb_conns h) \<union> hb_failed h
     \<and> distinct (hb_conns h) \<and> (\<forall>x \<in> set (hb_sends h). set (snd (snd x)) \<subseteq> hb_failed h)"

lemma hub_step_ok: "hub_step h h' \<Longrightarrow> hub_ok h \<Longrightarrow> hub_ok h'"
  by (induction rule: hub_step.induct) (auto simp: hub_ok_def connect_def disconnect_def subset_insertI2)

text \<open>
  C40: however routes, sends and broadcasts interleave, a socket is registered with the manager only
  while its route waits, once, and a waiting socket that is not registered is one a send to which has failed.
\<close>

theorem manager_holds_open_sockets:
  assumes "hub_run h"
  shows "set (hb_conns h) \<subseteq> hb_open h \<and> hb_open h - hb_failed h \<subseteq> set (hb_conns h) \<and> distinct (hb_conns h)"
proof -
  have "hub_ok h" using assms
  proof induction
    case hub_empty
    then show ?case by (simp add: hub_ok_def)
  qed (rule hub_step_ok)
  then show ?thesis by (auto simp: hub_ok_def)
qed

text \<open>Two routes wait, a broadcast reaches the second and fails on the first.\<close>

definition sample_hub :: hub where
  "sample_hub = \<lparr>hb_conns = [5], hb_open = {5, 4}, hb_failed = {4}, hb_sends = [], hb_delivered = [(5, ''hello'')]\<rparr>"

theorem manager_holds_open_sockets_witness:
  "set (hb_conns sample_hub) \<subseteq> hb_open sample_hub
     \<and> hb_open sample_hub - hb_failed sample_hub \<subseteq> set (hb_conns sample_hub) \<and> distinct (hb_conns sample_hub)
     \<and> hb_delivered sample_hub = [(5, ''hello'')]"
proof -
  let ?h0 = "\<lparr>hb_conns = [], hb_open = {}, hb_failed = {}, hb_sends = [], hb_delivered = []\<rparr>"
  let ?h2 = "\<lparr>hb_conns = [4, 5], hb_open = {5, 4}, hb_failed = {}, hb_sends = [], hb_delivered = []\<rparr>"
  let ?h3 = "?h2\<lparr>hb_sends := [(''hello'', [4, 5], [])]\<rparr>"
  let ?h4 = "?h3\<lparr>hb_sends := [(''hello'', [5], [4])], hb_failed := {4}\<rparr>"
  let ?h5 = "?h4\<lparr>hb_sends := [(''hello'', [], [4])], hb_delivered := [(5, ''hello'')]\<rparr>"
  let ?h6 = "?h5\<lparr>hb_sends := [], hb_conns := [5]\<rparr>"
  have "hub_step ?h0 (?h0\<lparr>hb_conns := [4], hb_open := {4}\<rparr>)"
    using route_starts [of 4 ?h0] by (simp add: connect_def)
  moreover have "hub_step (?h0\<lparr>hb_conns := [4], hb_open := {4}\<rparr>) ?h2"
    using route_starts [of 5 "?h0\<lparr>hb_conns := [4], hb_open := {4}\<rparr>"] by (simp add: connect_def)
  moreover have "hub_step ?h2 ?h3" using broadcast_starts [of ?h2 "''hello''"] by simp
  moreover have "hub_step ?h3 ?h4" using send_fails [of ?h3 "[]" "''hello''" 4 "[5]" "[]" "[]"] by simp
  moreover have "hub_step ?h4 ?h5" using send_works [of ?h4 "[]" "''hello''" 5 "[]" "[4]" "[]"] by simp
  moreover have "hub_step ?h5 ?h6" using broadcast_ends [of ?h5 "[]" "''hello''" "[4]" "[]"] by simp
  moreover have "?h6 = sample_hub" by (simp add: sample_hub_def)
  ultimately have "hub_run sample_hub" by (metis hub_empty hub_more)
  from manager_holds_open_sockets [OF this] show ?thesis by (simp add: sample_hub_def)
qed

subsection \<open>From the outbox to the sockets\<close>

text \<open>
  C39: an event the publisher wrote to Redis and a session of the subscriber received reaches the
  clients as it was written: the subscriber, for any \<open>json.loads\<close> that reads the documents of
  \<open>json_read\<close>, broadcasts exactly its text, and the broadcast delivers it to every open socket
  whose send works.
\<close>

theorem published_event_reaches_clients:
  assumes "\<forall>t v. json_read t = Some v \<longrightarrow> loads t = Some v"
    and "Session msgs end \<in> set sessions" "\<lparr>rm_type = Some ''message'', rm_data = Some (event_text e)\<rparr> \<in> set msgs"
  shows "Broadcast (event_text e) \<in> set (subscribe loads sessions)
    \<and> (s \<in> set conns \<longrightarrow> send_ok s (event_text e)
        \<longrightarrow> (s, event_text e) \<in> set (fst (broadcast send_ok meanwhile (event_text e) conns)))"
proof -
  have loads: "loads (event_text e) = Some (payload_json (ev_payload e))"
    using assms(1) json_round_trip by (simp add: event_text_def)
  have "Broadcast (event_text e) \<in> set (fst (subscribe_run loads sessions st))" for st
    using assms(2)
  proof (induction sessions arbitrary: st)
    case (Cons x xs)
    show ?case
    proof (cases "x = Session msgs end")
      case True
      have "forward loads \<lparr>rm_type = Some ''message'', rm_data = Some (event_text e)\<rparr> = [Broadcast (event_text e)]"
        using loads by (auto simp: forward_def payload_json_def split: option.splits)
      then have "Broadcast (event_text e) \<in> set (concat (map (forward loads) msgs))" using assms(3) by force
      then show ?thesis
        by (cases st) (auto simp: True Let_def split: prod.splits session_end.splits)
    next
      case False
      with Cons.prems have "Session msgs end \<in> set xs" by simp
      from Cons.IH [OF this] show ?thesis by (auto split: prod.splits) (metis fst_conv)
    qed
  qed simp
  then show ?thesis by (auto simp: subscribe_def broadcast_def Let_def)
qed

theorem published_event_reaches_clients_witness:
  "Broadcast (event_text sample_event) \<in> set (subscribe json_read
      [SubscribeFailed, Session [\<lparr>rm_type = Some ''message'', rm_data = Some (event_text sample_event)\<rparr>] ListenEnded])
   \<and> (3, event_text sample_event) \<in> set (fst (broadcast (\<lambda>s m. True) (\<lambda>c. c) (event_text sample_event) [3]))"
proof -
  let ?m = "\<lparr>rm_type = Some ''message'', rm_data = Some (event_text sample_event)\<rparr>"
  let ?sessions = "[SubscribeFailed, Session [?m] ListenEnded]"
  have "Session [?m] ListenEnded \<in> set ?sessions" "?m \<in> set [?m]" by simp_all
  from published_event_reaches_clients [of json_read, OF _ this, of 3 "[3]" "\<lambda>s m. True" "\<lambda>c. c"]
  show ?thesis by simp
qed

end
