(* ===== verification/Profile.thy ===== *)
theory Profile
  imports Reminders
begin

section \<open>Profile settings and tags (app/api/router.py)\<close>

text \<open>
  The handlers of \<^verbatim>\<open>/settings\<close> and \<^verbatim>\<open>/tags\<close>. A handler is a function of the database that
  returns its response and the new database, or the error it raises, in which case the
  transaction is rolled back. \<open>column\<close> is the length limit of a text column, whose violation is
  a database error. Row locks and flushes leave no trace in a sequential run; the version
  counter of a row is bumped by the one UPDATE its handler causes.
\<close>

definition column :: "nat \<Rightarrow> string \<Rightarrow> error + string" where
  "column n s = (if length s \<le> n then Inr s else Inl (DataError ''value too long''))"

definition version_conflict :: "string \<Rightarrow> current \<Rightarrow> error" where
  "version_conflict message cur = conflict ''version_conflict'' message cur"

definition invalid :: "string \<Rightarrow> string \<Rightarrow> string \<Rightarrow> error" where
  "invalid message field text = field_error ''validation_error'' message field text"

subsection \<open>Settings\<close>

definition settings_response_of :: "user_settings \<Rightarrow> settings_response" where
  "settings_response_of s = \<lparr>sr_email = us_email s, sr_timezone = us_timezone s, sr_version = us_version s\<rparr>"

definition profile_settings :: "env \<Rightarrow> world \<Rightarrow> user_settings \<times> world" where
  "profile_settings env w =
     (case find (\<lambda>s. us_id s = profile_id) (w_settings w) of
        Some row \<Rightarrow> (row, w)
      | None \<Rightarrow>
          let row = \<lparr>us_id = profile_id, us_email = app_default_email env,
                us_timezone = app_default_timezone env, us_updated_at = w_now w, us_version = 1\<rparr>
          in (row, w\<lparr>w_settings := w_settings w @ [row]\<rparr>))"

definition get_profile_settings :: "env \<Rightarrow> world \<Rightarrow> error + settings_response \<times> world" where
  "get_profile_settings env w =
     (let (row, w) = profile_settings env (begin_tx env w) in Inr (settings_response_of row, w))"

definition update_profile_settings ::
  "env \<Rightarrow> settings_update \<Rightarrow> world \<Rightarrow> error + settings_response \<times> world" where
  "update_profile_settings env payload w =
     (let (row, w) = profile_settings env (begin_tx env w)
      in if us_version row \<noteq> su_expected_version payload
         then Inl (version_conflict ''Settings changed'' (CurrentSettings (settings_response_of row)))
         else try_then (validate_email (strip (su_email payload))) (\<lambda>email.
              try_then (validate_timezone env (su_timezone payload)) (\<lambda>tz.
              try_then (column 64 tz) (\<lambda>tz.
                let (t, w) = utcnow env w;
                    w = save_settings (us_id row)
                          (\<lambda>s. s\<lparr>us_email := email, us_timezone := tz, us_updated_at := t\<rparr>) w;
                    row = row\<lparr>us_email := email, us_timezone := tz, us_updated_at := t,
                              us_version := us_version row + 1\<rparr>
                in Inr (settings_response_of row,
                        add_event env ''settings.updated'' (us_id row) (us_version row) None w)))))"

subsection \<open>Tags\<close>

definition validate_color :: "string \<Rightarrow> error + string" where
  "validate_color color =
     (if \<not> color_matches color then Inl (invalid ''Invalid tag'' ''color'' ''must be #RRGGBB'')
      else Inr (lower color))"

definition normalize_name :: "env \<Rightarrow> string \<Rightarrow> error + string \<times> string" where
  "normalize_name env name =
     (let display = strip name
      in if display = [] then Inl (invalid ''Invalid tag'' ''name'' ''must not be blank'')
         else Inr (display, casefold env display))"

definition tag_name_conflict :: error where
  "tag_name_conflict =
     ApiError 409 ''tag_name_conflict'' ''A tag with this name already exists''
       (Some [(''name'', ''must be unique'')]) None"

definition list_tags :: "env \<Rightarrow> world \<Rightarrow> tag_response list" where
  "list_tags env w =
     map tag_response_of (sort_key (\<lambda>t. (collate env (tag_name t), tag_id t)) (w_tags w))"

definition create_tag :: "env \<Rightarrow> tag_write \<Rightarrow> world \<Rightarrow> error + tag_response \<times> world" where
  "create_tag env payload w =
     (let w = begin_tx env w
      in try_then (normalize_name env (tw_name payload)) (\<lambda>(name, normalized).
           if \<exists>t \<in> set (w_tags w). tag_normalized_name t = normalized then Inl tag_name_conflict
           else try_then (validate_color (tw_color payload)) (\<lambda>color.
                try_then (column 100 name) (\<lambda>name.
                try_then (column 100 normalized) (\<lambda>normalized.
                  let (i, w) = new_uuid env w;
                      t = \<lparr>tag_id = i, tag_name = name, tag_normalized_name = normalized,
                           tag_color = color, tag_updated_at = w_now w, tag_version = 1\<rparr>;
                      w = w\<lparr>w_tags := w_tags w @ [t]\<rparr>
                  in Inr (tag_response_of t, add_event env ''tag.created'' i 1 None w))))))"

definition update_tag :: "env \<Rightarrow> uuid \<Rightarrow> tag_update \<Rightarrow> world \<Rightarrow> error + tag_response \<times> world" where
  "update_tag env i payload w =
     (let w = begin_tx env w
      in case find (\<lambda>t. tag_id t = i) (w_tags w) of
           None \<Rightarrow> Inl (api_error 404 ''not_found'' ''Tag not found'')
         | Some t \<Rightarrow>
             if tag_version t \<noteq> tu_expected_version payload
             then Inl (version_conflict ''The tag changed'' (CurrentTag (tag_response_of t)))
             else try_then (normalize_name env (tw_name payload)) (\<lambda>(name, normalized).
               if \<exists>u \<in> set (w_tags w). tag_normalized_name u = normalized \<and> tag_id u \<noteq> tag_id t
               then Inl tag_name_conflict
               else try_then (validate_color (tw_color payload)) (\<lambda>color.
                    try_then (column 100 name) (\<lambda>name.
                    try_then (column 100 normalized) (\<lambda>normalized.
                      let (now, w) = utcnow env w;
                          change = (\<lambda>t. t\<lparr>tag_name := name, tag_normalized_name := normalized,
                                         tag_color := color, tag_updated_at := now\<rparr>);
                          w = save_tag (tag_id t) change w;
                          t = (change t)\<lparr>tag_version := tag_version t + 1\<rparr>
                      in Inr (tag_response_of t,
                              add_event env ''tag.updated'' (tag_id t) (tag_version t) None w))))))"

text \<open>
  Deleting a tag takes it off its notes and series; each of them is touched, and an event goes
  out for every series and for the tag.
\<close>

definition touch_series :: "instant \<Rightarrow> recurrence_series \<Rightarrow> world \<Rightarrow> world" where
  "touch_series now s w = save_series (rs_id s) (\<lambda>s. s\<lparr>rs_updated_at := now\<rparr>) w"

definition touch_note :: "instant \<Rightarrow> note_row \<Rightarrow> world \<Rightarrow> world" where
  "touch_note now n w = save_note (n_id n) (\<lambda>n. n\<lparr>n_updated_at := now\<rparr>) w"

definition series_event :: "env \<Rightarrow> recurrence_series \<Rightarrow> world \<Rightarrow> world" where
  "series_event env s w = add_event env ''series.updated'' (rs_id s) (rs_version s + 1) (Some (rs_id s)) w"

definition delete_tag :: "env \<Rightarrow> uuid \<Rightarrow> int \<Rightarrow> world \<Rightarrow> error + unit \<times> world" where
  "delete_tag env i expected_version w =
     (let w = begin_tx env w
      in case find (\<lambda>t. tag_id t = i) (w_tags w) of
           None \<Rightarrow> Inl (api_error 404 ''not_found'' ''Tag not found'')
         | Some t \<Rightarrow>
             if tag_version t \<noteq> expected_version
             then Inl (version_conflict ''The tag changed'' (CurrentTag (tag_response_of t)))
             else
               let series_ids = map fst (filter (\<lambda>(s, k). k = i) (w_series_tags w));
                   series_rows = sort_key rs_id (filter (\<lambda>s. rs_id s \<in> set series_ids) (w_series w));
                   note_ids = map fst (filter (\<lambda>(n, k). k = i) (w_note_tags w));
                   notes = sort_key n_id (filter (\<lambda>n. n_id n \<in> set note_ids) (w_notes w));
                   w = w\<lparr>w_note_tags := filter (\<lambda>(n, k). k \<noteq> i) (w_note_tags w),
                         w_series_tags := filter (\<lambda>(s, k). k \<noteq> i) (w_series_tags w)\<rparr>;
                   (now, w) = utcnow env w;
                   w = fold (touch_series now) series_rows w;
                   w = fold (touch_note now) notes w;
                   w = w\<lparr>w_tags := filter (\<lambda>t. tag_id t \<noteq> i) (w_tags w)\<rparr>;
                   w = fold (series_event env) series_rows w
               in Inr ((), add_event env ''tag.deleted'' i (tag_version t) None w))"

subsection \<open>What a tag operation does\<close>

definition named_tag :: "env \<Rightarrow> tag_write \<Rightarrow> string \<Rightarrow> string \<Rightarrow> string \<Rightarrow> bool" where
  "named_tag env p name normalized color \<longleftrightarrow> strip (tw_name p) \<noteq> [] \<and> name = strip (tw_name p)
     \<and> normalized = casefold env name \<and> length name \<le> 100 \<and> length normalized \<le> 100
     \<and> color_matches (tw_color p) \<and> color = lower (tw_color p)"

lemma column_Inr [simp]: "column n s = Inr t \<longleftrightarrow> t = s \<and> length s \<le> n"
  by (auto simp: column_def)

lemma validate_color_Inr [simp]: "validate_color c = Inr c' \<longleftrightarrow> color_matches c \<and> c' = lower c"
  by (auto simp: validate_color_def)

lemma normalize_name_Inr [simp]:
  "normalize_name env n = Inr (d, k) \<longleftrightarrow> strip n \<noteq> [] \<and> d = strip n \<and> k = casefold env d"
  by (auto simp: normalize_name_def Let_def)

lemma normalize_name_of:
  "strip n \<noteq> [] \<Longrightarrow> normalize_name env n = Inr (strip n, casefold env (strip n))"
  by (simp add: normalize_name_def Let_def)

lemma create_tag_Inr:
  assumes "create_tag env p w = Inr (r, w')"
  obtains name normalized color t where "named_tag env p name normalized color"
    "\<forall>u \<in> set (w_tags w). tag_normalized_name u \<noteq> normalized"
    "t = \<lparr>tag_id = uuid4 env (draws w), tag_name = name, tag_normalized_name = normalized,
           tag_color = color, tag_updated_at = clock env (ticks w), tag_version = 1\<rparr>"
    "w_tags w' = w_tags w @ [t]" "r = tag_response_of t"
proof -
  let ?n = "strip (tw_name p)"
  have ok: "?n \<noteq> []" "\<not> (\<exists>u \<in> set (w_tags w). tag_normalized_name u = casefold env ?n)"
    "color_matches (tw_color p)" "length ?n \<le> 100" "length (casefold env ?n) \<le> 100"
    using assms by (auto simp: create_tag_def begin_tx_def Let_def split: if_splits prod.splits)
  with assms show thesis
    by (intro that [of ?n "casefold env ?n" "lower (tw_color p)"])
      (auto simp: create_tag_def begin_tx_def new_uuid_def named_tag_def row_simps Let_def split: prod.splits)
qed

lemma update_tag_Inr:
  assumes "update_tag env i p w = Inr (r, w')"
  obtains t name normalized color now change where
    "find (\<lambda>t. tag_id t = i) (w_tags w) = Some t" "tag_version t = tu_expected_version p"
    "named_tag env (tag_write.truncate p) name normalized color"
    "\<forall>u \<in> set (w_tags w). tag_normalized_name u = normalized \<longrightarrow> tag_id u = tag_id t"
    "change = (\<lambda>t. t\<lparr>tag_name := name, tag_normalized_name := normalized, tag_color := color,
       tag_updated_at := now\<rparr>)"
    "w_tags w' = w_tags (save_tag (tag_id t) change w)"
    "r = tag_response_of ((change t)\<lparr>tag_version := tag_version t + 1\<rparr>)"
proof -
  let ?n = "strip (tw_name p)"
  obtain t where t: "find (\<lambda>t. tag_id t = i) (w_tags w) = Some t" "tag_version t = tu_expected_version p"
    using assms by (auto simp: update_tag_def begin_tx_def Let_def split: option.splits if_splits)
  have ok: "?n \<noteq> []" "\<forall>u \<in> set (w_tags w). tag_normalized_name u = casefold env ?n \<longrightarrow> tag_id u = tag_id t"
    "color_matches (tw_color p)" "length ?n \<le> 100" "length (casefold env ?n) \<le> 100"
    using assms t by (auto simp: update_tag_def begin_tx_def Let_def split: if_splits prod.splits)
  have no: "\<not> (\<exists>u \<in> set (w_tags w). tag_normalized_name u = casefold env ?n \<and> tag_id u \<noteq> tag_id t)"
    using ok(2) by blast
  from assms t ok no show thesis
    by (intro that [OF t, of ?n "casefold env ?n" "lower (tw_color p)"])
      (auto simp: update_tag_def begin_tx_def utcnow_def named_tag_def tag_write.truncate_def save_tag_def
        row_simps normalize_name_of Let_def split: prod.splits)
qed

lemma touch_rows [row_simps]:
  "w_tags (touch_series now s w) = w_tags w" "w_tags (touch_note now n w) = w_tags w"
  "w_note_tags (touch_series now s w) = w_note_tags w" "w_note_tags (touch_note now n w) = w_note_tags w"
  "w_series_tags (touch_series now s w) = w_series_tags w" "w_series_tags (touch_note now n w) = w_series_tags w"
  by (simp_all add: touch_series_def touch_note_def save_series_def save_note_def)

lemma series_event_rows [row_simps]:
  "w_tags (series_event env s w) = w_tags w" "w_note_tags (series_event env s w) = w_note_tags w"
  "w_series_tags (series_event env s w) = w_series_tags w"
  by (simp_all add: series_event_def row_simps)

lemma fold_rows [row_simps]:
  "w_tags (fold (touch_series now) ss w) = w_tags w" "w_tags (fold (touch_note now) ns w) = w_tags w"
  "w_tags (fold (series_event env) ss w) = w_tags w"
  "w_note_tags (fold (touch_series now) ss w) = w_note_tags w"
  "w_note_tags (fold (touch_note now) ns w) = w_note_tags w"
  "w_note_tags (fold (series_event env) ss w) = w_note_tags w"
  "w_series_tags (fold (touch_series now) ss w) = w_series_tags w"
  "w_series_tags (fold (touch_note now) ns w) = w_series_tags w"
  "w_series_tags (fold (series_event env) ss w) = w_series_tags w"
  by (rule fold_constant, simp add: row_simps)+

lemma delete_tag_Inr:
  assumes "delete_tag env i v w = Inr (r, w')"
  shows "\<exists>t. find (\<lambda>t. tag_id t = i) (w_tags w) = Some t \<and> tag_version t = v"
    and "w_tags w' = filter (\<lambda>t. tag_id t \<noteq> i) (w_tags w)"
    and "w_note_tags w' = filter (\<lambda>(n, k). k \<noteq> i) (w_note_tags w)"
    and "w_series_tags w' = filter (\<lambda>(s, k). k \<noteq> i) (w_series_tags w)"
  using assms
  by (auto simp: delete_tag_def begin_tx_def utcnow_def Let_def row_simps split: option.splits if_splits)

subsection \<open>The tag table stays valid\<close>

definition tag_ok :: "env \<Rightarrow> tag \<Rightarrow> bool" where
  "tag_ok env t \<longleftrightarrow> tag_name t \<noteq> [] \<and> strip (tag_name t) = tag_name t \<and> length (tag_name t) \<le> 100
     \<and> tag_normalized_name t = casefold env (tag_name t) \<and> length (tag_normalized_name t) \<le> 100
     \<and> color_matches (tag_color t) \<and> lower (tag_color t) = tag_color t"

definition tags_ok :: "env \<Rightarrow> world \<Rightarrow> bool" where
  "tags_ok env w \<longleftrightarrow> distinct (map tag_id (w_tags w)) \<and> distinct (map tag_normalized_name (w_tags w))
     \<and> (\<forall>t \<in> set (w_tags w). tag_ok env t)
     \<and> (\<forall>(n, k) \<in> set (w_note_tags w). k \<in> tag_id ` set (w_tags w))
     \<and> (\<forall>(s, k) \<in> set (w_series_tags w). k \<in> tag_id ` set (w_tags w))"

datatype tag_request = CreateTag tag_write | UpdateTag uuid tag_update | DeleteTag uuid int

fun run_tag_request :: "env \<Rightarrow> tag_request \<Rightarrow> world \<Rightarrow> error + world" where
  "run_tag_request env (CreateTag p) w = try_then (create_tag env p w) (\<lambda>(r, w'). Inr w')"
| "run_tag_request env (UpdateTag i p) w = try_then (update_tag env i p w) (\<lambda>(r, w'). Inr w')"
| "run_tag_request env (DeleteTag i v) w = try_then (delete_tag env i v w) (\<lambda>(r, w'). Inr w')"

lemma named_tag_ok:
  "named_tag env p name normalized color \<Longrightarrow>
     tag_ok env \<lparr>tag_id = i, tag_name = name, tag_normalized_name = normalized, tag_color = color,
       tag_updated_at = now, tag_version = v\<rparr>"
  by (auto simp: named_tag_def tag_ok_def color_matches_lower)

lemma tag_rows_frame:
  "create_tag env p w = Inr (r, w') \<Longrightarrow> w_note_tags w' = w_note_tags w \<and> w_series_tags w' = w_series_tags w"
  "update_tag env i q w = Inr (s, w') \<Longrightarrow> w_note_tags w' = w_note_tags w \<and> w_series_tags w' = w_series_tags w"
  by (auto simp: create_tag_def update_tag_def begin_tx_def utcnow_def new_uuid_def save_tag_def row_simps Let_def
      split: if_splits option.splits prod.splits)

lemma update_tags_ok:
  assumes ok: "tags_ok env w" and t: "t \<in> set (w_tags w)"
    and named: "named_tag env p name normalized color"
    and free: "\<forall>u \<in> set (w_tags w). tag_normalized_name u = normalized \<longrightarrow> tag_id u = tag_id t"
    and change: "change = (\<lambda>t. t\<lparr>tag_name := name, tag_normalized_name := normalized,
      tag_color := color, tag_updated_at := now\<rparr>)"
    and rows: "w_tags w' = w_tags (save_tag (tag_id t) change w)"
    "w_note_tags w' = w_note_tags w" "w_series_tags w' = w_series_tags w"
  shows "tags_ok env w'"
proof -
  have dist: "distinct (map tag_id (w_tags w))" "distinct (map tag_normalized_name (w_tags w))"
    using ok by (simp_all add: tags_ok_def)
  have ids: "map tag_id (w_tags w') = map tag_id (w_tags w)"
    unfolding rows(1) by (simp add: save_tag_def change)
  have img: "tag_id ` set (w_tags w') = tag_id ` set (w_tags w)" using arg_cong [OF ids, of set] by simp
  have same: "u = t" if "u \<in> set (w_tags w)" "tag_id u = tag_id t" for u
    using distinct_map_eqD [OF dist(1) that(1) t that(2)] .
  have "distinct (map tag_normalized_name (w_tags w'))"
  proof -
    have "tag_normalized_name u \<noteq> normalized" if "u \<in> set (w_tags w)" "u \<noteq> t" for u
      using free that same by blast
    moreover have "w_tags w' = map (\<lambda>u. if u = t then (change t)\<lparr>tag_version := tag_version t + 1\<rparr> else u) (w_tags w)"
      unfolding rows(1) save_tag_def update_where_def using same by auto
    ultimately show ?thesis
      using dist(2) by (auto simp: change distinct_map inj_on_def)
  qed
  moreover have "tag_ok env u" if "u \<in> set (w_tags w')" for u
    using that ok named
    unfolding rows(1) by (auto simp: save_tag_def change row_simps tags_ok_def named_tag_def tag_ok_def
        color_matches_lower split: if_splits)
  ultimately show ?thesis
    using ok dist(1) unfolding tags_ok_def rows(2,3) img by (simp add: ids)
qed

text \<open>
  C29: the tag table stays valid under every tag request: names are stripped and not blank, no
  two tags have the same case-folded name, colours are lower-case \<^verbatim>\<open>#rrggbb\<close>, and the tags of notes
  and series exist.
\<close>

theorem tag_requests_keep_tags_ok:
  assumes "tags_ok env w" "fresh env w" "run_tag_request env req w = Inr w'"
  shows "tags_ok env w'"
proof (cases req)
  case (CreateTag p)
  then obtain r where run: "create_tag env p w = Inr (r, w')" using assms(3) by auto
  then obtain name normalized color t where new: "named_tag env p name normalized color"
    "\<forall>u \<in> set (w_tags w). tag_normalized_name u \<noteq> normalized"
    "t = \<lparr>tag_id = uuid4 env (draws w), tag_name = name, tag_normalized_name = normalized,
           tag_color = color, tag_updated_at = clock env (ticks w), tag_version = 1\<rparr>"
    "w_tags w' = w_tags w @ [t]" by (rule create_tag_Inr)
  have "uuid4 env (draws w) \<notin> tag_id ` set (w_tags w)"
    using draw_fresh [OF assms(2)] by (auto simp: used_ids_def)
  moreover have "tag_ok env t" unfolding new(3) by (rule named_tag_ok [OF new(1)])
  ultimately show ?thesis
    using assms(1) new(2,4) tag_rows_frame(1) [OF run] by (auto simp: tags_ok_def new(3))
next
  case (UpdateTag i p)
  then obtain r where run: "update_tag env i p w = Inr (r, w')" using assms(3) by auto
  then show ?thesis
  proof (rule update_tag_Inr)
    fix t name normalized color now change
    assume u: "find (\<lambda>t. tag_id t = i) (w_tags w) = Some t" "tag_version t = tu_expected_version p"
      "named_tag env (tag_write.truncate p) name normalized color"
      "\<forall>u \<in> set (w_tags w). tag_normalized_name u = normalized \<longrightarrow> tag_id u = tag_id t"
      "change = (\<lambda>t. t\<lparr>tag_name := name, tag_normalized_name := normalized, tag_color := color,
         tag_updated_at := now\<rparr>)"
      "w_tags w' = w_tags (save_tag (tag_id t) change w)"
    have "t \<in> set (w_tags w)" using u(1) by (auto dest: find_Some_set)
    from update_tags_ok [OF assms(1) this u(3-6)] tag_rows_frame(2) [OF run]
    show ?thesis by simp
  qed
next
  case (DeleteTag i v)
  then obtain r where run: "delete_tag env i v w = Inr (r, w')" using assms(3) by auto
  note eff = delete_tag_Inr [OF run]
  show ?thesis
    using assms(1) unfolding tags_ok_def eff by (auto simp: distinct_map_filter)
qed

definition sample_tag :: tag where
  "sample_tag = \<lparr>tag_id = 5, tag_name = ''Work'', tag_normalized_name = ''work'',
     tag_color = ''#00ff00'', tag_updated_at = 0, tag_version = 1\<rparr>"

theorem tag_requests_keep_tags_ok_witness:
  "\<exists>w'. run_tag_request sample_env (CreateTag \<lparr>tw_name = '' Home '', tw_color = ''#00FF00''\<rparr>)
      (sample_world\<lparr>w_tags := [sample_tag]\<rparr>) = Inr w' \<and> tags_ok sample_env w' \<and> length (w_tags w') = 2"
proof -
  let ?w = "sample_world\<lparr>w_tags := [sample_tag]\<rparr>" and ?p = "\<lparr>tw_name = '' Home '', tw_color = ''#00FF00''\<rparr>"
  have ok: "tags_ok sample_env ?w"
    by (simp add: tags_ok_def tag_ok_def sample_tag_def sample_env_def strip_def is_space_def code_point_def
        lower_def lower_char_def hex_digit_def char_of_def bit_0 sample_world_def empty_world_def)
  have fr: "fresh sample_env ?w"
    using sample_fresh by (simp add: fresh_def used_ids_def sample_tag_def sample_env_def)
  have "\<exists>r w'. create_tag sample_env ?p ?w = Inr (r, w') \<and> length (w_tags w') = 2"
    by (simp add: create_tag_def begin_tx_def new_uuid_def sample_tag_def sample_env_def normalize_name_def
        strip_def is_space_def code_point_def lower_def lower_char_def hex_digit_def validate_color_def
        column_def Let_def row_simps)
  then obtain r w' where run: "create_tag sample_env ?p ?w = Inr (r, w')" "length (w_tags w') = 2" by blast
  then have "run_tag_request sample_env (CreateTag ?p) ?w = Inr w'" by simp
  with tag_requests_keep_tags_ok [OF ok fr this] run(2) show ?thesis by blast
qed

subsection \<open>Optimistic concurrency\<close>

text \<open>
  The contract of every edit of a versioned resource: it goes through only when the caller names
  the version the resource has, and then the version is one more. The client of the contract is
  any sequence of edits.
\<close>

locale versioned_edit =
  fixes version_of :: "world \<Rightarrow> int option"
    and edit :: "'p \<Rightarrow> int \<Rightarrow> world \<Rightarrow> error + 'r \<times> world"
    and refused :: "int \<Rightarrow> error \<Rightarrow> bool"
  assumes stale_edit: "version_of w = Some v \<Longrightarrow> v \<noteq> e \<Longrightarrow> \<exists>err. edit p e w = Inl err \<and> refused v err"
    and edit_ok: "edit p e w = Inr (r, w') \<Longrightarrow> version_of w = Some e \<and> version_of w' = Some (e + 1)"
begin

lemma no_lost_update:
  assumes "edit p e w = Inr (r, w')"
  shows "\<exists>err. edit q e w' = Inl err \<and> refused (e + 1) err"
  using edit_ok [OF assms] by (intro stale_edit) simp_all

text \<open>Edits one after the other: each caller must have seen the result of the one before.\<close>

fun edits :: "('p \<times> int) list \<Rightarrow> world \<Rightarrow> error + world" where
  "edits [] w = Inr w"
| "edits ((p, e) # es) w = try_then (edit p e w) (\<lambda>(r, w'). edits es w')"

lemma edits_versions:
  assumes "edits es w = Inr w'" "version_of w = Some v"
  shows "map snd es = map (\<lambda>k. v + int k) [0..<length es] \<and> version_of w' = Some (v + int (length es))"
  using assms
proof (induction es arbitrary: w v)
  case (Cons x es)
  obtain p e where x: "x = (p, e)" by fastforce
  with Cons.prems(1) obtain r w1 where one: "edit p e w = Inr (r, w1)" "edits es w1 = Inr w'" by auto
  with edit_ok [OF one(1)] Cons.prems(2) have v: "e = v" "version_of w1 = Some (v + 1)" by auto
  have "map (\<lambda>k. v + int k) [0..<Suc (length es)] = v # map (\<lambda>k. v + 1 + int k) [0..<length es]"
    by (simp add: upt_conv_Cons map_Suc_upt [symmetric] comp_def algebra_simps del: upt_Suc)
  with Cons.IH [OF one(2) v(2)] v(1) x show ?case by simp
qed simp

end

definition tag_version_of :: "uuid \<Rightarrow> world \<Rightarrow> int option" where
  "tag_version_of i w = map_option tag_version (find (\<lambda>t. tag_id t = i) (w_tags w))"

definition edit_tag :: "env \<Rightarrow> uuid \<Rightarrow> tag_write \<Rightarrow> int \<Rightarrow> world \<Rightarrow> error + tag_response \<times> world" where
  "edit_tag env i p e w =
     update_tag env i \<lparr>tw_name = tw_name p, tw_color = tw_color p, tu_expected_version = e\<rparr> w"

lemma find_update_tag:
  assumes "find (\<lambda>t. tag_id t = i) ts = Some t" "\<And>t. tag_id (f t) = tag_id t"
  shows "find (\<lambda>t. tag_id t = i) (update_where (\<lambda>t. tag_id t = i) f ts) = Some (f t)"
  using assms by (induction ts) (auto simp: update_where_def split: if_splits)

definition tag_conflict :: "int \<Rightarrow> error \<Rightarrow> bool" where
  "tag_conflict v err \<longleftrightarrow> (\<exists>r. err = version_conflict ''The tag changed'' (CurrentTag r) \<and> tr_version r = v)"

interpretation tag_edit: versioned_edit "tag_version_of i" "edit_tag env i" tag_conflict for env i
proof
  fix w v e p assume "tag_version_of i w = Some v" "v \<noteq> e"
  then show "\<exists>err. edit_tag env i p e w = Inl err \<and> tag_conflict v err"
    by (auto simp: tag_version_of_def edit_tag_def update_tag_def begin_tx_def tag_conflict_def
        tag_response_of_def version_conflict_def conflict_def)
next
  fix p e w r w' assume "edit_tag env i p e w = Inr (r, w')"
  then show "tag_version_of i w = Some e \<and> tag_version_of i w' = Some (e + 1)"
    unfolding edit_tag_def
  proof (rule update_tag_Inr)
    fix t name normalized color now change
    assume t: "find (\<lambda>t. tag_id t = i) (w_tags w) = Some t"
      "tag_version t = tu_expected_version \<lparr>tw_name = tw_name p, tw_color = tw_color p, tu_expected_version = e\<rparr>"
      "change = (\<lambda>t. t\<lparr>tag_name := name, tag_normalized_name := normalized, tag_color := color,
         tag_updated_at := now\<rparr>)"
      "w_tags w' = w_tags (save_tag (tag_id t) change w)"
    moreover have "tag_id t = i" using t(1) by (auto dest: find_Some_set)
    ultimately show ?thesis
      by (simp add: tag_version_of_def save_tag_def find_update_tag)
  qed
qed

definition settings_version_of :: "world \<Rightarrow> int option" where
  "settings_version_of w =
     (case find (\<lambda>s. us_id s = profile_id) (w_settings w) of None \<Rightarrow> Some 1 | Some s \<Rightarrow> Some (us_version s))"

definition edit_settings ::
  "env \<Rightarrow> string \<times> string \<Rightarrow> int \<Rightarrow> world \<Rightarrow> error + settings_response \<times> world" where
  "edit_settings env p e w =
     update_profile_settings env \<lparr>su_email = fst p, su_timezone = snd p, su_expected_version = e\<rparr> w"

lemma find_update_settings:
  assumes "find (\<lambda>s. us_id s = i) ss = Some s" "\<And>s. us_id (f s) = us_id s"
  shows "find (\<lambda>s. us_id s = i) (update_where (\<lambda>s. us_id s = i) f ss) = Some (f s)"
  using assms by (induction ss) (auto simp: update_where_def split: if_splits)

lemma profile_settings_row:
  assumes "profile_settings env w = (row, w')"
  shows "us_id row = profile_id" "find (\<lambda>s. us_id s = profile_id) (w_settings w') = Some row"
    "settings_version_of w = Some (us_version row)"
proof -
  have "us_id row = profile_id \<and> find (\<lambda>s. us_id s = profile_id) (w_settings w') = Some row
      \<and> settings_version_of w = Some (us_version row)"
  proof (cases "find (\<lambda>s. us_id s = profile_id) (w_settings w)")
    case None
    with assms show ?thesis by (auto simp: profile_settings_def settings_version_of_def Let_def find_append)
  next
    case (Some s)
    then have "us_id s = profile_id" by (auto dest: find_Some_set)
    with Some assms show ?thesis by (auto simp: profile_settings_def settings_version_of_def)
  qed
  then show "us_id row = profile_id" "find (\<lambda>s. us_id s = profile_id) (w_settings w') = Some row"
    "settings_version_of w = Some (us_version row)" by simp_all
qed

lemma update_profile_Inr:
  assumes "update_profile_settings env p w = Inr (r, w')"
  obtains row w1 email t where "profile_settings env (begin_tx env w) = (row, w1)"
    "us_version row = su_expected_version p" "email = strip (su_email p)" "email_matches email"
    "length email \<le> 320" "zone_known env (su_timezone p)"
    "w_settings w' = w_settings (save_settings (us_id row)
       (\<lambda>s. s\<lparr>us_email := email, us_timezone := su_timezone p, us_updated_at := t\<rparr>) w1)"
    "r = \<lparr>sr_email = email, sr_timezone = su_timezone p, sr_version = us_version row + 1\<rparr>"
proof -
  obtain row w1 where p: "profile_settings env (begin_tx env w) = (row, w1)" by fastforce
  with assms show thesis
    by (intro that [OF p]) (auto simp: update_profile_settings_def utcnow_def save_settings_def row_simps
        settings_response_of_def Let_def split: if_splits)
qed

definition settings_conflict :: "int \<Rightarrow> error \<Rightarrow> bool" where
  "settings_conflict v err \<longleftrightarrow>
     (\<exists>r. err = version_conflict ''Settings changed'' (CurrentSettings r) \<and> sr_version r = v)"

interpretation settings_edit: versioned_edit settings_version_of "edit_settings env" settings_conflict for env
proof
  fix w v e p assume v: "settings_version_of w = Some v" "v \<noteq> e"
  obtain row w1 where p: "profile_settings env (begin_tx env w) = (row, w1)" by fastforce
  have "us_version row = v"
    using profile_settings_row(3) [OF p] v(1) by (simp add: settings_version_of_def begin_tx_def)
  with p v(2) show "\<exists>err. edit_settings env p e w = Inl err \<and> settings_conflict v err"
    by (simp add: edit_settings_def update_profile_settings_def settings_conflict_def settings_response_of_def
        version_conflict_def conflict_def)
next
  fix p e w r w' assume "edit_settings env p e w = Inr (r, w')"
  then show "settings_version_of w = Some e \<and> settings_version_of w' = Some (e + 1)"
    unfolding edit_settings_def
  proof (rule update_profile_Inr)
    fix row w1 email t
    assume u: "profile_settings env (begin_tx env w) = (row, w1)"
      "us_version row = su_expected_version \<lparr>su_email = fst p, su_timezone = snd p, su_expected_version = e\<rparr>"
      "w_settings w' = w_settings (save_settings (us_id row) (\<lambda>s. s\<lparr>us_email := email,
         us_timezone := su_timezone \<lparr>su_email = fst p, su_timezone = snd p, su_expected_version = e\<rparr>,
         us_updated_at := t\<rparr>) w1)"
    note row = profile_settings_row [OF u(1)]
    have "settings_version_of w = Some (us_version row)"
      using row(3) by (simp add: settings_version_of_def begin_tx_def)
    with u(2,3) row(1,2) show ?thesis
      by (simp add: settings_version_of_def save_settings_def find_update_settings)
  qed
qed

text \<open>
  C30: once an edit of a tag succeeded, every other edit under the same expected version is
  refused with 409 and told the version the tag now has: concurrent editors cannot overwrite
  each other unseen.
\<close>

theorem tag_edits_are_not_lost:
  assumes "edit_tag env i p e w = Inr (r, w')"
  shows "\<exists>err. edit_tag env i q e w' = Inl err \<and> tag_conflict (e + 1) err
    \<and> map_option fst (handle_error err) = Some 409"
  using tag_edit.no_lost_update [OF assms, of q]
  by (auto simp: tag_conflict_def version_conflict_def conflict_def)

theorem tag_edits_are_not_lost_witness:
  "\<exists>r w' err. edit_tag sample_env 5 \<lparr>tw_name = ''Job'', tw_color = ''#00FF00''\<rparr> 1
       (sample_world\<lparr>w_tags := [sample_tag]\<rparr>) = Inr (r, w')
     \<and> edit_tag sample_env 5 \<lparr>tw_name = ''Play'', tw_color = ''#ffffff''\<rparr> 1 w' = Inl err \<and> tag_conflict 2 err"
proof -
  have "\<exists>r w'. edit_tag sample_env 5 \<lparr>tw_name = ''Job'', tw_color = ''#00FF00''\<rparr> 1
      (sample_world\<lparr>w_tags := [sample_tag]\<rparr>) = Inr (r, w')"
    by (simp add: edit_tag_def update_tag_def begin_tx_def utcnow_def sample_tag_def sample_env_def
        normalize_name_def strip_def is_space_def code_point_def lower_def lower_char_def hex_digit_def
        validate_color_def column_def Let_def)
  then obtain r w' where run: "edit_tag sample_env 5 \<lparr>tw_name = ''Job'', tw_color = ''#00FF00''\<rparr> 1
      (sample_world\<lparr>w_tags := [sample_tag]\<rparr>) = Inr (r, w')" by blast
  with tag_edits_are_not_lost [OF run, of "\<lparr>tw_name = ''Play'', tw_color = ''#ffffff''\<rparr>"] show ?thesis by auto
qed

end
