(* ===== verification/Series.thy ===== *)
theory Series
  imports Profile
begin

section \<open>Series and their occurrences (app/domain/recurrence.py)\<close>

text \<open>
  The rows behind a recurring series: its response, the bulk creation of its notes, rules and
  deliveries, the exception record of an edited occurrence, and the materialisation of a single
  occurrence. Reading the stored RRULE may raise, which no handler catches. An in-memory datetime
  keeps the UTC offset it came with, so the exception record compares a note's start, whose
  offset is an argument, with the recurrence key as ISO texts, offset included.
\<close>

subsection \<open>Responses\<close>

definition raised :: "py_exn + 'a \<Rightarrow> error + 'a" where
  "raised m = (case m of Inl e \<Rightarrow> Inl (Raised e) | Inr x \<Rightarrow> Inr x)"

definition series_tag_ids :: "world \<Rightarrow> uuid \<Rightarrow> uuid list" where
  "series_tag_ids w sid = map snd (filter (\<lambda>(s, k). s = sid) (w_series_tags w))"

definition series_offsets :: "world \<Rightarrow> uuid \<Rightarrow> int list" where
  "series_offsets w sid = map snd (filter (\<lambda>(s, m). s = sid) (w_templates w))"

definition occurrence_count :: "world \<Rightarrow> uuid \<Rightarrow> nat" where
  "occurrence_count w sid =
     length (filter (\<lambda>n. n_series_id n = Some sid \<and> n_superseded_at n = None) (w_notes w))"

definition series_response_data :: "world \<Rightarrow> recurrence_series \<Rightarrow> error + series_response" where
  "series_response_data w s =
     try_then (raised (frequency_from_rrule (rs_rrule s))) (\<lambda>f.
       Inr \<lparr>ss_id = rs_id s, ss_lineage_id = rs_lineage_id s, ss_predecessor_id = rs_predecessor_id s,
            ss_local_start = rs_local_start s, ss_timezone = rs_timezone s, ss_frequency = f,
            ss_end_date = rs_end_date s, ss_split_boundary = rs_split_boundary s,
            ss_title = rs_template_title s, ss_body = rs_template_body s,
            ss_active = rs_template_active s, ss_tag_ids = series_tag_ids w (rs_id s),
            ss_reminder_offsets_minutes = sort (series_offsets w (rs_id s)),
            ss_version = rs_version s, ss_created_at = rs_created_at s,
            ss_updated_at = rs_updated_at s, ss_occurrence_count = occurrence_count w (rs_id s)\<rparr>)"

subsection \<open>Creation\<close>

definition exn_text :: "py_exn \<Rightarrow> string" where
  "exn_text e = (case e of ValueError s \<Rightarrow> s | OverflowError s \<Rightarrow> s)"

definition naive :: "local \<Rightarrow> datetime" where
  "naive l = \<lparr>dt_local = l, dt_offset = None\<rparr>"

definition expand_payload ::
  "env \<Rightarrow> int \<Rightarrow> 'a series_fields_scheme \<Rightarrow> py_exn + occurrence list" where
  "expand_payload env limit p =
     expand_occurrences (zone_known env) (gettz env) (naive (sf_local_start p)) (sf_timezone p)
       (sf_frequency p) (sf_end_date p) limit"

definition blank_title :: error where
  "blank_title = invalid ''Invalid note'' ''title'' ''must not be blank''"

definition new_note ::
  "uuid \<Rightarrow> string \<Rightarrow> string \<Rightarrow> instant \<Rightarrow> bool \<Rightarrow> uuid option \<Rightarrow> instant option \<Rightarrow> instant \<Rightarrow> note_row" where
  "new_note i title body starts_at active sid key tx_now =
     \<lparr>n_id = i, n_title = title, n_body = body, n_starts_at = starts_at, n_active = active,
      n_deleted_at = None, n_superseded_at = None, n_series_trashed_at = None, n_purged_at = None,
      n_series_id = sid, n_recurrence_key = key, n_trash_action_id = None, n_created_at = tx_now,
      n_updated_at = tx_now, n_version = 1\<rparr>"

text \<open>The deadline and state of a delivery, collected for the last flush, and the flush.\<close>

record delivery_plan =
  dp_rule_id :: uuid
  dp_due_at :: instant
  dp_state :: delivery_state

definition plan_delivery :: "bool \<Rightarrow> instant \<Rightarrow> instant \<Rightarrow> uuid \<Rightarrow> int \<Rightarrow> delivery_plan" where
  "plan_delivery active starts_at now rule_id offset =
     (let deadline = due_at starts_at offset
      in \<lparr>dp_rule_id = rule_id, dp_due_at = deadline,
          dp_state = (if \<not> active then Cancelled else if deadline \<le> now then Missed else Pending)\<rparr>)"

definition planned_delivery :: "instant \<Rightarrow> uuid \<Rightarrow> delivery_plan \<Rightarrow> reminder_delivery" where
  "planned_delivery now i p =
     \<lparr>d_id = i, d_reminder_rule_id = dp_rule_id p, d_cycle_number = 1, d_due_at = dp_due_at p,
      d_state = dp_state p, d_claim_token = None, d_claim_expires_at = None, d_authorized_at = None,
      d_recipient_snapshot = None, d_content_snapshot = None,
      d_result_at = (if dp_state p \<in> {Cancelled, Missed} then Some now else None),
      d_error_code = None\<rparr>"

definition add_planned :: "env \<Rightarrow> instant \<Rightarrow> delivery_plan \<Rightarrow> world \<Rightarrow> world" where
  "add_planned env now p w =
     (let (i, w) = new_uuid env w in w\<lparr>w_deliveries := w_deliveries w @ [planned_delivery now i p]\<rparr>)"

definition add_offset ::
  "env \<Rightarrow> bool \<Rightarrow> instant \<Rightarrow> instant \<Rightarrow> uuid \<Rightarrow> int \<Rightarrow> world \<times> delivery_plan list
    \<Rightarrow> world \<times> delivery_plan list" where
  "add_offset env active starts_at now note_id offset = (\<lambda>(w, plans).
     let (rule_id, w) = new_uuid env w
     in (w\<lparr>w_rules := w_rules w @ [\<lparr>r_id = rule_id, r_note_id = note_id, r_offset_minutes = offset,
              r_enabled = True, r_current_cycle_number = 1\<rparr>]\<rparr>,
         plans @ [plan_delivery active starts_at now rule_id offset]))"

definition add_occurrence ::
  "env \<Rightarrow> 'a series_fields_scheme \<Rightarrow> string \<Rightarrow> uuid \<Rightarrow> instant \<Rightarrow> occurrence
    \<Rightarrow> world \<times> delivery_plan list \<Rightarrow> world \<times> delivery_plan list" where
  "add_occurrence env p title sid now occ = (\<lambda>(w, plans).
     let (note_id, w) = new_uuid env w;
         t = instant_of occ;
         n = new_note note_id title (nw_body p) t (nw_active p) (Some sid) (Some t) (w_now w);
         w = w\<lparr>w_notes := w_notes w @ [n],
               w_note_tags := w_note_tags w @ map (\<lambda>k. (note_id, k)) (nw_tag_ids p)\<rparr>
     in fold (add_offset env (nw_active p) t now note_id) (nw_offsets p) (w, plans))"

definition recurrence_error_field :: "string \<Rightarrow> string" where
  "recurrence_error_field text =
     (if contains ''end_date'' text \<or> contains ''exceeds'' text then ''end_date'' else ''timezone'')"

definition invalid_recurrence :: "string \<Rightarrow> string \<Rightarrow> string \<Rightarrow> error" where
  "invalid_recurrence message field text = field_error ''invalid_recurrence'' message field text"

definition create_series_rows ::
  "env \<Rightarrow> 'a series_fields_scheme \<Rightarrow> instant \<Rightarrow> int \<Rightarrow> world \<Rightarrow> error + recurrence_series \<times> world" where
  "create_series_rows env p now limit w =
     (let limit = min limit max_occurrences
      in try_then (validate_tags w (nw_tag_ids p)) (\<lambda>_.
           case expand_payload env limit p of
             Inl e \<Rightarrow> Inl (invalid_recurrence ''Invalid recurrence''
                        (recurrence_error_field (exn_text e)) (exn_text e))
           | Inr [] \<Rightarrow> Inl (invalid_recurrence ''Series has no valid occurrences''
                        ''local_start'' ''all local occurrences are nonexistent'')
           | Inr (o1 # os) \<Rightarrow>
               if nw_starts_at p \<noteq> instant_of o1
               then Inl (invalid_recurrence ''starts_at conflicts with local_start''
                      ''starts_at'' ''must equal the first valid recurrence instant'')
               else let title = strip (nw_title p)
               in if title = [] then Inl blank_title
               else
                 let (sid, w) = new_uuid env w;
                     s = \<lparr>rs_id = sid, rs_lineage_id = sid, rs_predecessor_id = None,
                          rs_local_start = sf_local_start p, rs_timezone = sf_timezone p,
                          rs_rrule = normalized_rrule (sf_frequency p), rs_end_date = sf_end_date p,
                          rs_split_boundary = None, rs_template_title = title,
                          rs_template_body = nw_body p, rs_template_active = nw_active p,
                          rs_purged_at = None, rs_created_at = w_now w, rs_updated_at = w_now w,
                          rs_version = 1\<rparr>;
                     w = w\<lparr>w_series := w_series w @ [s],
                           w_series_tags := w_series_tags w @ map (\<lambda>k. (sid, k)) (nw_tag_ids p),
                           w_templates := w_templates w @ map (\<lambda>m. (sid, m)) (nw_offsets p)\<rparr>;
                     (w, plans) = fold (add_occurrence env p title sid now) (o1 # os) (w, []);
                     w = fold (add_planned env now) plans w
                 in Inr (s, w)))"

subsection \<open>Exceptions\<close>

definition find_exception :: "world \<Rightarrow> uuid \<Rightarrow> instant \<Rightarrow> occurrence_exception option" where
  "find_exception w sid key =
     find (\<lambda>x. oe_series_id x = sid \<and> oe_recurrence_key x = key) (w_exceptions w)"

text \<open>The fields of an occurrence and those its series would give it, in the order of the dict.\<close>

definition occurrence_values :: "world \<Rightarrow> note_row \<Rightarrow> int \<Rightarrow> (string \<times> override) list" where
  "occurrence_values w n offset =
     [(''title'', OvText (n_title n)), (''body'', OvText (n_body n)),
      (''starts_at'', OvInstant (n_starts_at n) offset), (''active'', OvBool (n_active n)),
      (''tag_ids'', OvTags (sort (map snd (filter (\<lambda>(i, k). i = n_id n) (w_note_tags w))))),
      (''reminder_offsets_minutes'', OvOffsets (sort (enabled_offsets w (n_id n))))]"

definition series_defaults ::
  "world \<Rightarrow> recurrence_series \<Rightarrow> instant \<Rightarrow> (string \<times> override) list" where
  "series_defaults w s key =
     [(''title'', OvText (rs_template_title s)), (''body'', OvText (rs_template_body s)),
      (''starts_at'', OvInstant key 0), (''active'', OvBool (rs_template_active s)),
      (''tag_ids'', OvTags (sort (series_tag_ids w (rs_id s)))),
      (''reminder_offsets_minutes'', OvOffsets (sort (series_offsets w (rs_id s))))]"

definition overridden :: "(string \<times> override) list \<Rightarrow> (string \<times> override) list \<Rightarrow> (string \<times> override) list" where
  "overridden values defaults = filter (\<lambda>(k, v). Some v \<noteq> map_of defaults k) values"

definition set_exception ::
  "env \<Rightarrow> note_row \<Rightarrow> int \<Rightarrow> bool option \<Rightarrow> world \<Rightarrow> error + world" where
  "set_exception env n offset cancelled w =
     (case (n_series_id n, n_recurrence_key n) of
        (Some sid, Some key) \<Rightarrow>
          (case find (\<lambda>s. rs_id s = sid) (w_series w) of
             None \<Rightarrow> Inl NoResultFound
           | Some s \<Rightarrow>
               let w = (case find_exception w sid key of
                     Some row \<Rightarrow> w
                   | None \<Rightarrow> let (i, w) = new_uuid env w
                       in w\<lparr>w_exceptions := w_exceptions w @
                            [\<lparr>oe_id = i, oe_series_id = sid, oe_recurrence_key = key,
                              oe_overridden_fields = [], oe_cancelled = False\<rparr>]\<rparr>);
                   fields = overridden (occurrence_values w n offset) (series_defaults w s key)
               in Inr (w\<lparr>w_exceptions := update_where
                      (\<lambda>x. oe_series_id x = sid \<and> oe_recurrence_key x = key)
                      (\<lambda>x. x\<lparr>oe_overridden_fields := fields,
                             oe_cancelled := (case cancelled of None \<Rightarrow> oe_cancelled x | Some b \<Rightarrow> b)\<rparr>)
                      (w_exceptions w)\<rparr>))
      | _ \<Rightarrow> Inr w)"

subsection \<open>One occurrence\<close>

definition materialize_note ::
  "env \<Rightarrow> recurrence_series \<Rightarrow> occurrence \<Rightarrow> string \<Rightarrow> string \<Rightarrow> bool \<Rightarrow> uuid list \<Rightarrow> int list \<Rightarrow> instant
    \<Rightarrow> note_row option \<Rightarrow> world \<Rightarrow> note_row \<times> world" where
  "materialize_note env s occ title body active tag_ids offsets now note w =
     (let t = instant_of occ;
          (n, w) = (case note of
              None \<Rightarrow> let (i, w) = new_uuid env w;
                         n = new_note i title body t active (Some (rs_id s)) (Some t) (w_now w)
                     in (n, w\<lparr>w_notes := w_notes w @ [n]\<rparr>)
            | Some n0 \<Rightarrow>
                let schedule_changed = n_starts_at n0 \<noteq> t;
                    change = (\<lambda>n. n\<lparr>n_series_id := Some (rs_id s), n_recurrence_key := Some t,
                        n_title := title, n_body := body, n_starts_at := t, n_active := active,
                        n_deleted_at := None, n_superseded_at := None\<rparr>);
                    w = save_note (n_id n0) change w;
                    n = (change n0)\<lparr>n_version := n_version n0 + 1\<rparr>;
                    w = w\<lparr>w_note_tags := filter (\<lambda>(i, k). i \<noteq> n_id n) (w_note_tags w)\<rparr>
                in (n, reconcile_reminders env n offsets schedule_changed now w));
          w = w\<lparr>w_note_tags := w_note_tags w @ map (\<lambda>k. (n_id n, k)) tag_ids\<rparr>
      in (n, if filter (\<lambda>r. r_note_id r = n_id n) (w_rules w) = []
             then reconcile_reminders env n offsets False now w else w))"

end
