(* ===== verification/NoteHandlers.thy ===== *)
theory NoteHandlers
  imports Series
begin

section \<open>Notes, series and the recurring trash (app/api/router.py)\<close>

text \<open>
  The handlers that create, edit, trash and restore notes and series portions. They work on the
  note row they read and keep it in step with the table: \<open>save\<close> makes the change and counts the
  version. \<open>clock_timestamp()\<close> of the database is a reading of the clock.
\<close>

definition save :: "note_row \<Rightarrow> (note_row \<Rightarrow> note_row) \<Rightarrow> world \<Rightarrow> note_row \<times> world" where
  "save n f w = ((f n)\<lparr>n_version := n_version n + 1\<rparr>, save_note (n_id n) f w)"

definition retention :: int where
  "retention = days 30"

definition note_event :: "env \<Rightarrow> string \<Rightarrow> note_row \<Rightarrow> world \<Rightarrow> world" where
  "note_event env event_type n w = add_event env event_type (n_id n) (n_version n) (n_series_id n) w"

subsection \<open>Create, read, edit, delete\<close>

definition create_note :: "env \<Rightarrow> note_fields \<Rightarrow> world \<Rightarrow> error + note_response \<times> world" where
  "create_note env p w =
     (let (now, w) = utcnow env (begin_tx env w);
          title = strip (nw_title p)
      in if title = [] then Inl blank_title
         else
           let (i, w) = new_uuid env w;
               n = new_note i title (nw_body p) (nw_starts_at p) (nw_active p) None None (w_now w);
               w = w\<lparr>w_notes := w_notes w @ [n]\<rparr>
           in try_then (replace_tags w i (nw_tag_ids p)) (\<lambda>w.
                let w = reconcile_reminders env n (nw_offsets p) False now w;
                    w = note_event env ''note.created'' n w
                in Inr (note_response_of env w n, w)))"

definition locked_note_and_series ::
  "env \<Rightarrow> uuid \<Rightarrow> int option \<Rightarrow> world \<Rightarrow> error + note_row \<times> world" where
  "locked_note_and_series env i expected_series_version w =
     try_then (require_note w i) (\<lambda>candidate.
     try_then (lock_series env candidate expected_series_version w) (\<lambda>(s, w).
     try_then (require_note w i) (\<lambda>n. Inr (n, w))))"

definition get_note :: "env \<Rightarrow> uuid \<Rightarrow> world \<Rightarrow> error + note_response" where
  "get_note env i w = try_then (require_note w i) (\<lambda>n. Inr (note_response_of env w n))"

definition update_note :: "env \<Rightarrow> uuid \<Rightarrow> note_update \<Rightarrow> world \<Rightarrow> error + note_response \<times> world" where
  "update_note env i p w =
     try_then (locked_note_and_series env i (nu_expected_series_version p) (begin_tx env w)) (\<lambda>(n, w).
     try_then (check_note_version env w n (nu_expected_version p)) (\<lambda>_.
       if n_deleted_at n \<noteq> None
       then Inl (conflict ''note_deleted'' ''Restore the note before editing''
                  (CurrentNote (note_response_of env w n)))
       else let title = strip (nw_title p)
       in if title = [] then Inl blank_title
       else
         let schedule_changed = n_starts_at n \<noteq> nw_starts_at p;
             (t, w) = utcnow env w;
             (n, w) = save n (\<lambda>n. n\<lparr>n_title := title, n_body := nw_body p,
                 n_starts_at := nw_starts_at p, n_active := nw_active p, n_updated_at := t\<rparr>) w
         in try_then (replace_tags w i (nw_tag_ids p)) (\<lambda>w.
              let (now, w) = utcnow env w;
                  w = reconcile_reminders env n (nw_offsets p) schedule_changed now w
              in try_then (set_exception env n (nw_starts_offset p) None w) (\<lambda>w.
                   let w = note_event env ''note.updated'' n w
                   in Inr (note_response_of env w n, w)))))"

definition delete_note ::
  "env \<Rightarrow> uuid \<Rightarrow> int \<Rightarrow> int option \<Rightarrow> world \<Rightarrow> error + unit \<times> world" where
  "delete_note env i expected_version expected_series_version w =
     try_then (locked_note_and_series env i expected_series_version (begin_tx env w)) (\<lambda>(n, w).
     try_then (check_note_version env w n expected_version) (\<lambda>_.
       if n_deleted_at n \<noteq> None then Inr ((), w)
       else
         let (deleted, w) = utcnow env w;
             (updated, w) = utcnow env w;
             (n, w) = save n (\<lambda>n. n\<lparr>n_deleted_at := Some deleted, n_updated_at := updated\<rparr>) w;
             offsets = enabled_offsets w (n_id n);
             (now, w) = utcnow env w;
             w = reconcile_reminders env n offsets False now w
         in try_then (set_exception env n 0 (Some True) w) (\<lambda>w.
              Inr ((), note_event env ''note.deleted'' n w))))"

subsection \<open>The recurring trash\<close>

definition locked_series :: "uuid \<Rightarrow> int option \<Rightarrow> world \<Rightarrow> error + recurrence_series" where
  "locked_series sid expected w =
     (case find (\<lambda>s. rs_id s = sid \<and> rs_purged_at s = None) (w_series w) of
        None \<Rightarrow> Inl (api_error 404 ''not_found'' ''Recurrence series not found'')
      | Some s \<Rightarrow>
          if (case expected of None \<Rightarrow> False | Some v \<Rightarrow> rs_version s \<noteq> v)
          then Inl (version_conflict ''The recurrence series changed'' (CurrentVersion (rs_id s) (rs_version s)))
          else Inr s)"

definition save_series_row ::
  "recurrence_series \<Rightarrow> (recurrence_series \<Rightarrow> recurrence_series) \<Rightarrow> world \<Rightarrow> recurrence_series \<times> world" where
  "save_series_row s f w = ((f s)\<lparr>rs_version := rs_version s + 1\<rparr>, save_series (rs_id s) f w)"

definition updated_event :: "env \<Rightarrow> recurrence_series \<Rightarrow> world \<Rightarrow> world" where
  "updated_event env s w = add_event env ''series.updated'' (rs_id s) (rs_version s) (Some (rs_id s)) w"

text \<open>A change of a note that is followed by a reconciliation with the offsets it has.\<close>

definition change_and_reconcile ::
  "env \<Rightarrow> instant \<Rightarrow> (note_row \<Rightarrow> note_row) \<Rightarrow> note_row \<Rightarrow> world \<Rightarrow> world" where
  "change_and_reconcile env now f n w =
     (let (n, w) = save n f w
      in reconcile_reminders env n (enabled_offsets w (n_id n)) False now w)"

definition min_key :: "note_row list \<Rightarrow> instant option" where
  "min_key ns =
     (case concat (map (\<lambda>n. case n_recurrence_key n of None \<Rightarrow> [] | Some k \<Rightarrow> [k]) ns) of
        [] \<Rightarrow> None
      | k # ks \<Rightarrow> Some (fold min ks k))"

definition key_from :: "instant \<Rightarrow> note_row \<Rightarrow> bool" where
  "key_from boundary n = (case n_recurrence_key n of None \<Rightarrow> False | Some k \<Rightarrow> boundary \<le> k)"

definition portion_boundary ::
  "world \<Rightarrow> recurrence_series \<Rightarrow> instant option \<Rightarrow> bool \<Rightarrow> error + instant" where
  "portion_boundary w s requested restoring =
     (let in_portion = (\<lambda>n. n_series_id n = Some (rs_id s) \<and> n_superseded_at n = None
            \<and> (restoring \<longrightarrow> n_series_trashed_at n \<noteq> None));
          candidates = filter in_portion (w_notes w)
      in case (case requested of Some k \<Rightarrow> Some k | None \<Rightarrow> min_key candidates) of
           None \<Rightarrow> Inl (api_error 409 (if restoring then ''nothing_to_restore'' else ''empty_series'')
                      ''The series portion is empty'')
         | Some boundary \<Rightarrow>
             if \<exists>n \<in> set candidates. n_recurrence_key n = Some boundary then Inr boundary
             else Inl (api_error 404 ''occurrence_not_found'' ''Selected occurrence not found''))"

definition trash_series_portion ::
  "env \<Rightarrow> uuid \<Rightarrow> portion_request \<Rightarrow> world \<Rightarrow> error + unit \<times> world" where
  "trash_series_portion env sid p w =
     (let w = begin_tx env w
      in try_then (locked_series sid (Some (po_series_version p)) w) (\<lambda>s.
         try_then (portion_boundary w s (po_recurrence_key p) False) (\<lambda>boundary.
           let notes = sort_key n_id (filter (\<lambda>n. n_series_id n = Some (rs_id s) \<and> key_from boundary n
                 \<and> n_deleted_at n = None \<and> n_superseded_at n = None \<and> n_purged_at n = None) (w_notes w))
           in if notes = [] then Inl (api_error 409 ''empty_series'' ''The series portion is empty'')
           else
             let (action_id, w) = new_uuid env w;
                 (now, w) = utcnow env w;
                 w = w\<lparr>w_actions := w_actions w @ [\<lparr>ta_id = action_id, ta_series_id = rs_id s,
                         ta_boundary = boundary, ta_trashed_at = now, ta_sealed_at = None\<rparr>],
                       w_members := w_members w @ map (\<lambda>n. (action_id, n_id n)) notes\<rparr>;
                 w = fold (change_and_reconcile env now (\<lambda>n. n\<lparr>n_deleted_at := Some now,
                         n_trash_action_id := Some action_id, n_updated_at := now\<rparr>)) notes w;
                 (s, w) = save_series_row s (\<lambda>s. s\<lparr>rs_updated_at := now\<rparr>) w;
                 (sealed, w) = utcnow env w;
                 w = w\<lparr>w_actions := update_where (\<lambda>a. ta_id a = action_id)
                         (\<lambda>a. a\<lparr>ta_sealed_at := Some sealed\<rparr>) (w_actions w)\<rparr>
             in Inr ((), updated_event env s w))))"

definition action_members :: "world \<Rightarrow> uuid \<Rightarrow> note_row list" where
  "action_members w action_id =
     filter (\<lambda>n. n_id n \<in> set (map snd (filter (\<lambda>(a, i). a = action_id) (w_members w)))) (w_notes w)"

definition restore_members ::
  "env \<Rightarrow> uuid \<Rightarrow> int \<Rightarrow> (uuid \<times> int) option \<Rightarrow> world \<Rightarrow> error + recurrence_series \<times> world" where
  \<comment> \<open>\<open>_restore_trash_action\<close>\<close>
  "restore_members env action_id expected_series_version selected w =
     (case find (\<lambda>a. ta_id a = action_id) (w_actions w) of
        None \<Rightarrow> Inl (api_error 404 ''trash_action_not_found'' ''Trash action not found'')
      | Some a \<Rightarrow>
          try_then (locked_series (ta_series_id a) (Some expected_series_version) w) (\<lambda>s.
            let notes = sort_key n_id (action_members w action_id);
                current = filter (\<lambda>n. n_trash_action_id n = Some action_id) notes
            in if current = [] then Inl (api_error 409 ''nothing_to_restore'' ''Trash action is already closed'')
            else if length current \<noteq> length notes
            then Inl (api_error 409 ''trash_invariant_breach'' ''Trash action membership is incomplete'')
            else try_then
              (case selected of
                 None \<Rightarrow> Inr ()
               | Some (i, v) \<Rightarrow>
                   (case find (\<lambda>n. n_id n = i) notes of
                      None \<Rightarrow> Inl (api_error 404 ''not_found'' ''Note not found'')
                    | Some n \<Rightarrow> check_note_version env w n v))
              (\<lambda>_.
                let (now, w) = utcnow env w
                in if ta_trashed_at a \<le> now - retention
                   then Inl (api_error 410 ''retention_expired'' ''The trash action can no longer be restored'')
                   else
                     let w = fold (change_and_reconcile env now (\<lambda>n. n\<lparr>n_trash_action_id := None,
                               n_deleted_at := None, n_updated_at := now\<rparr>)) notes w;
                         (s, w) = save_series_row s (\<lambda>s. s\<lparr>rs_updated_at := now\<rparr>) w
                     in Inr (s, updated_event env s w))))"

definition restore_trash_action ::
  "env \<Rightarrow> uuid \<Rightarrow> int \<Rightarrow> world \<Rightarrow> error + series_response \<times> world" where
  "restore_trash_action env action_id expected_series_version w =
     try_then (restore_members env action_id expected_series_version None (begin_tx env w)) (\<lambda>(s, w).
     try_then (series_response_data w s) (\<lambda>r. Inr (r, w)))"

definition restore_note :: "env \<Rightarrow> uuid \<Rightarrow> restore_request \<Rightarrow> world \<Rightarrow> error + note_response \<times> world" where
  "restore_note env i p w =
     (let w = begin_tx env w
      in try_then (require_note w i) (\<lambda>candidate.
         case n_trash_action_id candidate of
           Some action_id \<Rightarrow>
             (case rr_expected_series_version p of
                None \<Rightarrow> Inl (invalid ''Recurring note restore requires expected_series_version''
                          ''expected_series_version'' ''required'')
              | Some v \<Rightarrow>
                  try_then (restore_members env action_id v (Some (i, rr_expected_version p)) w) (\<lambda>(s, w).
                  try_then (require_note w i) (\<lambda>n. Inr (note_response_of env w n, w))))
         | None \<Rightarrow>
             try_then (locked_note_and_series env i (rr_expected_series_version p) w) (\<lambda>(n, w).
             try_then (check_note_version env w n (rr_expected_version p)) (\<lambda>_.
               case n_deleted_at n of
                 None \<Rightarrow> Inl (conflict ''note_not_deleted'' ''Note is not in trash''
                            (CurrentNote (note_response_of env w n)))
               | Some deleted_at \<Rightarrow>
                   let (t, w) = utcnow env w
                   in if deleted_at \<le> t - retention
                      then Inl (api_error 410 ''retention_expired'' ''The note can no longer be restored'')
                      else
                        let (updated, w) = utcnow env w;
                            (n, w) = save n (\<lambda>n. n\<lparr>n_deleted_at := None, n_updated_at := updated\<rparr>) w;
                            offsets = enabled_offsets w (n_id n);
                            (now, w) = utcnow env w;
                            w = reconcile_reminders env n offsets False now w
                        in try_then (set_exception env n 0 (Some False) w) (\<lambda>w.
                             let w = note_event env ''note.restored'' n w
                             in Inr (note_response_of env w n, w))))))"

text \<open>
  Restoring a portion: a single trash action that starts there, or else the notes an older
  release trashed with the portion, of which those cancelled one by one stay in the trash.
\<close>

definition restore_legacy_note ::
  "env \<Rightarrow> recurrence_series \<Rightarrow> instant \<Rightarrow> note_row \<Rightarrow> world \<Rightarrow> world" where
  "restore_legacy_note env s now n w =
     (case (case n_recurrence_key n of None \<Rightarrow> None | Some k \<Rightarrow> find_exception w (rs_id s) k) of
        Some x \<Rightarrow> if oe_cancelled x then snd (save n (\<lambda>n. n\<lparr>n_series_trashed_at := None\<rparr>) w)
                  else change_and_reconcile env now
                         (\<lambda>n. n\<lparr>n_series_trashed_at := None, n_deleted_at := None, n_updated_at := now\<rparr>) n w
      | None \<Rightarrow> change_and_reconcile env now
                  (\<lambda>n. n\<lparr>n_series_trashed_at := None, n_deleted_at := None, n_updated_at := now\<rparr>) n w)"

definition individual_restore :: error where
  "individual_restore = api_error 409 ''individual_restore_required'' ''Restore each trash action individually.''"

definition restore_series_portion ::
  "env \<Rightarrow> uuid \<Rightarrow> portion_request \<Rightarrow> world \<Rightarrow> error + series_response \<times> world" where
  "restore_series_portion env sid p w =
     (let w = begin_tx env w
      in try_then (locked_series sid (Some (po_series_version p)) w) (\<lambda>s.
           let from = (\<lambda>n. case po_recurrence_key p of None \<Rightarrow> True | Some k \<Rightarrow> key_from k n);
               action_ids = sort (remdups (concat (map
                 (\<lambda>n. case n_trash_action_id n of None \<Rightarrow> [] | Some a \<Rightarrow> [a])
                 (filter (\<lambda>n. n_series_id n = Some (rs_id s) \<and> from n) (w_notes w)))));
               has_legacy = (\<exists>n \<in> set (w_notes w). n_series_id n = Some (rs_id s)
                 \<and> n_series_trashed_at n \<noteq> None \<and> n_trash_action_id n = None \<and> n_deleted_at n \<noteq> None
                 \<and> n_superseded_at n = None \<and> n_purged_at n = None \<and> from n)
           in case action_ids of
             a # as \<Rightarrow>
               if as \<noteq> [] \<or> has_legacy then Inl individual_restore
               else (case find (\<lambda>x. ta_id x = a) (w_actions w) of
                   None \<Rightarrow> Inl NoResultFound
                 | Some act \<Rightarrow>
                     if po_recurrence_key p \<noteq> None \<and> po_recurrence_key p \<noteq> Some (ta_boundary act)
                     then Inl individual_restore
                     else try_then (restore_members env a (po_series_version p) None w) (\<lambda>(s, w).
                          try_then (series_response_data w s) (\<lambda>r. Inr (r, w))))
           | [] \<Rightarrow>
               try_then (portion_boundary w s (po_recurrence_key p) True) (\<lambda>boundary.
                 let notes = sort_key n_id (filter (\<lambda>n. n_series_id n = Some (rs_id s) \<and> key_from boundary n
                       \<and> n_series_trashed_at n \<noteq> None \<and> n_superseded_at n = None) (w_notes w));
                     (now, w) = utcnow env w
                 in if \<exists>n \<in> set notes. the (n_series_trashed_at n) \<le> now - retention
                    then Inl (api_error 410 ''retention_expired'' ''The series portion can no longer be restored'')
                    else
                      let w = fold (restore_legacy_note env s now) notes w;
                          (s, w) = save_series_row s (\<lambda>s. s\<lparr>rs_updated_at := now\<rparr>) w;
                          w = updated_event env s w
                      in try_then (series_response_data w s) (\<lambda>r. Inr (r, w)))))"

subsection \<open>Series\<close>

definition create_series ::
  "env \<Rightarrow> series_fields \<Rightarrow> world \<Rightarrow> error + series_response \<times> world" where
  "create_series env p w =
     (let (now, w) = utcnow env (begin_tx env w)
      in try_then (create_series_rows env p now (max_series_occurrences env) w) (\<lambda>(s, w).
           let w = updated_event env s w
           in try_then (series_response_data w s) (\<lambda>r. Inr (r, w))))"

definition get_series :: "uuid \<Rightarrow> world \<Rightarrow> error + series_response" where
  "get_series sid w = try_then (locked_series sid None w) (series_response_data w)"

definition preview_series :: "env \<Rightarrow> preview_request \<Rightarrow> error + preview_response" where
  "preview_series env p =
     (case expand_occurrences (zone_known env) (gettz env) (naive (pq_local_start p)) (pq_timezone p)
         (pq_frequency p) (pq_end_date p) (min (max_series_occurrences env) 10000) of
        Inl e \<Rightarrow> Inl (api_error 422 ''invalid_recurrence'' ''Invalid recurrence'')
      | Inr [] \<Rightarrow> Inl (api_error 422 ''invalid_recurrence'' ''Series has no valid occurrences'')
      | Inr (o1 # os) \<Rightarrow> Inr \<lparr>pv_starts_at = instant_of o1, pv_occurrence_count = length (o1 # os)\<rparr>)"

end
