(* ===== verification/Split.thy ===== *)
theory Split
  imports NoteHandlers
begin

section \<open>Splitting a series (app/api/router.py)\<close>

text \<open>
  A change of the future of a series closes the old series before the selected occurrence and
  opens a successor: occurrences of the new schedule take over the notes with the same
  recurrence key, the other future notes are superseded, and purged notes stay as they are.
\<close>

definition successor_of :: "world \<Rightarrow> uuid \<Rightarrow> uuid option" where
  "successor_of w sid =
     (case sort (map rs_id (filter (\<lambda>s. rs_predecessor_id s = Some sid) (w_series w))) of
        [] \<Rightarrow> None
      | i # is \<Rightarrow> Some i)"

text \<open>The guards, in the order of the code; what they let through is what the split works on.\<close>

record split_plan =
  pl_old :: recurrence_series
  pl_key :: instant
  pl_affected :: "note_row list"
  pl_generated :: "occurrence list"
  pl_title :: string

definition affected_notes :: "world \<Rightarrow> uuid \<Rightarrow> instant \<Rightarrow> note_row list" where
  "affected_notes w sid key =
     sort_key n_id (filter (\<lambda>n. n_series_id n = Some sid \<and> key_from key n \<and> n_superseded_at n = None) (w_notes w))"

definition colliding_notes ::
  "world \<Rightarrow> recurrence_series \<Rightarrow> instant \<Rightarrow> instant list \<Rightarrow> note_row list" where
  "colliding_notes w old key keys =
     sort_key (\<lambda>n. (the (n_recurrence_key n), n_id n))
       (filter (\<lambda>n. (\<exists>s \<in> set (w_series w). n_series_id n = Some (rs_id s) \<and> rs_lineage_id s = rs_lineage_id old)
          \<and> (case n_recurrence_key n of None \<Rightarrow> False | Some k \<Rightarrow> k < key)
          \<and> (the (n_recurrence_key n) \<in> set keys \<or> n_starts_at n \<in> set keys)
          \<and> n_superseded_at n = None) (w_notes w))"

definition split_checks ::
  "env \<Rightarrow> uuid \<Rightarrow> series_split \<Rightarrow> instant \<Rightarrow> world \<Rightarrow> error + split_plan" where
  "split_checks env sid p now w =
     try_then (locked_series sid None w) (\<lambda>old.
       if rs_split_boundary old \<noteq> None \<or> successor_of w (rs_id old) \<noteq> None
       then Inl (conflict ''series_not_leaf'' ''Only the open leaf recurrence series can be split''
                  (CurrentLeaf (rs_id old) (rs_split_boundary old) (successor_of w (rs_id old))))
       else if rs_version old \<noteq> sp_series_version p
       then Inl (version_conflict ''The recurrence series changed'' (CurrentVersion (rs_id old) (rs_version old)))
       else (case find (\<lambda>n. n_series_id n = Some (rs_id old) \<and> n_recurrence_key n = Some (sp_recurrence_key p)
               \<and> n_superseded_at n = None \<and> n_purged_at n = None) (w_notes w) of
           None \<Rightarrow> Inl (api_error 404 ''occurrence_not_found'' ''Selected occurrence not found'')
         | Some selected \<Rightarrow>
             if n_version selected \<noteq> sp_expected_occurrence_version p
             then Inl (version_conflict ''The selected occurrence changed''
                        (CurrentVersion (n_id selected) (n_version selected)))
             else
               let key = sp_recurrence_key p; affected = affected_notes w (rs_id old) key
               in if \<exists>n \<in> set affected. n_trash_action_id n \<noteq> None \<or> n_series_trashed_at n \<noteq> None
                  then Inl (api_error 409 ''trash_action_overlap''
                             ''Restore the affected Trash entries before splitting the series'')
                  else if \<exists>n \<in> set affected. n_starts_at n \<le> now
                  then Inl (conflict ''historical_replacement''
                             ''A future-series change cannot rewrite an occurrence that has already started''
                             (CurrentNoteIds (map n_id (filter (\<lambda>n. n_starts_at n \<le> now) affected))))
                  else (case expand_payload env (min (max_series_occurrences env) 10000) p of
                      Inl e \<Rightarrow> Inl (invalid_recurrence ''Invalid recurrence'' ''end_date'' (exn_text e))
                    | Inr [] \<Rightarrow> Inl (api_error 422 ''invalid_recurrence'' ''Series has no valid occurrences'')
                    | Inr (o1 # os) \<Rightarrow>
                        let generated = o1 # os; keys = map instant_of generated
                        in if nw_starts_at p \<noteq> instant_of o1
                           then Inl (invalid_recurrence ''starts_at conflicts with local_start''
                                  ''starts_at'' ''must equal the first valid recurrence instant'')
                           else if \<exists>t \<in> set keys. t \<le> now
                           then Inl (conflict ''historical_replacement''
                                  ''A future-series change cannot create an occurrence that has already started''
                                  (CurrentKeys (filter (\<lambda>t. t \<le> now) keys)))
                           else if colliding_notes w old key keys \<noteq> []
                           then let cs = colliding_notes w old key keys
                             in Inl (conflict ''recurrence_collision''
                                  ''The replacement schedule collides with an earlier occurrence''
                                  (CurrentCollision (map n_id cs) (map (the \<circ> n_recurrence_key) cs) (map n_starts_at cs)))
                           else try_then (validate_tags w (nw_tag_ids p)) (\<lambda>_.
                             let title = strip (nw_title p)
                             in if title = [] then Inl blank_title
                                else Inr \<lparr>pl_old = old, pl_key = key, pl_affected = affected,
                                          pl_generated = generated, pl_title = title\<rparr>))))"

text \<open>
  One occurrence of the new schedule: the note with its key is taken over, or a note is made. The
  row in memory follows the table: \<open>current_row\<close>.
\<close>

definition current_row :: "world \<Rightarrow> note_row \<Rightarrow> note_row" where
  "current_row w n = (case find (\<lambda>m. n_id m = n_id n) (w_notes w) of None \<Rightarrow> n | Some m \<Rightarrow> m)"

definition place_occurrence ::
  "env \<Rightarrow> series_split \<Rightarrow> string \<Rightarrow> uuid \<Rightarrow> instant \<Rightarrow> note_row list \<Rightarrow> occurrence
    \<Rightarrow> uuid list \<times> world \<Rightarrow> uuid list \<times> world" where
  "place_occurrence env p title sid now reusable occ = (\<lambda>(kept, w).
     let t = instant_of occ
     in (case find (\<lambda>n. n_recurrence_key n = Some t) reusable of
           None \<Rightarrow>
             let (i, w) = new_uuid env w;
                 n = new_note i title (nw_body p) t (nw_active p) (Some sid) (Some t) (w_now w);
                 w = w\<lparr>w_notes := w_notes w @ [n],
                       w_note_tags := w_note_tags w @ map (\<lambda>k. (i, k)) (nw_tag_ids p)\<rparr>
             in (kept, reconcile_reminders env n (nw_offsets p) False now w)
         | Some n0 \<Rightarrow>
             let n = current_row w n0;
                 schedule_changed = n_starts_at n \<noteq> t;
                 (n, w) = save n (\<lambda>n. n\<lparr>n_series_id := Some sid, n_title := title, n_body := nw_body p,
                     n_starts_at := t, n_active := nw_active p, n_deleted_at := None,
                     n_series_trashed_at := None, n_superseded_at := None, n_updated_at := now\<rparr>) w;
                 w = w\<lparr>w_note_tags := filter (\<lambda>(i, k). i \<noteq> n_id n) (w_note_tags w)
                         @ map (\<lambda>k. (n_id n, k)) (nw_tag_ids p)\<rparr>
             in (kept @ [n_id n], reconcile_reminders env n (nw_offsets p) schedule_changed now w)))"

definition supersede_note :: "env \<Rightarrow> instant \<Rightarrow> note_row \<Rightarrow> world \<Rightarrow> world" where
  "supersede_note env now n w =
     change_and_reconcile env now
       (\<lambda>n. n\<lparr>n_deleted_at := Some now, n_superseded_at := Some now, n_updated_at := now\<rparr>) n w"

definition successor_series ::
  "uuid \<Rightarrow> recurrence_series \<Rightarrow> string \<Rightarrow> series_split \<Rightarrow> instant \<Rightarrow> recurrence_series" where
  "successor_series sid old title p tx_now =
     \<lparr>rs_id = sid, rs_lineage_id = rs_lineage_id old, rs_predecessor_id = Some (rs_id old),
      rs_local_start = sf_local_start p, rs_timezone = sf_timezone p,
      rs_rrule = normalized_rrule (sf_frequency p), rs_end_date = sf_end_date p,
      rs_split_boundary = None, rs_template_title = title, rs_template_body = nw_body p,
      rs_template_active = nw_active p, rs_purged_at = None, rs_created_at = tx_now,
      rs_updated_at = tx_now, rs_version = 1\<rparr>"

definition split_series ::
  "env \<Rightarrow> uuid \<Rightarrow> series_split \<Rightarrow> world \<Rightarrow> error + series_response \<times> world" where
  "split_series env sid p w =
     (let w = begin_tx env w; (now, w) = utcnow env w
      in try_then (split_checks env sid p now w) (\<lambda>pl.
           let old = pl_old pl; key = pl_key pl;
               (succ_id, w) = new_uuid env w;
               s = successor_series succ_id old (pl_title pl) p (w_now w);
               w = w\<lparr>w_series := w_series w @ [s],
                     w_series_tags := w_series_tags w @ map (\<lambda>k. (succ_id, k)) (nw_tag_ids p),
                     w_templates := w_templates w @ map (\<lambda>m. (succ_id, m)) (nw_offsets p)\<rparr>
           in case prev_day (local_date (to_local env (rs_timezone old) key)) of
                None \<Rightarrow> Inl (Raised (OverflowError ''date value out of range''))
              | Some last_day \<Rightarrow>
                  let w = save_series (rs_id old) (\<lambda>s. s\<lparr>rs_end_date := last_day,
                            rs_split_boundary := Some key, rs_updated_at := now\<rparr>) w;
                      reusable = filter (\<lambda>n. n_purged_at n = None) (pl_affected pl);
                      (kept, w) = fold (place_occurrence env p (pl_title pl) succ_id now reusable)
                            (pl_generated pl) ([], w);
                      w = fold (supersede_note env now)
                            (filter (\<lambda>n. n_id n \<notin> set kept) reusable) w;
                      purged_keys = concat (map (\<lambda>n. case n_recurrence_key n of None \<Rightarrow> [] | Some k \<Rightarrow> [k])
                            (filter (\<lambda>n. n_purged_at n \<noteq> None) (pl_affected pl)));
                      w = w\<lparr>w_exceptions := filter (\<lambda>x. \<not> (oe_series_id x = rs_id old
                              \<and> key \<le> oe_recurrence_key x \<and> oe_recurrence_key x \<notin> set purged_keys))
                            (w_exceptions w)\<rparr>;
                      w = updated_event env s w
                  in try_then (series_response_data w s) (\<lambda>r. Inr (r, w))))"

end
