(* ===== verification/Listing.thy ===== *)
theory Listing
  imports NoteHandlers
begin

section \<open>Queries (app/api/router.py)\<close>

text \<open>
  The read-only handlers: the filtered and paged list of notes, the calendar, the three groups of
  upcoming notes, the notifications and the groups of the trash. \<^verbatim>\<open>ILIKE\<close> with the escape
  character is \<open>like\<close>, on lower-cased texts; the database's \<open>lower\<close> on the stored search text is
  the letter-by-letter one, as for the ASCII range.
\<close>

definition paginate :: "nat \<Rightarrow> nat \<Rightarrow> 'a list \<Rightarrow> 'a list" where
  "paginate page_number per_page rows = take per_page (drop ((page_number - 1) * per_page) rows)"

definition aware_query :: "datetime option \<Rightarrow> string \<Rightarrow> error + instant option" where
  "aware_query value field =
     (case value of
        None \<Rightarrow> Inr None
      | Some t \<Rightarrow> (case dt_instant t of
            None \<Rightarrow> Inl (invalid ''Invalid datetime'' field ''must include a UTC offset'')
          | Some i \<Rightarrow> Inr (Some i)))"

subsection \<open>LIKE patterns\<close>

definition backslash :: char where
  "backslash = char_of (92::nat)"

text \<open>A pattern is read as a list of items: any sequence, any character, or a literal one.\<close>

datatype pattern_item = AnySeq | AnyChar | Literal char

fun read_pattern :: "string \<Rightarrow> pattern_item list" where
  "read_pattern [] = []"
| "read_pattern (c # cs) =
     (if c = backslash then (case cs of [] \<Rightarrow> [Literal c] | d # ds \<Rightarrow> Literal d # read_pattern ds)
      else if c = CHR ''%'' then AnySeq # read_pattern cs
      else if c = CHR ''_'' then AnyChar # read_pattern cs
      else Literal c # read_pattern cs)"

fun match_items :: "pattern_item list \<Rightarrow> string \<Rightarrow> bool" where
  "match_items [] s = (s = [])"
| "match_items (Literal c # ps) s = (case s of [] \<Rightarrow> False | d # ds \<Rightarrow> c = d \<and> match_items ps ds)"
| "match_items (AnyChar # ps) s = (case s of [] \<Rightarrow> False | d # ds \<Rightarrow> match_items ps ds)"
| "match_items (AnySeq # ps) [] = match_items ps []"
| "match_items (AnySeq # ps) (d # ds) = (match_items ps (d # ds) \<or> match_items (AnySeq # ps) ds)"

definition like :: "string \<Rightarrow> string \<Rightarrow> bool" where
  "like pattern text = match_items (read_pattern (lower pattern)) (lower text)"

text \<open>\<open>s.replace(c, r)\<close> for a one-character \<open>c\<close>, and the three replacements of the filter.\<close>

definition replace_char :: "char \<Rightarrow> string \<Rightarrow> string \<Rightarrow> string" where
  "replace_char c r s = concat (map (\<lambda>x. if x = c then r else [x]) s)"

definition escape_like :: "string \<Rightarrow> string" where
  "escape_like s =
     replace_char (CHR ''_'') [backslash, CHR ''_'']
       (replace_char (CHR ''%'') [backslash, CHR ''%'']
         (replace_char backslash [backslash, backslash] s))"

definition search_text :: "note_row \<Rightarrow> string" where
  "search_text n = lower (n_title n @ '' '' @ n_body n)"

subsection \<open>The list of notes\<close>

record note_filter =
  ft_q :: "string option"
  ft_tag_ids :: "uuid list"
  ft_active :: "bool option"
  ft_from :: "instant option"
  ft_to :: "instant option"
  ft_trash :: bool

definition has_all_tags :: "world \<Rightarrow> uuid list \<Rightarrow> note_row \<Rightarrow> bool" where
  "has_all_tags w tag_ids n \<longleftrightarrow>
     length (remdups (map snd (filter (\<lambda>(i, k). i = n_id n \<and> k \<in> set tag_ids) (w_note_tags w))))
     = length (remdups tag_ids)"

definition notes_filter :: "world \<Rightarrow> note_filter \<Rightarrow> error + (note_row \<Rightarrow> bool)" where
  "notes_filter w f =
     (let base = (\<lambda>n. n_superseded_at n = None \<and> n_purged_at n = None
            \<and> (if ft_trash f then n_deleted_at n \<noteq> None \<and> n_purged_at n = None else n_deleted_at n = None)
            \<and> (case ft_active f of None \<Rightarrow> True | Some b \<Rightarrow> n_active n = b)
            \<and> (case ft_from f of None \<Rightarrow> True | Some t \<Rightarrow> t \<le> n_starts_at n)
            \<and> (case ft_to f of None \<Rightarrow> True | Some t \<Rightarrow> n_starts_at n < t));
          tagged = (\<lambda>n. ft_tag_ids f \<noteq> [] \<longrightarrow> has_all_tags w (ft_tag_ids f) n)
      in case ft_q f of
           None \<Rightarrow> Inr (\<lambda>n. base n \<and> tagged n)
         | Some q \<Rightarrow>
             let cleaned = strip q
             in if length cleaned < 3
                then Inl (invalid ''Search text is too short'' ''q'' ''enter at least 3 non-whitespace characters'')
                else let pattern = ''%'' @ escape_like (lower cleaned) @ ''%''
                in Inr (\<lambda>n. base n \<and> like pattern (search_text n) \<and> tagged n))"

datatype sort_column = ByStart | ByUpdate
datatype direction = Asc | Desc

definition sort_notes :: "sort_column \<Rightarrow> direction \<Rightarrow> note_row list \<Rightarrow> note_row list" where
  "sort_notes col dir ns =
     (let key = (\<lambda>n. (case col of ByStart \<Rightarrow> n_starts_at n | ByUpdate \<Rightarrow> n_updated_at n));
          ordered = sort_key (\<lambda>n. (key n, n_id n)) ns
      in case dir of Asc \<Rightarrow> ordered | Desc \<Rightarrow> rev ordered)"

definition list_notes ::
  "env \<Rightarrow> string option \<Rightarrow> uuid list \<Rightarrow> bool option \<Rightarrow> datetime option \<Rightarrow> datetime option \<Rightarrow> bool
    \<Rightarrow> sort_column \<Rightarrow> direction \<Rightarrow> nat \<Rightarrow> nat \<Rightarrow> world \<Rightarrow> error + note_response page" where
  "list_notes env q tag_ids active starts_from starts_to trash col dir page_number per_page w =
     try_then (aware_query starts_from ''starts_from'') (\<lambda>from.
     try_then (aware_query starts_to ''starts_to'') (\<lambda>to.
       if (case (from, to) of (Some a, Some b) \<Rightarrow> b \<le> a | _ \<Rightarrow> False)
       then Inl (invalid ''Invalid range'' ''starts_to'' ''must be after starts_from'')
       else try_then (notes_filter w \<lparr>ft_q = q, ft_tag_ids = tag_ids, ft_active = active, ft_from = from,
                        ft_to = to, ft_trash = trash\<rparr>) (\<lambda>conditions.
         let matching = filter conditions (w_notes w);
             rows = paginate page_number per_page (sort_notes col dir matching)
         in Inr \<lparr>items = notes_response env w rows, total = length matching, page_no = page_number,
                 page_size = per_page\<rparr>)))"

subsection \<open>Calendar and upcoming notes\<close>

definition visible :: "note_row \<Rightarrow> bool" where
  "visible n \<longleftrightarrow> n_deleted_at n = None \<and> n_superseded_at n = None \<and> n_purged_at n = None"

definition by_start :: "note_row list \<Rightarrow> note_row list" where
  "by_start ns = sort_key (\<lambda>n. (n_starts_at n, n_id n)) ns"

definition calendar :: "env \<Rightarrow> datetime \<Rightarrow> datetime \<Rightarrow> world \<Rightarrow> error + note_response list" where
  "calendar env starts_from starts_to w =
     try_then (aware_query (Some starts_from) ''starts_from'') (\<lambda>from'.
     try_then (aware_query (Some starts_to) ''starts_to'') (\<lambda>to'.
       let from = the from'; to = the to'
       in if to \<le> from \<or> to - from > days 93
          then Inl (field_error ''invalid_range'' ''Calendar range must be positive and no longer than 93 days''
                     ''starts_to'' ''narrow the range'')
          else
            let rows = take 5001 (by_start (filter (\<lambda>n. visible n \<and> from \<le> n_starts_at n \<and> n_starts_at n < to)
                  (w_notes w)))
            in if 5000 < length rows
               then Inl (api_error 413 ''range_too_large'' ''Too many calendar notes; narrow the range'')
               else Inr (notes_response env w rows)))"

definition note_group ::
  "env \<Rightarrow> world \<Rightarrow> (note_row \<Rightarrow> bool) \<Rightarrow> nat \<Rightarrow> nat \<Rightarrow> note_response page" where
  "note_group env w conditions page_number per_page =
     (let matching = filter conditions (w_notes w)
      in \<lparr>items = notes_response env w (paginate page_number per_page (by_start matching)),
          total = length matching, page_no = page_number, page_size = per_page\<rparr>)"

record upcoming_response =
  up_today :: "note_response page"
  up_week :: "note_response page"
  up_past :: "note_response page"
  up_server_now :: instant
  up_next_transition_at :: instant

text \<open>\<open>weekday()\<close>: Monday is 0; 0001-01-01 was a Monday.\<close>

definition weekday :: "date \<Rightarrow> nat" where
  "weekday d = (toordinal d - 1) mod 7"

definition midnight_after :: "env \<Rightarrow> string \<Rightarrow> date \<Rightarrow> nat \<Rightarrow> error + instant" where
  "midnight_after env tz d n =
     (case add_days n d of
        None \<Rightarrow> Inl (Raised (OverflowError ''date value out of range''))
      | Some d' \<Rightarrow> Inr (of_local env tz (Local d' 0)))"

definition upcoming :: "env \<Rightarrow> nat \<Rightarrow> nat \<Rightarrow> world \<Rightarrow> error + upcoming_response \<times> world" where
  "upcoming env page_number per_page w =
     (let (profile, w) = profile_settings env w;
          (now, w) = utcnow env w;
          tz = us_timezone profile;
          d = local_date (to_local env tz now)
      in try_then (midnight_after env tz d 1) (\<lambda>tomorrow.
         try_then (midnight_after env tz d (7 - weekday d)) (\<lambda>week_end.
           let base = (\<lambda>n. visible n \<and> n_active n);
               next_starts = map n_starts_at (filter (\<lambda>n. base n \<and> now \<le> n_starts_at n) (w_notes w))
           in Inr (\<lparr>up_today = note_group env w (\<lambda>n. base n \<and> now \<le> n_starts_at n \<and> n_starts_at n < tomorrow)
                        page_number per_page,
                   up_week = note_group env w (\<lambda>n. base n \<and> tomorrow \<le> n_starts_at n \<and> n_starts_at n < week_end)
                        page_number per_page,
                   up_past = note_group env w (\<lambda>n. base n \<and> n_starts_at n < now) page_number per_page,
                   up_server_now = now,
                   up_next_transition_at = fold min next_starts (min tomorrow week_end)\<rparr>, w))))"

subsection \<open>Notifications\<close>

definition notification_response_of :: "notification \<Rightarrow> notification_response" where
  "notification_response_of nf = \<lparr>nfr_id = nf_id nf, nfr_reminder_delivery_id = nf_reminder_delivery_id nf,
     nfr_scheduled_at = nf_scheduled_at nf, nfr_created_at = nf_created_at nf, nfr_title = nf_title nf,
     nfr_body = nf_body nf\<rparr>"

definition notifications :: "nat \<Rightarrow> nat \<Rightarrow> world \<Rightarrow> notification_response page" where
  "notifications page_number per_page w =
     \<lparr>items = map notification_response_of (paginate page_number per_page
        (rev (sort_key (\<lambda>nf. (nf_created_at nf, nf_id nf)) (w_notifications w)))),
      total = length (w_notifications w), page_no = page_number, page_size = per_page\<rparr>"

subsection \<open>The trash\<close>

datatype trash_row = ActionRow trash_action | LegacyRow note_row | NoteRow note_row

definition trashed :: "note_row \<Rightarrow> bool" where
  "trashed n \<longleftrightarrow> n_deleted_at n \<noteq> None \<and> n_superseded_at n = None \<and> n_purged_at n = None"

definition was_member :: "world \<Rightarrow> note_row \<Rightarrow> bool" where
  "was_member w n \<longleftrightarrow> n_id n \<in> snd ` set (w_members w)"

definition open_action :: "world \<Rightarrow> trash_action \<Rightarrow> bool" where
  "open_action w a \<longleftrightarrow> ta_sealed_at a \<noteq> None
     \<and> (\<exists>n \<in> set (action_members w (ta_id a)). n_trash_action_id n = Some (ta_id a))"

definition legacy_row :: "world \<Rightarrow> note_row \<Rightarrow> bool" where
  "legacy_row w n \<longleftrightarrow> trashed n \<and> n_series_id n \<noteq> None \<and> n_series_trashed_at n \<noteq> None \<and> \<not> was_member w n"

definition ordinary_row :: "world \<Rightarrow> note_row \<Rightarrow> bool" where
  "ordinary_row w n \<longleftrightarrow> trashed n \<and> n_trash_action_id n = None
     \<and> (n_series_id n = None \<or> n_series_trashed_at n = None \<or> was_member w n)"

definition trash_sort_key :: "trash_row \<Rightarrow> instant \<times> nat \<times> uuid" where
  "trash_sort_key r = (case r of
     ActionRow a \<Rightarrow> (- ta_trashed_at a, 0, ta_id a)
   | LegacyRow n \<Rightarrow> (- the (n_deleted_at n), 1, n_id n)
   | NoteRow n \<Rightarrow> (- the (n_deleted_at n), 2, n_id n))"

definition trash_rows :: "world \<Rightarrow> trash_row list" where
  "trash_rows w = sort_key trash_sort_key
     (map ActionRow (filter (open_action w) (w_actions w))
      @ map LegacyRow (filter (legacy_row w) (w_notes w))
      @ map NoteRow (filter (ordinary_row w) (w_notes w)))"

definition trash_item :: "env \<Rightarrow> world \<Rightarrow> trash_row \<Rightarrow> trash_group" where
  "trash_item env w r = (case r of
     ActionRow a \<Rightarrow>
       (let members = sort_key (\<lambda>n. (the (n_recurrence_key n), n_id n)) (action_members w (ta_id a))
        in TrashSeriesAction (ta_id a) (ta_series_id a) (ta_boundary a) (ta_trashed_at a) (length members)
             (note_response_of env w (hd members)))
   | LegacyRow n \<Rightarrow> TrashLegacyOccurrence (note_response_of env w n) (the (n_deleted_at n))
   | NoteRow n \<Rightarrow> TrashNote (note_response_of env w n) (the (n_deleted_at n)))"

definition list_trash_groups :: "env \<Rightarrow> nat \<Rightarrow> nat \<Rightarrow> world \<Rightarrow> trash_group page" where
  "list_trash_groups env page_number per_page w =
     (let rows = trash_rows w
      in \<lparr>items = map (trash_item env w) (paginate page_number per_page rows), total = length rows,
          page_no = page_number, page_size = per_page\<rparr>)"

end
