(* ===== verification/Maintenance.thy ===== *)
theory Maintenance
  imports NoteHandlers
begin

section \<open>Retention (app/jobs/maintenance.py)\<close>

text \<open>
  The purge of notes that have been in the trash for the retention period, in batches; the loop
  around it, which need not end when other transactions keep adding expired notes and so is a
  partial function; and the hourly maintenance.
\<close>

definition expired :: "instant \<Rightarrow> note_row \<Rightarrow> bool" where
  "expired cutoff n \<longleftrightarrow> (case n_deleted_at n of None \<Rightarrow> False | Some t \<Rightarrow> t \<le> cutoff) \<and> n_purged_at n = None"

text \<open>The notes considered, with those of their trash actions: (note, series, action).\<close>

definition purge_candidates :: "instant \<Rightarrow> nat \<Rightarrow> world \<Rightarrow> (uuid \<times> uuid option \<times> uuid option) list" where
  "purge_candidates cutoff limit w =
     (let first = map (\<lambda>n. (n_id n, n_series_id n, n_trash_action_id n))
            (take limit (sort_key n_id (filter (expired cutoff) (w_notes w))));
          action_ids = concat (map (\<lambda>(_, _, a). case a of None \<Rightarrow> [] | Some a \<Rightarrow> [a]) first);
          members = concat (map (\<lambda>(a, i).
            map (\<lambda>n. (n_id n, n_series_id n, Some a))
              (filter (\<lambda>n. n_id n = i \<and> n_trash_action_id n = Some a) (w_notes w)))
            (filter (\<lambda>(a, i). a \<in> set action_ids) (w_members w)))
      in remdups (first @ members))"

definition purge_note :: "instant \<Rightarrow> note_row \<Rightarrow> note_row" where
  "purge_note now n = n\<lparr>n_title := ''[purged]'', n_body := [], n_purged_at := Some now,
     n_updated_at := now, n_trash_action_id := None\<rparr>"

definition purge_series_row :: "instant \<Rightarrow> recurrence_series \<Rightarrow> recurrence_series" where
  "purge_series_row now s = s\<lparr>rs_local_start := Local (Date 1970 1 1) 0, rs_timezone := ''UTC'',
     rs_rrule := ''FREQ=DAILY;INTERVAL=1'', rs_end_date := Date 1970 1 1,
     rs_template_title := ''[purged]'', rs_template_body := [], rs_template_active := False,
     rs_purged_at := Some now\<rparr>"

text \<open>A series is closed with its last note.\<close>

definition close_series :: "instant \<Rightarrow> uuid \<Rightarrow> world \<Rightarrow> world" where
  "close_series now sid w =
     (if \<exists>n \<in> set (w_notes w). n_series_id n = Some sid \<and> n_purged_at n = None then w
      else (case find (\<lambda>s. rs_id s = sid) (w_series w) of
          None \<Rightarrow> w
        | Some s \<Rightarrow>
            if rs_purged_at s \<noteq> None then w
            else save_series sid (purge_series_row now)
              (w\<lparr>w_series_tags := filter (\<lambda>(s, k). s \<noteq> sid) (w_series_tags w),
                 w_templates := filter (\<lambda>(s, m). s \<noteq> sid) (w_templates w),
                 w_exceptions := update_where (\<lambda>x. oe_series_id x = sid)
                   (\<lambda>x. x\<lparr>oe_cancelled := True, oe_overridden_fields := []\<rparr>) (w_exceptions w)\<rparr>)))"

definition purge_event :: "env \<Rightarrow> instant \<Rightarrow> note_row \<Rightarrow> world \<Rightarrow> world" where
  "purge_event env now n w =
     (let (event_id, w) = new_uuid env w
      in w\<lparr>w_outbox := w_outbox w @
            [\<lparr>ev_id = event_id, ev_event_type = ''note.deleted'', ev_entity_id = Some (n_id n),
              ev_payload = \<lparr>p_event_id = event_id, p_type = ''note.deleted'', p_occurred_at = now,
                p_entity_id = n_id n, p_notification_id = None, p_version = n_version n + 1,
                p_series_id = n_series_id n\<rparr>,
              ev_created_at = w_now w, ev_published_at = None, ev_attempts = 0,
              ev_next_attempt_at = None, ev_error_code = None\<rparr>]\<rparr>)"

definition drop_snapshots :: "reminder_delivery \<Rightarrow> reminder_delivery" where
  "drop_snapshots d = d\<lparr>d_content_snapshot := None, d_recipient_snapshot := None\<rparr>"

definition purge_rows :: "instant \<Rightarrow> note_row list \<Rightarrow> world \<Rightarrow> world" where
  "purge_rows now notes w =
     (let ids = map n_id notes;
          w = fold (\<lambda>n. save_note (n_id n) (purge_note now)) notes w;
          rule_ids = map r_id (filter (\<lambda>r. r_note_id r \<in> set ids) (w_rules w));
          delivery_ids = map d_id (filter (\<lambda>d. d_reminder_rule_id d \<in> set rule_ids) (w_deliveries w))
      in w\<lparr>w_deliveries := update_where (\<lambda>d. d_id d \<in> set delivery_ids) drop_snapshots (w_deliveries w),
           w_notifications := update_where (\<lambda>nf. nf_reminder_delivery_id nf \<in> set delivery_ids)
             (\<lambda>nf. nf\<lparr>nf_title := ''[purged]'', nf_body := []\<rparr>) (w_notifications w),
           w_note_tags := filter (\<lambda>(i, k). i \<notin> set ids) (w_note_tags w),
           w_exceptions := update_where (\<lambda>x. \<exists>n \<in> set notes. n_series_id n = Some (oe_series_id x)
               \<and> n_recurrence_key n = Some (oe_recurrence_key x))
             (\<lambda>x. x\<lparr>oe_overridden_fields := []\<rparr>) (w_exceptions w)\<rparr>)"

definition purge_trash :: "env \<Rightarrow> instant \<Rightarrow> int \<Rightarrow> nat \<Rightarrow> world \<Rightarrow> nat \<times> world" where
  "purge_trash env now retention_days limit w =
     (let cutoff = now - days retention_days;
          candidates = purge_candidates cutoff limit w;
          series_ids = sort (remdups (concat (map (\<lambda>(_, s, _). case s of None \<Rightarrow> [] | Some s \<Rightarrow> [s]) candidates)));
          note_ids = map fst candidates;
          notes = sort_key n_id (filter (\<lambda>n. n_id n \<in> set note_ids \<and> expired cutoff n) (w_notes w));
          w = purge_rows now notes w;
          w = fold (close_series now) series_ids w;
          w = fold (purge_event env now) notes w
      in (length notes, w))"

partial_function (option) cleanup_loop :: "env \<Rightarrow> instant \<Rightarrow> nat \<Rightarrow> world \<Rightarrow> (nat \<times> world) option" where
  "cleanup_loop env cleanup_now removed w =
     (let (changed, w) = purge_trash env cleanup_now 30 10000 (begin_tx env w);
          removed = removed + changed
      in if changed < 10000 then Some (removed, w) else cleanup_loop env cleanup_now removed w)"

definition cleanup_trash :: "env \<Rightarrow> world \<Rightarrow> (nat \<times> world) option" where
  "cleanup_trash env w = (let (now, w) = utcnow env w in cleanup_loop env now 0 w)"

definition maintain :: "env \<Rightarrow> (uuid \<Rightarrow> bool) \<Rightarrow> world \<Rightarrow> error + nat \<times> world" where
  "maintain env locked w =
     (let (now, w) = utcnow env w
      in try_then (classify_unknown env locked now 60 100 (begin_tx env w)) (\<lambda>(changed, w).
           Inr (changed, w\<lparr>w_notifications := filter (\<lambda>nf. \<not> nf_created_at nf < now - days 30) (w_notifications w),
                  w_outbox := filter (\<lambda>e. case ev_published_at e of None \<Rightarrow> True | Some t \<Rightarrow> \<not> t < now - days 30)
                    (w_outbox w)\<rparr>)))"

end
