(* ===== verification/HandlerSafety.thy ===== *)
theory HandlerSafety
  imports Split Maintenance ReminderSafety
begin

section \<open>What the handlers keep\<close>

text \<open>
  The contract of a handler of the API, one transaction: it keeps the invariant of reminders and
  the freshness of identifiers, it does not touch a delivery that was attempted or missed, and it
  does not touch a purged note, which the trigger of migration 0004 forbids (unless the note
  carries the mark of the recurring trash of an older release). The contract of the
  single steps of a handler is proved first, then that of the loops and of the handlers.
\<close>

subsection \<open>The contract\<close>

definition history :: "world \<Rightarrow> reminder_delivery set" where
  "history w = {d \<in> set (w_deliveries w). settled d}"

definition purged_notes :: "world \<Rightarrow> note_row set" where
  "purged_notes w = {n \<in> set (w_notes w). n_purged_at n \<noteq> None \<and> n_series_trashed_at n = None
     \<and> n_trash_action_id n = None}"

text \<open>
  A note a handler may change. A purged note may keep the mark of the trash of an older release;
  it is in no trash action.
\<close>

definition changeable :: "note_row \<Rightarrow> bool" where
  "changeable n \<longleftrightarrow> n_purged_at n = None \<or> n_series_trashed_at n \<noteq> None \<or> n_trash_action_id n \<noteq> None"

definition handler_keeps :: "env \<Rightarrow> world \<Rightarrow> world \<Rightarrow> bool" where
  "handler_keeps env w w' \<longleftrightarrow> (reminders_ok w \<and> fresh env w \<longrightarrow>
     reminders_ok w' \<and> fresh env w' \<and> history w \<subseteq> history w' \<and> purged_notes w \<subseteq> purged_notes w')"

lemma handler_keeps_refl [inv_intros]: "handler_keeps env w w"
  by (simp add: handler_keeps_def)

lemma handler_keeps_trans: "handler_keeps env u v \<Longrightarrow> handler_keeps env v w \<Longrightarrow> handler_keeps env u w"
  unfolding handler_keeps_def by blast

lemma history_attempted: "history w \<subseteq> history w' \<Longrightarrow> attempted_ids w \<subseteq> attempted_ids w'"
  unfolding history_def attempted_ids_def attempted_def settled_def by auto

lemma handler_keeps_safe: "handler_keeps env w w' \<Longrightarrow> reminder_safe env w w'"
  unfolding handler_keeps_def reminder_safe_def using history_attempted by blast

text \<open>Steps that leave rules, deliveries and notes alone.\<close>

lemma handler_keeps_frame:
  assumes "w_rules w' = w_rules w" "w_deliveries w' = w_deliveries w" "w_notes w' = w_notes w"
    and "grows env w w'"
  shows "handler_keeps env w w'"
  using reminder_safe_frame [OF assms] assms
  by (simp add: handler_keeps_def reminder_safe_def history_def purged_notes_def)

text \<open>The two steps that change the notes.\<close>

lemma change_note_keeps:
  assumes n: "n \<in> set (w_notes w)" "changeable n"
    and id: "n_id n' = n_id n" and sc: "n_starts_at n' = n_starts_at n \<or> sc"
    and mid: "w_notes w1 = update_where (\<lambda>m. n_id m = n_id n) (\<lambda>m. n') (w_notes w)"
      "w_rules w1 = w_rules w" "w_deliveries w1 = w_deliveries w" "fresh env w \<Longrightarrow> fresh env w1"
  shows "handler_keeps env w (reconcile_reminders env n' offsets sc now w1)"
  unfolding handler_keeps_def
proof (intro impI, elim conjE)
  let ?w = "reconcile_reminders env n' offsets sc now w1"
  assume ok: "reminders_ok w" and fr: "fresh env w"
  note R = change_reconcile_ok [OF ok mid(4) [OF fr] n(1) id sc mid(1-3) refl]
  have "m \<in> set (w_notes ?w)" if m: "m \<in> set (w_notes w)" "\<not> changeable m" for m
  proof -
    have "distinct (map n_id (w_notes w))" using ok by (simp add: reminders_ok_def reminder_rows_wf_def)
    then have "n_id m \<noteq> n_id n" using m n distinct_map_eqD by fastforce
    then show ?thesis using m(1) by (auto simp: mid(1) row_simps)
  qed
  then have "purged_notes w \<subseteq> purged_notes ?w" by (auto simp: purged_notes_def changeable_def)
  moreover have "history w \<subseteq> history ?w" using R(5) by (auto simp: history_def)
  ultimately show "reminders_ok ?w \<and> fresh env ?w \<and> history w \<subseteq> history ?w \<and> purged_notes w \<subseteq> purged_notes ?w"
    using R(1,4) by blast
qed

lemma add_note_keeps:
  assumes n: "fresh env w \<Longrightarrow> n_id n \<notin> n_id ` set (w_notes w)"
    and mid: "w_notes w1 = w_notes w @ [n]"
      "w_rules w1 = w_rules w" "w_deliveries w1 = w_deliveries w" "fresh env w \<Longrightarrow> fresh env w1"
  shows "handler_keeps env w (reconcile_reminders env n offsets sc now w1)"
  unfolding handler_keeps_def
proof (intro impI, elim conjE)
  let ?w = "reconcile_reminders env n offsets sc now w1"
  assume ok: "reminders_ok w" and fr: "fresh env w"
  note R = add_note_reconcile_ok [OF ok mid(4) [OF fr] n [OF fr] mid(1-3) refl]
  have "purged_notes w \<subseteq> purged_notes ?w" by (auto simp: purged_notes_def mid)
  moreover have "history w \<subseteq> history ?w" using R(5) by (auto simp: history_def)
  ultimately show "reminders_ok ?w \<and> fresh env ?w \<and> history w \<subseteq> history ?w \<and> purged_notes w \<subseteq> purged_notes ?w"
    using R(1,4) by blast
qed

subsection \<open>Steps without notes\<close>

lemma grows_same:
  "used_ids w' = used_ids w \<Longrightarrow> draws w' = draws w \<Longrightarrow> grows env w w'"
  by (simp add: grows_def)

lemma add_event_keeps [inv_intros]: "handler_keeps env w (add_event env t e v s w)"
  by (rule handler_keeps_frame)
    (auto simp: row_simps grows_def used_ids_def add_event_def new_uuid_def utcnow_def)

lemma begin_tx_keeps [inv_intros]: "handler_keeps env w (begin_tx env w)"
  by (rule handler_keeps_frame) (simp_all add: row_simps grows_def)

lemma utcnow_keeps [inv_intros]: "handler_keeps env w (w\<lparr>ticks := k\<rparr>)"
  by (rule handler_keeps_frame) (simp_all add: grows_def used_ids_def)

lemma save_series_keeps [inv_intros]:
  assumes "\<And>s. rs_id (f s) = rs_id s"
  shows "handler_keeps env w (save_series i f w)"
proof -
  have "used_ids (save_series i f w) = used_ids w" by (simp add: used_ids_def save_series_def assms)
  then show ?thesis by (intro handler_keeps_frame grows_same) (simp_all add: save_series_def)
qed

lemma lock_series_cases:
  assumes "lock_series env n v w = Inr (s, w')"
  obtains "w' = w" | sid where "w' = save_series sid (\<lambda>s. s\<lparr>rs_updated_at := clock env (ticks w)\<rparr>) (w\<lparr>ticks := Suc (ticks w)\<rparr>)"
  using assms by (auto simp: lock_series_def utcnow_def Let_def split: option.splits if_splits)

lemma lock_series_keeps:
  assumes "lock_series env n v w = Inr (s, w')"
  shows "handler_keeps env w w'" "w_notes w' = w_notes w"
proof -
  show "handler_keeps env w w'"
    using assms
  proof (cases rule: lock_series_cases)
    case (2 sid)
    show ?thesis unfolding 2 by (rule handler_keeps_trans [OF utcnow_keeps save_series_keeps]) simp
  qed (simp add: handler_keeps_refl)
  show "w_notes w' = w_notes w" using assms by (cases rule: lock_series_cases) (simp_all add: save_series_def)
qed

text \<open>The rows of the association after \<open>replace_tags\<close>.\<close>

definition retag :: "uuid \<Rightarrow> uuid list \<Rightarrow> (uuid \<times> uuid) list \<Rightarrow> (uuid \<times> uuid) list" where
  "retag i tag_ids rows =
     filter (\<lambda>(j, k). j \<noteq> i \<or> k \<in> set tag_ids) rows
     @ map (\<lambda>k. (i, k)) (filter (\<lambda>k. (i, k) \<notin> set rows) (remdups tag_ids))"

lemma validate_tags_Inr [simp]: "validate_tags w ks = Inr u \<longleftrightarrow> set ks \<subseteq> tag_id ` set (w_tags w)"
  by (auto simp: validate_tags_def Let_def filter_empty_conv)

lemma tags_of_note: "k \<in> snd ` {x \<in> set rows. case x of (j, k) \<Rightarrow> j = i} \<longleftrightarrow> (i, k) \<in> set rows"
  by (auto simp: image_iff)

lemma replace_tags_Inr:
  "replace_tags w i ks = Inr w' \<longleftrightarrow>
     set ks \<subseteq> tag_id ` set (w_tags w) \<and> w' = w\<lparr>w_note_tags := retag i ks (w_note_tags w)\<rparr>"
proof -
  have "filter (\<lambda>(j, k). (i, k) \<in> set rows \<longrightarrow> j = i \<longrightarrow> k \<in> set ks) rows =
      filter (\<lambda>(j, k). j = i \<longrightarrow> k \<in> set ks) rows" for rows
    by (rule filter_cong) auto
  then show ?thesis by (auto simp: replace_tags_def retag_def tags_of_note Let_def)
qed

lemma replace_tags_rows:
  "replace_tags w i tag_ids = Inr w' \<Longrightarrow> \<exists>tags. w' = w\<lparr>w_note_tags := tags\<rparr>"
  by (auto simp: replace_tags_Inr)

lemma note_tags_keeps [inv_intros]: "handler_keeps env w (w\<lparr>w_note_tags := tags\<rparr>)"
  by (rule handler_keeps_frame) (simp_all add: grows_def used_ids_def)

lemma replace_tags_keeps: "replace_tags w i tag_ids = Inr w' \<Longrightarrow> handler_keeps env w w'"
  using replace_tags_rows note_tags_keeps by blast

lemma set_exception_rows:
  assumes "set_exception env n off c w = Inr w'"
  shows "\<exists>k xs. w' = w\<lparr>draws := k, w_exceptions := xs\<rparr> \<and> draws w \<le> k
    \<and> oe_id ` set xs \<subseteq> oe_id ` set (w_exceptions w) \<union> uuid4 env ` {draws w..<k}"
proof (cases "n_series_id n = None \<or> n_recurrence_key n = None")
  case True
  then have "w' = w" using assms by (auto simp: set_exception_def split: option.splits)
  then show ?thesis by (intro exI [of _ "draws w"] exI [of _ "w_exceptions w"]) simp
next
  case False
  then obtain sid key where k: "n_series_id n = Some sid" "n_recurrence_key n = Some key" by auto
  show ?thesis
  proof (cases "find_exception w sid key")
    case None
    then show ?thesis
      using assms k
      by (intro exI [of _ "Suc (draws w)"] exI [of _ "w_exceptions w'"])
        (auto simp: set_exception_def new_uuid_def Let_def set_update_where simp del: update_where_append
          split: option.splits)
  next
    case (Some x)
    then show ?thesis
      using assms k
      by (intro exI [of _ "draws w"] exI [of _ "w_exceptions w'"])
        (auto simp: set_exception_def Let_def set_update_where split: option.splits)
  qed
qed

lemma set_exception_keeps:
  assumes "set_exception env n off c w = Inr w'"
  shows "handler_keeps env w w'" "w_notes w' = w_notes w"
proof -
  obtain k xs where x: "w' = w\<lparr>draws := k, w_exceptions := xs\<rparr>" "draws w \<le> k"
    "oe_id ` set xs \<subseteq> oe_id ` set (w_exceptions w) \<union> uuid4 env ` {draws w..<k}"
    using set_exception_rows [OF assms] by blast
  then have "grows env w w'" by (auto simp: grows_def used_ids_def)
  with x(1) show "handler_keeps env w w'" by (intro handler_keeps_frame) simp_all
  show "w_notes w' = w_notes w" using x(1) by simp
qed

subsection \<open>The handlers of one note\<close>

lemma require_noteD:
  assumes "require_note w i = Inr n"
  shows "n \<in> set (w_notes w)" "n_id n = i" "n_purged_at n = None" "n_superseded_at n = None" "changeable n"
  using assms by (auto simp: require_note_def changeable_def split: option.splits dest: find_Some_set)

lemma locked_note_cases:
  assumes "locked_note_and_series env i v w = Inr (n, w')"
  shows "handler_keeps env w w'" "require_note w' i = Inr n" "w_notes w' = w_notes w"
  using assms lock_series_keeps by (fastforce simp: locked_note_and_series_def)+

lemma fresh_note_id: "fresh env w \<Longrightarrow> uuid4 env (draws w) \<notin> n_id ` set (w_notes w)"
  by (auto simp: fresh_def used_ids_def)

lemma fresh_add_note:
  "fresh env w \<Longrightarrow> fresh env (w\<lparr>draws := Suc (draws w), w_notes := w_notes w @ [n], w_note_tags := tags\<rparr>)"
  if "n_id n = uuid4 env (draws w)"
  by (erule fresh_grows) (use that in \<open>auto simp: grows_def used_ids_def\<close>)

lemma new_note_simps [simp]:
  "n_id (new_note i t b s a sid key now) = i" "n_purged_at (new_note i t b s a sid key now) = None"
  by (simp_all add: new_note_def)

lemma add_note_step:
  assumes "n_id n = uuid4 env (draws w)"
  shows "handler_keeps env w (reconcile_reminders env n offsets sc now
    (w\<lparr>draws := Suc (draws w), w_notes := w_notes w @ [n], w_note_tags := tags\<rparr>))"
  by (rule add_note_keeps) (use assms fresh_note_id [of env w] fresh_add_note [OF assms] in simp_all)

lemma create_note_keeps:
  assumes "create_note env p w = Inr (r, w')"
  shows "handler_keeps env w w'"
proof -
  let ?u = "(begin_tx env w)\<lparr>ticks := Suc (ticks (begin_tx env w))\<rparr>"
  obtain n tags now where w': "w' = note_event env ''note.created'' n (reconcile_reminders env n (nw_offsets p) False now
      (?u\<lparr>draws := Suc (draws ?u), w_notes := w_notes ?u @ [n], w_note_tags := tags\<rparr>))"
    and id: "n_id n = uuid4 env (draws ?u)"
    using assms by (auto simp: create_note_def utcnow_def new_uuid_def Let_def split: if_splits
        dest!: replace_tags_rows)
  have "handler_keeps env w ?u" by (rule handler_keeps_trans [OF begin_tx_keeps utcnow_keeps])
  then show ?thesis
    unfolding w' note_event_def using add_note_step [OF id]
    by (blast intro: handler_keeps_trans add_event_keeps)
qed

text \<open>\<open>save\<close>, a change of other tables, and the reconciliation.\<close>

lemma fresh_save_note:
  "fresh env w \<Longrightarrow> (\<And>m. n_id (f m) = n_id m) \<Longrightarrow> fresh env (save_note i f w)"
  using save_note_used_ids [of f i w] by (simp add: fresh_def row_simps)

lemma fresh_fields [simp]:
  "fresh env (w\<lparr>ticks := k\<rparr>) = fresh env w" "fresh env (w\<lparr>w_note_tags := tags\<rparr>) = fresh env w"
  by (simp_all add: fresh_def used_ids_def)

lemma save_reconcile_keeps:
  assumes n: "n \<in> set (w_notes w)" "changeable n"
    and id: "\<And>m. n_id (f m) = n_id m" and sc: "n_starts_at (f n) = n_starts_at n \<or> sc"
    and w1: "w1 = (save_note (n_id n) f w)\<lparr>w_note_tags := tags, ticks := k\<rparr>"
  shows "handler_keeps env w (reconcile_reminders env ((f n)\<lparr>n_version := n_version n + 1\<rparr>) offsets sc now w1)"
proof (cases "reminders_ok w")
  case True
  then have d: "distinct (map n_id (w_notes w))" by (simp add: reminders_ok_def reminder_rows_wf_def)
  show ?thesis
    by (rule change_note_keeps [OF n])
      (use id sc save_note_on_row [OF d n(1)] fresh_save_note [of env w f] in \<open>simp_all add: w1 row_simps\<close>)
qed (simp add: handler_keeps_def)

lemma world_update_same [simp]:
  "w\<lparr>ticks := ticks w\<rparr> = w" "w\<lparr>w_note_tags := w_note_tags w\<rparr> = w"
  by simp_all

lemma save_note_ticks [simp]: "save_note i f (w\<lparr>ticks := k\<rparr>) = (save_note i f w)\<lparr>ticks := k\<rparr>"
  by (simp add: save_note_def)

lemma update_note_cases:
  assumes "update_note env i p w = Inr (r, w')"
  obtains n u t now v n' where
    "locked_note_and_series env i (nu_expected_series_version p) (begin_tx env w) = Inr (n, u)"
    "n_version n = nu_expected_version p" "n_deleted_at n = None" "strip (nw_title p) \<noteq> []"
    "set (nw_tag_ids p) \<subseteq> tag_id ` set (w_tags u)"
    "n' = n\<lparr>n_title := strip (nw_title p), n_body := nw_body p, n_starts_at := nw_starts_at p,
       n_active := nw_active p, n_updated_at := t, n_version := n_version n + 1\<rparr>"
    "set_exception env n' (nw_starts_offset p) None (reconcile_reminders env n' (nw_offsets p)
       (n_starts_at n \<noteq> nw_starts_at p) now
       ((save_note (n_id n) (\<lambda>n. n\<lparr>n_title := strip (nw_title p), n_body := nw_body p,
           n_starts_at := nw_starts_at p, n_active := nw_active p, n_updated_at := t\<rparr>) u)
        \<lparr>w_note_tags := retag i (nw_tag_ids p) (w_note_tags u), ticks := Suc (Suc (ticks u))\<rparr>)) = Inr v"
    "w' = note_event env ''note.updated'' n' v" "r = note_response_of env w' n'"
proof -
  obtain n u where u: "locked_note_and_series env i (nu_expected_series_version p) (begin_tx env w) = Inr (n, u)"
    using assms by (auto simp: update_note_def)
  let ?f = "\<lambda>n. n\<lparr>n_title := strip (nw_title p), n_body := nw_body p,
           n_starts_at := nw_starts_at p, n_active := nw_active p, n_updated_at := clock env (ticks u)\<rparr>"
  let ?n = "(?f n)\<lparr>n_version := n_version n + 1\<rparr>"
  obtain v where "n_version n = nu_expected_version p" "n_deleted_at n = None" "strip (nw_title p) \<noteq> []"
    "set (nw_tag_ids p) \<subseteq> tag_id ` set (w_tags u)"
    "set_exception env ?n (nw_starts_offset p) None (reconcile_reminders env ?n (nw_offsets p)
       (n_starts_at n \<noteq> nw_starts_at p) (clock env (Suc (ticks u)))
       ((save_note (n_id n) ?f u)\<lparr>w_note_tags := retag i (nw_tag_ids p) (w_note_tags u),
         ticks := Suc (Suc (ticks u))\<rparr>)) = Inr v"
    "w' = note_event env ''note.updated'' ?n v" "r = note_response_of env w' ?n"
    using assms u
    by (auto simp: update_note_def check_note_version_def save_def utcnow_def replace_tags_Inr
         row_simps Let_def split: if_splits)
  then show thesis by (intro that [OF u _ _ _ _ refl]) simp_all
qed

lemma update_note_keeps:
  assumes "update_note env i p w = Inr (r, w')"
  shows "handler_keeps env w w'"
  using assms
proof (cases rule: update_note_cases)
  case (1 n u t now v n')
  note L = locked_note_cases [OF 1(1)]
  note n = require_noteD [OF L(2)]
  have "handler_keeps env w u" by (rule handler_keeps_trans [OF begin_tx_keeps L(1)])
  moreover have "handler_keeps env u v"
    by (rule handler_keeps_trans [OF save_reconcile_keeps [OF n(1,5) _ _ refl]
          set_exception_keeps(1) [OF 1(7) [unfolded 1(6)]]])
      (use n in auto)
  ultimately show ?thesis
    unfolding 1 note_event_def by (blast intro: handler_keeps_trans add_event_keeps)
qed

lemma save_reconcile_ticks:
  assumes "n \<in> set (w_notes w)" "changeable n" "\<And>m. n_id (f m) = n_id m" "n_starts_at (f n) = n_starts_at n"
  shows "handler_keeps env w (reconcile_reminders env ((f n)\<lparr>n_version := n_version n + 1\<rparr>) offsets sc now
    ((save_note (n_id n) f w)\<lparr>ticks := k\<rparr>))"
  by (rule save_reconcile_keeps [where f = f and tags = "w_note_tags w", OF assms(1,2)])
    (use assms in \<open>simp_all add: save_note_def\<close>)

lemma delete_note_keeps:
  assumes "delete_note env i e v w = Inr (r, w')"
  shows "handler_keeps env w w'"
proof -
  obtain n u where u: "locked_note_and_series env i v (begin_tx env w) = Inr (n, u)"
    using assms by (auto simp: delete_note_def)
  note L = locked_note_cases [OF u]
  note n = require_noteD [OF L(2)]
  have start: "handler_keeps env w u" by (rule handler_keeps_trans [OF begin_tx_keeps L(1)])
  show ?thesis
  proof (cases "n_deleted_at n")
    case None
    let ?f = "\<lambda>n. n\<lparr>n_deleted_at := Some (clock env (ticks u)), n_updated_at := clock env (Suc (ticks u))\<rparr>"
    let ?n = "(?f n)\<lparr>n_version := n_version n + 1\<rparr>"
    obtain offsets now k x where x: "set_exception env ?n 0 (Some True)
        (reconcile_reminders env ?n offsets False now ((save_note (n_id n) ?f u)\<lparr>ticks := k\<rparr>)) = Inr x"
      and w': "w' = note_event env ''note.deleted'' ?n x"
      using assms u None by (auto simp: delete_note_def check_note_version_def save_def utcnow_def Let_def
          split: if_splits)
    have "handler_keeps env u x"
      by (rule handler_keeps_trans [OF save_reconcile_ticks [OF n(1,5)] set_exception_keeps(1) [OF x]]) simp_all
    with start show ?thesis
      unfolding w' note_event_def by (blast intro: handler_keeps_trans add_event_keeps)
  next
    case (Some t)
    then show ?thesis using assms u start by (auto simp: delete_note_def)
  qed
qed

subsection \<open>Loops over notes\<close>

text \<open>A loop over rows read before it, each step of which changes its own row only.\<close>

lemma row_loop_keeps:
  assumes step: "\<And>n w. n \<in> set (w_notes w) \<Longrightarrow> changeable n \<Longrightarrow> handler_keeps env w (g n w)"
    and others: "\<And>n m w. m \<in> set (w_notes w) \<Longrightarrow> n_id m \<noteq> n_id n \<Longrightarrow> m \<in> set (w_notes (g n w))"
    and ns: "set ns \<subseteq> {n \<in> set (w_notes w). changeable n}" "distinct (map n_id ns)"
  shows "handler_keeps env w (fold g ns w)"
  using ns
proof (induction ns arbitrary: w)
  case (Cons n ns)
  have n: "n \<in> set (w_notes w)" "changeable n" using Cons.prems(1) by auto
  have "m \<in> set (w_notes (g n w))" "changeable m" if "m \<in> set ns" for m
  proof -
    have "m \<in> set (w_notes w)" "n_id m \<noteq> n_id n" using Cons.prems that by (auto simp: image_iff)
    then show "m \<in> set (w_notes (g n w))" by (rule others)
    show "changeable m" using Cons.prems(1) that by auto
  qed
  then have "handler_keeps env (g n w) (fold g ns (g n w))" using Cons.prems(2) by (intro Cons.IH) auto
  then show ?case using step [OF n] by (simp add: handler_keeps_trans)
qed (simp add: handler_keeps_refl)

lemma change_and_reconcile_keeps:
  assumes "n \<in> set (w_notes w)" "changeable n" "\<And>m. n_id (f m) = n_id m" "n_starts_at (f n) = n_starts_at n"
  shows "handler_keeps env w (change_and_reconcile env now f n w)"
  using save_reconcile_ticks [OF assms, where k = "ticks w"]
  by (simp add: change_and_reconcile_def save_def save_note_def)

lemma change_and_reconcile_notes [row_simps]:
  "w_notes (change_and_reconcile env now f n w) = w_notes (save_note (n_id n) f w)"
  by (simp add: change_and_reconcile_def save_def)

lemma save_note_others:
  "m \<in> set (w_notes w) \<Longrightarrow> n_id m \<noteq> i \<Longrightarrow> m \<in> set (w_notes (save_note i f w))"
  by (auto simp: save_note_def set_update_where)

lemma change_loop_keeps:
  assumes "\<And>m. n_id (f m) = n_id m" "\<And>m. n_starts_at (f m) = n_starts_at m"
    and "set ns \<subseteq> {n \<in> set (w_notes w). changeable n}" "distinct (map n_id ns)"
  shows "handler_keeps env w (fold (change_and_reconcile env now f) ns w)"
proof (rule row_loop_keeps [OF _ _ assms(3,4)])
  show "handler_keeps env w (change_and_reconcile env now f n w)"
    if "n \<in> set (w_notes w)" "changeable n" for n w
    by (rule change_and_reconcile_keeps [OF that assms(1,2)])
  show "m \<in> set (w_notes (change_and_reconcile env now f n w))"
    if "m \<in> set (w_notes w)" "n_id m \<noteq> n_id n" for n m w
    unfolding change_and_reconcile_notes by (rule save_note_others [OF that])
qed

subsection \<open>The recurring trash\<close>

lemma save_series_row_keeps:
  assumes "save_series_row s f w = (s', w')" "\<And>s. rs_id (f s) = rs_id s"
  shows "handler_keeps env w w'"
  using assms by (auto simp: save_series_row_def intro: save_series_keeps)

lemma locked_seriesD:
  "locked_series sid v w = Inr s \<Longrightarrow> s \<in> set (w_series w) \<and> rs_id s = sid \<and> rs_purged_at s = None"
  by (auto simp: locked_series_def split: option.splits if_splits dest: find_Some_set)

lemma rows_distinct: "reminders_ok w \<Longrightarrow> distinct (map n_id (w_notes w))"
  by (simp add: reminders_ok_def reminder_rows_wf_def)

lemma selected_distinct:
  assumes "reminders_ok w"
  shows "distinct (map n_id (sort_key key (filter p (w_notes w))))"
proof -
  have "distinct (map n_id (filter p (w_notes w)))" using rows_distinct [OF assms] by (simp add: distinct_map_filter)
  then show ?thesis by (simp add: distinct_map)
qed

lemma actions_keeps [inv_intros]:
  "handler_keeps env w (w\<lparr>w_actions := update_where p (\<lambda>a. a\<lparr>ta_sealed_at := t\<rparr>) (w_actions w)\<rparr>)"
  by (rule handler_keeps_frame) (simp_all add: grows_def used_ids_def)

lemma handler_keepsI:
  "(reminders_ok w \<Longrightarrow> fresh env w \<Longrightarrow> handler_keeps env w w') \<Longrightarrow> handler_keeps env w w'"
  by (auto simp: handler_keeps_def)

text \<open>What a successful trash of a portion did, step by step.\<close>

lemma trash_series_portion_cases:
  assumes "trash_series_portion env sid p w = Inr (r, w')"
  obtains s boundary ns a now u v where
    "locked_series sid (Some (po_series_version p)) (begin_tx env w) = Inr s"
    "portion_boundary (begin_tx env w) s (po_recurrence_key p) False = Inr boundary"
    "ns = sort_key n_id (filter (\<lambda>n. n_series_id n = Some (rs_id s) \<and> key_from boundary n
       \<and> n_deleted_at n = None \<and> n_superseded_at n = None \<and> n_purged_at n = None) (w_notes w))" "ns \<noteq> []"
    "a = uuid4 env (draws w)" "now = clock env (Suc (ticks w))"
    "u = (begin_tx env w)\<lparr>draws := Suc (draws w), ticks := Suc (Suc (ticks w)),
       w_actions := w_actions w @ [\<lparr>ta_id = a, ta_series_id = rs_id s, ta_boundary = boundary,
         ta_trashed_at = now, ta_sealed_at = None\<rparr>],
       w_members := w_members w @ map (\<lambda>n. (a, n_id n)) ns\<rparr>"
    "v = fold (change_and_reconcile env now (\<lambda>n. n\<lparr>n_deleted_at := Some now,
       n_trash_action_id := Some a, n_updated_at := now\<rparr>)) ns u"
    "w' = updated_event env (s\<lparr>rs_updated_at := now, rs_version := rs_version s + 1\<rparr>)
       ((save_series (rs_id s) (\<lambda>s. s\<lparr>rs_updated_at := now\<rparr>) v)
        \<lparr>ticks := Suc (ticks v), w_actions := update_where (\<lambda>x. ta_id x = a)
           (\<lambda>x. x\<lparr>ta_sealed_at := Some (clock env (ticks v))\<rparr>) (w_actions v)\<rparr>)"
proof -
  obtain s boundary where s: "locked_series sid (Some (po_series_version p)) (begin_tx env w) = Inr s"
    "portion_boundary (begin_tx env w) s (po_recurrence_key p) False = Inr boundary"
    using assms by (auto simp: trash_series_portion_def Let_def)
  have b: "w_notes (begin_tx env w) = w_notes w" "draws (begin_tx env w) = draws w"
    "w_actions (begin_tx env w) = w_actions w" "w_members (begin_tx env w) = w_members w"
    "ticks (begin_tx env w) = Suc (ticks w)"
    by (simp_all add: begin_tx_def)
  show thesis
    by (rule that [OF s refl _ refl refl refl refl])
      (use assms s in \<open>auto simp: trash_series_portion_def new_uuid_def utcnow_def save_series_row_def
        save_series_def b Let_def split: if_splits\<close>)
qed

lemma trash_series_portion_keeps:
  assumes "trash_series_portion env sid p w = Inr (r, w')"
  shows "handler_keeps env w w'"
  using assms
proof (cases rule: trash_series_portion_cases)
  case (1 s boundary ns a now u v)
  show ?thesis
  proof (rule handler_keepsI)
    assume ok: "reminders_ok w" "fresh env w"
    have u: "w_notes u = w_notes w" "w_rules u = w_rules w" "w_deliveries u = w_deliveries w" "grows env w u"
      unfolding 1(5,7) by (auto simp: begin_tx_def grows_def used_ids_def)
    have "handler_keeps env w u" by (rule handler_keeps_frame) (use u in auto)
    moreover have "handler_keeps env u v"
      unfolding 1(8)
    proof (rule change_loop_keeps)
      show "set ns \<subseteq> {n \<in> set (w_notes u). changeable n}" by (auto simp: 1(3) u changeable_def)
      show "distinct (map n_id ns)" unfolding 1(3) by (rule selected_distinct [OF ok(1)])
    qed simp_all
    moreover have "handler_keeps env v w'"
      unfolding 1(9) updated_event_def
      by (rule handler_keeps_trans [OF handler_keeps_frame add_event_keeps])
        (simp_all add: save_series_def grows_def used_ids_def)
    ultimately show "handler_keeps env w w'" by (blast intro: handler_keeps_trans)
  qed
qed

lemma action_members_rows: "set (action_members w a) \<subseteq> set (w_notes w)"
  by (auto simp: action_members_def)

lemma check_note_version_Inr [simp]: "check_note_version env w n v = Inr r \<longleftrightarrow> n_version n = v"
  by (auto simp: check_note_version_def)

lemma restore_members_cases:
  assumes "restore_members env a v sel w = Inr (s', w')"
  obtains act s ns now u where
    "find (\<lambda>x. ta_id x = a) (w_actions w) = Some act"
    "locked_series (ta_series_id act) (Some v) w = Inr s"
    "ns = sort_key n_id (action_members w a)" "ns \<noteq> []"
    "\<forall>n \<in> set ns. n_trash_action_id n = Some a"
    "case sel of None \<Rightarrow> True | Some (i, e) \<Rightarrow> \<exists>n \<in> set ns. n_id n = i \<and> n_version n = e"
    "now = clock env (ticks w)" "now - retention < ta_trashed_at act"
    "u = fold (change_and_reconcile env now (\<lambda>n. n\<lparr>n_trash_action_id := None,
       n_deleted_at := None, n_updated_at := now\<rparr>)) ns (w\<lparr>ticks := Suc (ticks w)\<rparr>)"
    "s' = s\<lparr>rs_updated_at := now, rs_version := rs_version s + 1\<rparr>"
    "w' = updated_event env s' (save_series (rs_id s) (\<lambda>s. s\<lparr>rs_updated_at := now\<rparr>) u)"
proof -
  obtain act s where s: "find (\<lambda>x. ta_id x = a) (w_actions w) = Some act"
    "locked_series (ta_series_id act) (Some v) w = Inr s"
    using assms by (auto simp: restore_members_def split: option.splits)
  let ?ns = "sort_key n_id (action_members w a)"
  have "length (filter P xs) = length xs \<longleftrightarrow> (\<forall>x \<in> set xs. P x)" for P :: "note_row \<Rightarrow> bool" and xs
    by (metis filter_True length_filter_less less_irrefl)
  from this [of _ "sort_key n_id (action_members w a)"]
  have len: "length (filter P ?ns) = length (action_members w a) \<longleftrightarrow> (\<forall>x \<in> set (action_members w a). P x)" for P
    by simp
  have nil: "?ns = [] \<longleftrightarrow> action_members w a = []" by (metis length_0_conv length_sort)
  show thesis
    by (rule that [OF s refl _ _ _ refl _ refl])
      (use assms s in \<open>auto simp: restore_members_def utcnow_def save_series_row_def len nil filter_empty_conv Let_def
        dest!: find_Some_set split: if_splits option.splits prod.splits\<close>)
qed

lemma members_distinct: "reminders_ok w \<Longrightarrow> distinct (map n_id (sort_key n_id (action_members w a)))"
  unfolding action_members_def by (rule selected_distinct)

lemma restore_members_keeps:
  assumes "restore_members env a v sel w = Inr (s', w')"
  shows "handler_keeps env w w'"
  using assms
proof (cases rule: restore_members_cases)
  case (1 act s ns now u)
  show ?thesis
  proof (rule handler_keepsI)
    assume ok: "reminders_ok w" "fresh env w"
    have "handler_keeps env w (w\<lparr>ticks := Suc (ticks w)\<rparr>)" by (rule utcnow_keeps)
    moreover have "handler_keeps env (w\<lparr>ticks := Suc (ticks w)\<rparr>) u"
      unfolding 1(9)
    proof (rule change_loop_keeps)
      show "set ns \<subseteq> {n \<in> set (w_notes (w\<lparr>ticks := Suc (ticks w)\<rparr>)). changeable n}"
        using 1(5) action_members_rows by (auto simp: 1(3) changeable_def)
      show "distinct (map n_id ns)" unfolding 1(3) by (rule members_distinct [OF ok(1)])
    qed simp_all
    moreover have "handler_keeps env u w'"
      unfolding 1(11) updated_event_def by (rule handler_keeps_trans [OF save_series_keeps add_event_keeps]) simp
    ultimately show "handler_keeps env w w'" by (blast intro: handler_keeps_trans)
  qed
qed

lemma restore_trash_action_keeps:
  assumes "restore_trash_action env a v w = Inr (r, w')"
  shows "handler_keeps env w w'"
  using assms handler_keeps_trans [OF begin_tx_keeps restore_members_keeps]
  by (auto simp: restore_trash_action_def)

lemma restore_note_cases:
  assumes "restore_note env i p w = Inr (r, w')"
  obtains (action) c a v s where "require_note (begin_tx env w) i = Inr c" "n_trash_action_id c = Some a"
      "rr_expected_series_version p = Some v"
      "restore_members env a v (Some (i, rr_expected_version p)) (begin_tx env w) = Inr (s, w')"
    | (single) c n u t x n' where
      "require_note (begin_tx env w) i = Inr c" "n_trash_action_id c = None"
      "locked_note_and_series env i (rr_expected_series_version p) (begin_tx env w) = Inr (n, u)"
      "n_version n = rr_expected_version p" "n_deleted_at n = Some t" "clock env (ticks u) - retention < t"
      "n' = n\<lparr>n_deleted_at := None, n_updated_at := clock env (Suc (ticks u)), n_version := n_version n + 1\<rparr>"
      "set_exception env n' 0 (Some False) (reconcile_reminders env n' (enabled_offsets u (n_id n)) False
        (clock env (Suc (Suc (ticks u))))
        ((save_note (n_id n) (\<lambda>n. n\<lparr>n_deleted_at := None, n_updated_at := clock env (Suc (ticks u))\<rparr>) u)
          \<lparr>ticks := Suc (Suc (Suc (ticks u)))\<rparr>)) = Inr x"
      "w' = note_event env ''note.restored'' n' x"
proof -
  obtain c where c: "require_note (begin_tx env w) i = Inr c"
    using assms by (auto simp: restore_note_def Let_def)
  have offs: "enabled_offsets (save_note j f u\<lparr>ticks := k\<rparr>) = enabled_offsets u" for j f u k
    by (simp add: enabled_offsets_def fun_eq_iff row_simps)
  show thesis
  proof (cases "n_trash_action_id c")
    case None
    obtain n u where u: "locked_note_and_series env i (rr_expected_series_version p) (begin_tx env w) = Inr (n, u)"
      using assms c None by (auto simp: restore_note_def Let_def)
    let ?f = "\<lambda>n. n\<lparr>n_deleted_at := None, n_updated_at := clock env (Suc (ticks u))\<rparr>"
    let ?n = "(?f n)\<lparr>n_version := n_version n + 1\<rparr>"
    obtain t x where "n_version n = rr_expected_version p" "n_deleted_at n = Some t" "clock env (ticks u) - retention < t"
      "set_exception env ?n 0 (Some False) (reconcile_reminders env ?n (enabled_offsets u (n_id n)) False
        (clock env (Suc (Suc (ticks u))))
        ((save_note (n_id n) ?f u)\<lparr>ticks := Suc (Suc (Suc (ticks u)))\<rparr>)) = Inr x"
      "w' = note_event env ''note.restored'' ?n x"
      using assms c None u
      by (auto simp: restore_note_def save_def utcnow_def offs Let_def split: if_splits option.splits)
    then show thesis by (intro single [OF c None u _ _ _ refl]) simp_all
  next
    case (Some a)
    then show thesis
      using assms c by (auto simp: restore_note_def Let_def split: option.splits intro: action)
  qed
qed

lemma restore_note_keeps:
  assumes "restore_note env i p w = Inr (r, w')"
  shows "handler_keeps env w w'"
  using assms
proof (cases rule: restore_note_cases)
  case (action c a v s)
  show ?thesis by (rule handler_keeps_trans [OF begin_tx_keeps restore_members_keeps [OF action(4)]])
next
  case (single c n u t x n')
  note L = locked_note_cases [OF single(3)]
  note n = require_noteD [OF L(2)]
  have "handler_keeps env u x"
    by (rule handler_keeps_trans [OF save_reconcile_ticks [OF n(1,5)]
          set_exception_keeps(1) [OF single(8) [unfolded single(7)]]]) simp_all
  with L(1) show ?thesis
    unfolding single(9) note_event_def
    by (blast intro: handler_keeps_trans add_event_keeps begin_tx_keeps)
qed

lemma save_only_keeps:
  assumes "\<And>m. n_id (f m) = n_id m" "\<And>m. n_starts_at (f m) = n_starts_at m" "\<And>m. live_note (f m) = live_note m"
    and n: "n \<in> set (w_notes w)" "changeable n"
  shows "handler_keeps env w (save_note (n_id n) f w)"
  unfolding handler_keeps_def
proof (intro impI, elim conjE)
  let ?w = "save_note (n_id n) f w"
  assume ok: "reminders_ok w" "fresh env w"
  have ids: "map n_id (w_notes ?w) = map n_id (w_notes w)" by (simp add: save_note_def assms(1))
  then have img: "n_id ` set (w_notes ?w) = n_id ` set (w_notes w)" by (metis list.set_map)
  have "reminder_rows_wf ?w"
    using ok(1) unfolding reminders_ok_def reminder_rows_wf_def ids img by (simp add: row_simps)
  moreover have "rule_state ?w m r"
    if m: "m \<in> set (w_notes ?w)" and r: "r \<in> set (w_rules w)" "r_note_id r = n_id m" for m r
  proof -
    obtain m0 where m0: "m0 \<in> set (w_notes w)" "n_id m = n_id m0" "n_starts_at m = n_starts_at m0"
      "live_note m = live_note m0"
      using m assms(1-3) by (auto simp: save_note_def set_update_where live_note_def)
    then have "rule_ok m0 r (dels (r_id r) (w_deliveries w))"
      using ok(1) r by (simp add: reminders_ok_def rule_state_def)
    then show ?thesis using m0 by (auto simp: rule_state_def row_simps intro: rule_ok_cong)
  qed
  ultimately have "reminders_ok ?w" by (simp add: reminders_ok_def row_simps)
  moreover have "m \<in> set (w_notes ?w)" if "m \<in> set (w_notes w)" "\<not> changeable m" for m
  proof -
    have "n_id m \<noteq> n_id n" using distinct_map_eqD [OF rows_distinct [OF ok(1)] that(1) n(1)] that(2) n(2) by blast
    then show ?thesis by (rule save_note_others [OF that(1)])
  qed
  then have "purged_notes w \<subseteq> purged_notes ?w" by (auto simp: purged_notes_def changeable_def)
  moreover have "history ?w = history w" by (simp add: history_def row_simps)
  ultimately show "reminders_ok ?w \<and> fresh env ?w \<and> history w \<subseteq> history ?w \<and> purged_notes w \<subseteq> purged_notes ?w"
    using fresh_save_note [OF ok(2), of f "n_id n"] assms(1) by simp
qed

lemma restore_legacy_note_keeps:
  assumes "n \<in> set (w_notes w)" "changeable n"
  shows "handler_keeps env w (restore_legacy_note env s now n w)"
proof -
  have "handler_keeps env w (change_and_reconcile env now
      (\<lambda>n. n\<lparr>n_series_trashed_at := None, n_deleted_at := None, n_updated_at := now\<rparr>) n w)"
    by (rule change_and_reconcile_keeps) (simp_all add: assms)
  moreover have "handler_keeps env w (save_note (n_id n) (\<lambda>n. n\<lparr>n_series_trashed_at := None\<rparr>) w)"
    by (rule save_only_keeps) (simp_all add: assms live_note_def)
  ultimately show ?thesis by (simp add: restore_legacy_note_def save_def split: option.splits)
qed

lemma restore_legacy_note_others:
  assumes "m \<in> set (w_notes w)" "n_id m \<noteq> n_id n"
  shows "m \<in> set (w_notes (restore_legacy_note env s now n w))"
  using save_note_others [OF assms] by (simp add: restore_legacy_note_def save_def row_simps split: option.splits)

lemma restore_series_portion_cases:
  assumes "restore_series_portion env sid p w = Inr (r, w')"
  obtains (action) s a where "restore_members env a (po_series_version p) None (begin_tx env w) = Inr (s, w')"
    | (legacy) s ns now u where
      "locked_series sid (Some (po_series_version p)) (begin_tx env w) = Inr s"
      "set ns \<subseteq> {n \<in> set (w_notes w). n_series_trashed_at n \<noteq> None \<and> n_superseded_at n = None
         \<and> n_series_id n = Some (rs_id s) \<and> n_trash_action_id n = None}"
      "\<exists>p. ns = sort_key n_id (filter p (w_notes w))"
      "\<forall>n \<in> set ns. now - retention < the (n_series_trashed_at n)"
      "u = fold (restore_legacy_note env s now) ns ((begin_tx env w)\<lparr>ticks := Suc (ticks (begin_tx env w))\<rparr>)"
      "w' = updated_event env (s\<lparr>rs_updated_at := now, rs_version := rs_version s + 1\<rparr>)
         (save_series (rs_id s) (\<lambda>s. s\<lparr>rs_updated_at := now\<rparr>) u)"
proof -
  obtain s where s: "locked_series sid (Some (po_series_version p)) (begin_tx env w) = Inr s"
    using assms by (auto simp: restore_series_portion_def Let_def)
  let ?from = "\<lambda>n. case po_recurrence_key p of None \<Rightarrow> True | Some k \<Rightarrow> key_from k n"
  let ?ids = "sort (remdups (concat (map (\<lambda>n. case n_trash_action_id n of None \<Rightarrow> [] | Some a \<Rightarrow> [a])
    (filter (\<lambda>n. n_series_id n = Some (rs_id s) \<and> ?from n) (w_notes (begin_tx env w))))))"
  show thesis
  proof (cases ?ids)
    case Nil
    then obtain boundary where b: "portion_boundary (begin_tx env w) s (po_recurrence_key p) True = Inr boundary"
      using assms s by (auto simp: restore_series_portion_def Let_def)
    have "sort xs = [] \<longleftrightarrow> xs = []" for xs :: "uuid list"
      by (metis length_0_conv length_sort)
    with Nil have none: "n_trash_action_id n = None"
      if "n \<in> set (w_notes w)" "n_series_id n = Some (rs_id s)" "?from n" for n
      using that by (cases "n_trash_action_id n") (auto simp: row_simps)
    have after: "?from n" if "key_from boundary n" for n
      using b that by (auto simp: portion_boundary_def Let_def split: option.splits if_splits)
    let ?p = "\<lambda>n. n_series_id n = Some (rs_id s) \<and> key_from boundary n \<and> n_series_trashed_at n \<noteq> None
      \<and> n_superseded_at n = None"
    show thesis
      by (rule legacy [OF s, of "sort_key n_id (filter ?p (w_notes w))" "clock env (ticks (begin_tx env w))" _,
            OF _ _ _ refl])
        (use assms s Nil b none after in \<open>auto simp: restore_series_portion_def save_series_row_def utcnow_def row_simps
          not_le Let_def split: if_splits\<close>)
  next
    case (Cons a as)
    then show thesis
      using assms s by (auto simp: restore_series_portion_def Let_def split: if_splits option.splits intro: action)
  qed
qed

lemma restore_series_portion_keeps:
  assumes "restore_series_portion env sid p w = Inr (r, w')"
  shows "handler_keeps env w w'"
  using assms
proof (cases rule: restore_series_portion_cases)
  case (action s a)
  show ?thesis by (rule handler_keeps_trans [OF begin_tx_keeps restore_members_keeps [OF action]])
next
  case (legacy s ns now u)
  let ?v = "(begin_tx env w)\<lparr>ticks := Suc (ticks (begin_tx env w))\<rparr>"
  show ?thesis
  proof (rule handler_keepsI)
    assume ok: "reminders_ok w" "fresh env w"
    have "handler_keeps env w ?v" by (rule handler_keeps_trans [OF begin_tx_keeps utcnow_keeps])
    moreover have "handler_keeps env ?v u"
      unfolding legacy(5)
    proof (rule row_loop_keeps)
      show "set ns \<subseteq> {n \<in> set (w_notes ?v). changeable n}"
        using legacy(2) by (auto simp: row_simps changeable_def)
      show "distinct (map n_id ns)" using legacy(3) selected_distinct [OF ok(1)] by blast
    qed (simp_all add: restore_legacy_note_keeps restore_legacy_note_others)
    moreover have "handler_keeps env u w'"
      unfolding legacy(6) updated_event_def by (rule handler_keeps_trans [OF save_series_keeps add_event_keeps]) simp
    ultimately show "handler_keeps env w w'" by (blast intro: handler_keeps_trans)
  qed
qed

subsection \<open>Splitting a series\<close>

lemma current_rowD:
  assumes "m \<in> set (w_notes w)" "n_id m = n_id n" "distinct (map n_id (w_notes w))"
  shows "current_row w n = m"
proof -
  obtain x where x: "find (\<lambda>m. n_id m = n_id n) (w_notes w) = Some x"
    using find_exists [of m "w_notes w" "\<lambda>m. n_id m = n_id n"] assms(1,2) by blast
  then have "x \<in> set (w_notes w)" "n_id x = n_id n" by (auto dest: find_Some_set)
  with assms have "x = m" by (metis distinct_map_eqD)
  with x show ?thesis by (simp add: current_row_def)
qed

definition taken_over :: "series_split \<Rightarrow> string \<Rightarrow> uuid \<Rightarrow> instant \<Rightarrow> instant \<Rightarrow> note_row \<Rightarrow> note_row" where
  "taken_over p title sid now t n = n\<lparr>n_series_id := Some sid, n_title := title, n_body := nw_body p,
     n_starts_at := t, n_active := nw_active p, n_deleted_at := None,
     n_series_trashed_at := None, n_superseded_at := None, n_updated_at := now\<rparr>"

lemma taken_over_simps [simp]:
  "n_id (taken_over p title sid now t n) = n_id n" "n_starts_at (taken_over p title sid now t n) = t"
  "n_purged_at (taken_over p title sid now t n) = n_purged_at n"
  by (simp_all add: taken_over_def)

lemma place_occurrence_cases:
  assumes "place_occurrence env p title sid now reusable occ (kept, w) = (kept', w')"
  obtains (created) n where "find (\<lambda>n. n_recurrence_key n = Some (instant_of occ)) reusable = None" "kept' = kept"
      "n = new_note (uuid4 env (draws w)) title (nw_body p) (instant_of occ) (nw_active p) (Some sid)
         (Some (instant_of occ)) (w_now w)"
      "w' = reconcile_reminders env n (nw_offsets p) False now
         (w\<lparr>draws := Suc (draws w), w_notes := w_notes w @ [n],
            w_note_tags := w_note_tags w @ map (\<lambda>k. (uuid4 env (draws w), k)) (nw_tag_ids p)\<rparr>)"
    | (taken) n0 n n' where "find (\<lambda>n. n_recurrence_key n = Some (instant_of occ)) reusable = Some n0"
      "n = current_row w n0" "kept' = kept @ [n_id n]"
      "n' = (taken_over p title sid now (instant_of occ) n)\<lparr>n_version := n_version n + 1\<rparr>"
      "w' = reconcile_reminders env n' (nw_offsets p) (n_starts_at n \<noteq> instant_of occ) now
         ((save_note (n_id n) (taken_over p title sid now (instant_of occ)) w)\<lparr>w_note_tags :=
            filter (\<lambda>(i, k). i \<noteq> n_id n) (w_note_tags w) @ map (\<lambda>k. (n_id n, k)) (nw_tag_ids p)\<rparr>)"
proof (cases "find (\<lambda>n. n_recurrence_key n = Some (instant_of occ)) reusable")
  case None
  then show thesis
    using assms by (intro created [OF None _ refl]) (auto simp: place_occurrence_def new_uuid_def Let_def)
next
  case (Some n0)
  have tags: "w_note_tags (save_note i f w) = w_note_tags w" for i f by (simp add: row_simps)
  show thesis
    using assms Some
    by (intro taken [OF Some refl _ refl])
      (auto simp: place_occurrence_def save_def taken_over_def [abs_def] tags Let_def)
qed

text \<open>The rows the loop may take over are in the table and not purged.\<close>

definition reusable_rows :: "note_row list \<Rightarrow> world \<Rightarrow> bool" where
  "reusable_rows reusable w \<longleftrightarrow> (\<forall>n \<in> set reusable.
     (n_id n, None) \<in> (\<lambda>m. (n_id m, n_purged_at m)) ` set (w_notes w))"

lemma place_occurrence_keeps:
  assumes ok: "reminders_ok w" "fresh env w" "reusable_rows reusable w"
    and r: "place_occurrence env p title sid now reusable occ (kept, w) = (kept', w')"
  shows "handler_keeps env w w' \<and> reusable_rows reusable w' \<and> set kept \<subseteq> set kept'
    \<and> (\<forall>m \<in> set (w_notes w). n_id m \<in> set kept' \<or> m \<in> set (w_notes w'))"
  using r
proof (cases rule: place_occurrence_cases)
  case (created n)
  have "handler_keeps env w w'" unfolding created by (rule add_note_step) simp
  moreover have "w_notes w' = w_notes w @ [n]" by (simp add: created)
  ultimately show ?thesis using ok(3) created(2) by (auto simp: reusable_rows_def)
next
  case (taken n0 n n')
  have dist: "distinct (map n_id (w_notes w))" by (rule rows_distinct [OF ok(1)])
  have "n0 \<in> set reusable" using find_Some_set [OF taken(1)] by blast
  then obtain m where m: "m \<in> set (w_notes w)" "n_id m = n_id n0" "n_purged_at m = None"
    using ok(3) by (fastforce simp: reusable_rows_def)
  then have n: "n \<in> set (w_notes w)" "n_purged_at n = None" "changeable n"
    using current_rowD [OF m(1,2) dist] by (auto simp: taken(2) changeable_def)
  have "handler_keeps env w w'"
    unfolding taken(4,5)
    by (rule save_reconcile_keeps [OF n(1,3), where k = "ticks w" and tags =
          "filter (\<lambda>(i, k). i \<noteq> n_id n) (w_note_tags w) @ map (\<lambda>k. (n_id n, k)) (nw_tag_ids p)"])
      (auto simp: save_note_def)
  moreover have rows: "w_notes w' = w_notes (save_note (n_id n) (taken_over p title sid now (instant_of occ)) w)"
    by (simp add: taken(5))
  have "reusable_rows reusable w'"
    using ok(3) unfolding reusable_rows_def rows save_note_def by simp
  moreover have "n_id x \<in> set kept' \<or> x \<in> set (w_notes w')" if "x \<in> set (w_notes w)" for x
    using save_note_others [OF that, of "n_id n"] by (auto simp: rows taken(3))
  ultimately show ?thesis by (auto simp: taken(3))
qed

lemma place_loop_keeps:
  assumes "reminders_ok w" "fresh env w" "reusable_rows reusable w"
    and "fold (place_occurrence env p title sid now reusable) occs (kept, w) = (kept', w')"
  shows "handler_keeps env w w' \<and> set kept \<subseteq> set kept'
    \<and> (\<forall>m \<in> set (w_notes w). n_id m \<in> set kept' \<or> m \<in> set (w_notes w'))"
  using assms
proof (induction occs arbitrary: kept w)
  case Nil
  then show ?case by (simp add: handler_keeps_refl)
next
  case (Cons occ occs)
  obtain kept1 w1 where s: "place_occurrence env p title sid now reusable occ (kept, w) = (kept1, w1)" by fastforce
  note S = place_occurrence_keeps [OF Cons.prems(1-3) s]
  then have ok: "reminders_ok w1" "fresh env w1" using Cons.prems(1,2) by (auto simp: handler_keeps_def)
  have "handler_keeps env w1 w' \<and> set kept1 \<subseteq> set kept'
    \<and> (\<forall>m \<in> set (w_notes w1). n_id m \<in> set kept' \<or> m \<in> set (w_notes w'))"
    by (rule Cons.IH [OF ok]) (use S s Cons.prems(4) in auto)
  with S show ?case by (blast intro: handler_keeps_trans)
qed

lemma series_rows_keeps:
  "handler_keeps env w (w\<lparr>draws := Suc (draws w), w_series := w_series w @ [s], w_series_tags := st,
     w_templates := tpl\<rparr>)" if "rs_id s = uuid4 env (draws w)"
  by (rule handler_keeps_frame) (use that in \<open>auto simp: grows_def used_ids_def\<close>)

lemma split_series_cases:
  assumes "split_series env sid p w = Inr (r, w')"
  obtains pl b u v kept x last_day where
    "b = (begin_tx env w)\<lparr>ticks := Suc (Suc (ticks w))\<rparr>"
    "split_checks env sid p (clock env (Suc (ticks w))) b = Inr pl"
    "u = save_series (rs_id (pl_old pl)) (\<lambda>s. s\<lparr>rs_end_date := last_day,
         rs_split_boundary := Some (pl_key pl), rs_updated_at := clock env (Suc (ticks w))\<rparr>)
       (b\<lparr>draws := Suc (draws w),
          w_series := w_series w @ [successor_series (uuid4 env (draws w)) (pl_old pl) (pl_title pl) p (w_now b)],
          w_series_tags := w_series_tags w @ map (\<lambda>k. (uuid4 env (draws w), k)) (nw_tag_ids p),
          w_templates := w_templates w @ map (\<lambda>m. (uuid4 env (draws w), m)) (nw_offsets p)\<rparr>)"
    "fold (place_occurrence env p (pl_title pl) (uuid4 env (draws w)) (clock env (Suc (ticks w)))
       (filter (\<lambda>n. n_purged_at n = None) (pl_affected pl))) (pl_generated pl) ([], u) = (kept, v)"
    "x = fold (supersede_note env (clock env (Suc (ticks w))))
       (filter (\<lambda>n. n_purged_at n = None \<and> n_id n \<notin> set kept) (pl_affected pl)) v"
    "\<exists>xs. w' = updated_event env (successor_series (uuid4 env (draws w)) (pl_old pl) (pl_title pl) p (w_now b))
       (x\<lparr>w_exceptions := filter xs (w_exceptions x)\<rparr>)"
proof -
  let ?b = "(begin_tx env w)\<lparr>ticks := Suc (Suc (ticks w))\<rparr>"
  have b: "draws (begin_tx env w) = draws w" "w_series (begin_tx env w) = w_series w"
    "w_series_tags (begin_tx env w) = w_series_tags w" "w_templates (begin_tx env w) = w_templates w"
    "ticks (begin_tx env w) = Suc (ticks w)"
    by (simp_all add: begin_tx_def)
  obtain pl where pl: "split_checks env sid p (clock env (Suc (ticks w))) ?b = Inr pl"
    using assms by (auto simp: split_series_def utcnow_def b Let_def)
  obtain last_day where d: "prev_day (local_date (to_local env (rs_timezone (pl_old pl)) (pl_key pl))) = Some last_day"
    using assms pl by (auto simp: split_series_def utcnow_def new_uuid_def b Let_def split: option.splits)
  let ?u = "save_series (rs_id (pl_old pl)) (\<lambda>s. s\<lparr>rs_end_date := last_day,
         rs_split_boundary := Some (pl_key pl), rs_updated_at := clock env (Suc (ticks w))\<rparr>)
       (?b\<lparr>draws := Suc (draws w),
          w_series := w_series w @ [successor_series (uuid4 env (draws w)) (pl_old pl) (pl_title pl) p (w_now ?b)],
          w_series_tags := w_series_tags w @ map (\<lambda>k. (uuid4 env (draws w), k)) (nw_tag_ids p),
          w_templates := w_templates w @ map (\<lambda>m. (uuid4 env (draws w), m)) (nw_offsets p)\<rparr>)"
  obtain kept v where f: "fold (place_occurrence env p (pl_title pl) (uuid4 env (draws w)) (clock env (Suc (ticks w)))
       (filter (\<lambda>n. n_purged_at n = None) (pl_affected pl))) (pl_generated pl) ([], ?u) = (kept, v)"
    by fastforce
  show thesis
    by (rule that [OF refl pl refl f refl])
      (use assms pl d f in \<open>auto simp: split_series_def utcnow_def new_uuid_def b Let_def split: prod.splits\<close>)
qed

lemma split_checksD:
  assumes "split_checks env sid p now w = Inr pl"
  shows "locked_series sid None w = Inr (pl_old pl)" "pl_key pl = sp_recurrence_key p"
    "pl_affected pl = affected_notes w (rs_id (pl_old pl)) (pl_key pl)"
    "expand_payload env (min (max_series_occurrences env) 10000) p = Inr (pl_generated pl)"
    "pl_generated pl \<noteq> []" "pl_title pl = strip (nw_title p)" "pl_title pl \<noteq> []"
    "rs_split_boundary (pl_old pl) = None" "rs_version (pl_old pl) = sp_series_version p"
    "\<forall>n \<in> set (pl_affected pl). n_trash_action_id n = None \<and> n_series_trashed_at n = None \<and> now < n_starts_at n"
    "\<forall>t \<in> instant_of ` set (pl_generated pl). now < t"
    "colliding_notes w (pl_old pl) (pl_key pl) (map instant_of (pl_generated pl)) = []"
proof -
  obtain old where old: "locked_series sid None w = Inr old"
    using assms by (auto simp: split_checks_def)
  obtain sel where sel: "find (\<lambda>n. n_series_id n = Some (rs_id old) \<and> n_recurrence_key n = Some (sp_recurrence_key p)
       \<and> n_superseded_at n = None \<and> n_purged_at n = None) (w_notes w) = Some sel"
    using assms old by (auto simp: split_checks_def split: if_splits option.splits)
  obtain o1 os where gen: "expand_payload env (min (max_series_occurrences env) 10000) p = Inr (o1 # os)"
    using assms old sel by (auto simp: split_checks_def Let_def split: if_splits sum.splits list.splits)
  have all: "pl = \<lparr>pl_old = old, pl_key = sp_recurrence_key p,
      pl_affected = affected_notes w (rs_id old) (sp_recurrence_key p), pl_generated = o1 # os,
      pl_title = strip (nw_title p)\<rparr>"
    "strip (nw_title p) \<noteq> []" "rs_split_boundary old = None" "rs_version old = sp_series_version p"
    "\<forall>n \<in> set (affected_notes w (rs_id old) (sp_recurrence_key p)).
       n_trash_action_id n = None \<and> n_series_trashed_at n = None \<and> now < n_starts_at n"
    "\<forall>t \<in> instant_of ` set (o1 # os). now < t"
    "colliding_notes w old (sp_recurrence_key p) (map instant_of (o1 # os)) = []"
    using assms old sel gen by (auto simp: split_checks_def not_le Let_def split: if_splits)
  then show "locked_series sid None w = Inr (pl_old pl)" "pl_key pl = sp_recurrence_key p"
    "pl_affected pl = affected_notes w (rs_id (pl_old pl)) (pl_key pl)"
    "expand_payload env (min (max_series_occurrences env) 10000) p = Inr (pl_generated pl)"
    "pl_generated pl \<noteq> []" "pl_title pl = strip (nw_title p)" "pl_title pl \<noteq> []"
    "rs_split_boundary (pl_old pl) = None" "rs_version (pl_old pl) = sp_series_version p"
    "\<forall>n \<in> set (pl_affected pl). n_trash_action_id n = None \<and> n_series_trashed_at n = None \<and> now < n_starts_at n"
    "\<forall>t \<in> instant_of ` set (pl_generated pl). now < t"
    "colliding_notes w (pl_old pl) (pl_key pl) (map instant_of (pl_generated pl)) = []"
    using old gen by simp_all
qed

lemma split_start_keeps:
  assumes b: "b = (begin_tx env w)\<lparr>ticks := Suc (Suc (ticks w))\<rparr>"
    and u: "u = save_series i f (b\<lparr>draws := Suc (draws w),
       w_series := w_series w @ [successor_series (uuid4 env (draws w)) old title p t],
       w_series_tags := tags, w_templates := ts\<rparr>)"
    and f: "\<And>s. rs_id (f s) = rs_id s"
  shows "handler_keeps env w u" "w_notes u = w_notes w"
proof -
  have "handler_keeps env w b"
    unfolding b by (rule handler_keeps_trans [OF begin_tx_keeps utcnow_keeps])
  moreover have "handler_keeps env b u"
    unfolding u
    by (rule handler_keeps_trans [OF handler_keeps_frame save_series_keeps])
      (auto simp: b f grows_def used_ids_def successor_series_def begin_tx_def)
  ultimately show "handler_keeps env w u" by (rule handler_keeps_trans)
  show "w_notes u = w_notes w" by (simp add: u save_series_def b begin_tx_def)
qed

lemma split_series_keeps:
  assumes "split_series env sid p w = Inr (r, w')"
  shows "handler_keeps env w w'"
  using assms
proof (cases rule: split_series_cases)
  case (1 pl b u v kept x last_day)
  let ?reusable = "filter (\<lambda>n. n_purged_at n = None) (pl_affected pl)"
  show ?thesis
  proof (rule handler_keepsI)
    assume ok: "reminders_ok w" "fresh env w"
    have b: "w_notes b = w_notes w" "draws b = draws w" unfolding 1(1) by (simp_all add: begin_tx_def)
    have aff: "set (pl_affected pl) \<subseteq> set (w_notes w)" "distinct (map n_id (pl_affected pl))"
      unfolding split_checksD(3) [OF 1(2)] affected_notes_def b
      by (auto intro: selected_distinct [OF ok(1)])
    have u: "handler_keeps env w u" "w_notes u = w_notes w" by (rule split_start_keeps [OF 1(1,3)], simp)+
    then have ok_u: "reminders_ok u" "fresh env u" using ok by (auto simp: handler_keeps_def)
    have notes_u: "w_notes u = w_notes w" by (rule u(2))
    have "reusable_rows ?reusable u" using aff(1) by (force simp: reusable_rows_def notes_u)
    from place_loop_keeps [OF ok_u this 1(4)]
    have v: "handler_keeps env u v" "\<forall>m \<in> set (w_notes u). n_id m \<in> set kept \<or> m \<in> set (w_notes v)" by auto
    have "handler_keeps env v x"
      unfolding 1(5) supersede_note_def [abs_def]
    proof (rule change_loop_keeps)
      show "set (filter (\<lambda>n. n_purged_at n = None \<and> n_id n \<notin> set kept) (pl_affected pl))
          \<subseteq> {n \<in> set (w_notes v). changeable n}"
        using aff(1) v(2) by (auto simp: notes_u changeable_def)
      show "distinct (map n_id (filter (\<lambda>n. n_purged_at n = None \<and> n_id n \<notin> set kept) (pl_affected pl)))"
        using aff(2) by (rule distinct_map_filter)
    qed simp_all
    moreover have "handler_keeps env x w'"
    proof -
      obtain q where w': "w' = updated_event env (successor_series (uuid4 env (draws w)) (pl_old pl) (pl_title pl) p (w_now b))
          (x\<lparr>w_exceptions := filter q (w_exceptions x)\<rparr>)"
        using 1(6) by blast
      show ?thesis
        unfolding w' updated_event_def
        by (rule handler_keeps_trans [OF handler_keeps_frame add_event_keeps]) (auto simp: grows_def used_ids_def)
    qed
    ultimately show "handler_keeps env w w'" using u v(1) by (blast intro: handler_keeps_trans)
  qed
qed

end
