(* ===== verification/SeriesCreation.thy ===== *)
theory SeriesCreation
  imports HandlerSafety
begin

section \<open>Creating a series\<close>

text \<open>
  \<open>create_series_rows\<close> writes the notes, rules and deliveries of a series in bulk, deliveries last,
  instead of reconciling note by note. The invariant \<open>building\<close> of its loops says that the rules
  still without a delivery are those of the plans, and that each plan is the delivery
  \<open>_new_delivery\<close> would make. At the end no plan is left and the reminders are as after a
  reconciliation.
\<close>

subsection \<open>The plans are what _new_delivery makes\<close>

definition plan_fits :: "world \<Rightarrow> instant \<Rightarrow> delivery_plan \<Rightarrow> note_row \<Rightarrow> reminder_rule \<Rightarrow> bool" where
  "plan_fits w now q n r \<longleftrightarrow> n \<in> set (w_notes w) \<and> r \<in> set (w_rules w) \<and> r_note_id r = n_id n
     \<and> r_id r = dp_rule_id q \<and> r_enabled r \<and> dels (dp_rule_id q) (w_deliveries w) = []
     \<and> (\<forall>i. planned_delivery now i q = fresh_delivery i n r now)"

definition building :: "env \<Rightarrow> instant \<Rightarrow> world \<times> delivery_plan list \<Rightarrow> bool" where
  "building env now = (\<lambda>(w, plans). reminder_rows_wf w \<and> fresh env w
     \<and> distinct (map dp_rule_id plans) \<and> (\<forall>q \<in> set plans. \<exists>n r. plan_fits w now q n r)
     \<and> (\<forall>n \<in> set (w_notes w). \<forall>r \<in> set (w_rules w). r_note_id r = n_id n \<longrightarrow>
          r_id r \<notin> dp_rule_id ` set plans \<longrightarrow> rule_state w n r))"

lemma buildingD:
  assumes "building env now (w, plans)"
  shows "reminder_rows_wf w" "fresh env w" "distinct (map dp_rule_id plans)"
    "\<And>q. q \<in> set plans \<Longrightarrow> \<exists>n r. plan_fits w now q n r"
    "\<And>n r. n \<in> set (w_notes w) \<Longrightarrow> r \<in> set (w_rules w) \<Longrightarrow> r_note_id r = n_id n \<Longrightarrow>
       r_id r \<notin> dp_rule_id ` set plans \<Longrightarrow> rule_state w n r"
  using assms by (auto simp: building_def)

lemma building_start: "reminders_ok w \<Longrightarrow> fresh env w \<Longrightarrow> building env now (w, [])"
  by (simp add: building_def reminders_ok_def)

lemma building_done: "building env now (w, []) \<Longrightarrow> reminders_ok w \<and> fresh env w"
  by (simp add: building_def reminders_ok_def)

lemma fresh_delivery_ok: "r_enabled r \<Longrightarrow> rule_ok n r [fresh_delivery i n r now]"
  by (auto simp: rule_ok_def cycles_ok_def due_ok_def open_ok_def)

subsection \<open>The last flush\<close>

lemma add_planned_rows [row_simps]:
  "w_notes (add_planned env now q w) = w_notes w" "w_rules (add_planned env now q w) = w_rules w"
  "w_deliveries (add_planned env now q w) = w_deliveries w @ [planned_delivery now (uuid4 env (draws w)) q]"
  "w_note_tags (add_planned env now q w) = w_note_tags w" "w_series (add_planned env now q w) = w_series w"
  "w_series_tags (add_planned env now q w) = w_series_tags w"
  "w_templates (add_planned env now q w) = w_templates w"
  by (simp_all add: add_planned_def new_uuid_def)

lemma add_planned_grows: "grows env w (add_planned env now q w)"
  by (auto simp: grows_def used_ids_def add_planned_def new_uuid_def planned_delivery_def)

lemma add_planned_step:
  assumes "building env now (w, q # plans)"
  shows "building env now (add_planned env now q w, plans)"
proof -
  let ?w = "add_planned env now q w"
  note B = buildingD [OF assms]
  obtain n r where q: "plan_fits w now q n r" using B(4) [of q] by auto
  let ?d = "fresh_delivery (uuid4 env (draws w)) n r now"
  have d: "planned_delivery now (uuid4 env (draws w)) q = ?d" using q by (simp add: plan_fits_def)
  have new: "uuid4 env (draws w) \<notin> d_id ` set (w_deliveries w)" using B(2) by (auto simp: fresh_def used_ids_def)
  have r: "r \<in> set (w_rules w)" "r_id r = dp_rule_id q" "n \<in> set (w_notes w)" "r_note_id r = n_id n" "r_enabled r"
    "dels (r_id r) (w_deliveries w) = []"
    using q unfolding plan_fits_def by auto
  have dist: "distinct (map n_id (w_notes w))" "distinct (map r_id (w_rules w))"
    using B(1) by (simp_all add: reminder_rows_wf_def)
  have "reminder_rows_wf ?w"
    using B(1) new r(1) by (auto simp: reminder_rows_wf_def row_simps d)
  moreover have "fresh env ?w" by (rule fresh_grows [OF B(2) add_planned_grows])
  moreover have "\<exists>n' r'. plan_fits ?w now q' n' r'" if q': "q' \<in> set plans" for q'
  proof -
    obtain n' r' where f: "plan_fits w now q' n' r'" using B(4) [of q'] q' by auto
    have "dp_rule_id q' \<noteq> dp_rule_id q" using B(3) q' by (auto simp: image_iff)
    then have "plan_fits ?w now q' n' r'" using f r(2) by (simp add: plan_fits_def row_simps d)
    then show ?thesis by blast
  qed
  moreover have "rule_state ?w m s"
    if m: "m \<in> set (w_notes w)" "s \<in> set (w_rules w)" "r_note_id s = n_id m" "r_id s \<notin> dp_rule_id ` set plans" for m s
  proof (cases "s = r")
    case True
    then have "m = n" using m(1,3) r(3,4) distinct_map_eqD [OF dist(1)] by metis
    then show ?thesis using True r(5,6) fresh_delivery_ok [OF r(5)] by (simp add: rule_state_def row_simps d)
  next
    case False
    then have ne: "r_id s \<noteq> r_id r" using m(2) r(1) distinct_map_eqD [OF dist(2)] by blast
    then have "rule_state w m s" using B(5) m r(2) by auto
    then show ?thesis using ne by (simp add: rule_state_def row_simps d)
  qed
  ultimately show ?thesis using B(3) by (simp add: building_def row_simps)
qed

lemma add_planned_loop: "building env now (w, plans) \<Longrightarrow> building env now (fold (add_planned env now) plans w, [])"
  by (induction plans arbitrary: w) (simp_all add: add_planned_step)

subsection \<open>The loop over the occurrences\<close>

definition bulk_rule :: "uuid \<Rightarrow> uuid \<Rightarrow> int \<Rightarrow> reminder_rule" where
  "bulk_rule i note_id m = \<lparr>r_id = i, r_note_id = note_id, r_offset_minutes = m, r_enabled = True,
     r_current_cycle_number = 1\<rparr>"

lemma add_offset_eq:
  "add_offset env active t now note_id m (w, plans) =
     (w\<lparr>draws := Suc (draws w), w_rules := w_rules w @ [bulk_rule (uuid4 env (draws w)) note_id m]\<rparr>,
      plans @ [plan_delivery active t now (uuid4 env (draws w)) m])"
  by (simp add: add_offset_def new_uuid_def bulk_rule_def)

lemma planned_fresh:
  assumes "n_starts_at n = t" "live_note n = active"
  shows "planned_delivery now i (plan_delivery active t now j m) =
    fresh_delivery i n (bulk_rule j (n_id n) m) now"
  using assms by (simp add: planned_delivery_def plan_delivery_def fresh_delivery_def bulk_rule_def Let_def)

lemma add_offset_step:
  assumes B: "building env now (w, plans)" and n: "n \<in> set (w_notes w)" "n_starts_at n = t" "live_note n = active"
    and m: "\<forall>r \<in> set (w_rules w). r_note_id r = n_id n \<longrightarrow> r_offset_minutes r \<noteq> m"
  shows "building env now (add_offset env active t now (n_id n) m (w, plans))"
proof -
  let ?i = "uuid4 env (draws w)"
  let ?r = "bulk_rule ?i (n_id n) m"
  let ?w = "w\<lparr>draws := Suc (draws w), w_rules := w_rules w @ [?r]\<rparr>"
  let ?q = "plan_delivery active t now ?i m"
  note D = buildingD [OF B]
  have new: "?i \<notin> r_id ` set (w_rules w)" using D(2) by (auto simp: fresh_def used_ids_def)
  have rid: "r_id ?r = ?i" "r_note_id ?r = n_id n" "r_offset_minutes ?r = m" "r_enabled ?r" "dp_rule_id ?q = ?i"
    by (simp_all add: bulk_rule_def plan_delivery_def Let_def)
  have none: "d_reminder_rule_id d \<noteq> ?i" if "d \<in> set (w_deliveries w)" for d
    using D(1) new that unfolding reminder_rows_wf_def by metis
  have "(n_id n, m) \<notin> (\<lambda>r. (r_note_id r, r_offset_minutes r)) ` set (w_rules w)" using m by auto
  then have wf: "reminder_rows_wf ?w"
    using D(1) n(1) new unfolding reminder_rows_wf_def by (simp add: rid)
  have fr: "fresh env ?w" by (rule fresh_grows [OF D(2)]) (auto simp: grows_def used_ids_def rid)
  have old: "dp_rule_id q \<in> r_id ` set (w_rules w)" if "q \<in> set plans" for q
    using D(4) [OF that] unfolding plan_fits_def by (metis image_eqI)
  have "plan_fits ?w now ?q n ?r"
    using n none planned_fresh [OF n(2,3)] by (auto simp: plan_fits_def rid dels_def filter_empty_conv)
  moreover have "\<exists>n' r'. plan_fits ?w now q n' r'" if "q \<in> set plans" for q
    using D(4) [OF that] by (fastforce simp: plan_fits_def)
  moreover have "rule_state ?w k s"
    if "k \<in> set (w_notes w)" "s \<in> set (w_rules w @ [?r])" "r_note_id s = n_id k"
      "r_id s \<notin> dp_rule_id ` set (plans @ [?q])" for k s
    using D(5) [of k s] that rid by (auto simp: rule_state_def)
  moreover have "distinct (map dp_rule_id (plans @ [?q]))"
    using D(3) old new by (auto simp: rid)
  ultimately show ?thesis
    unfolding add_offset_eq using wf fr by (auto simp: building_def)
qed

text \<open>What the loops add to the tables.\<close>

definition rule_key :: "reminder_rule \<Rightarrow> uuid \<times> int \<times> bool" where
  "rule_key r = (r_note_id r, r_offset_minutes r, r_enabled r)"

lemma add_offset_loop:
  assumes "building env now (w, plans)" "n \<in> set (w_notes w)" "n_starts_at n = t" "live_note n = active"
    and "distinct ms" "\<forall>r \<in> set (w_rules w). r_note_id r = n_id n \<longrightarrow> r_offset_minutes r \<notin> set ms"
    and "fold (add_offset env active t now (n_id n)) ms (w, plans) = (w', plans')"
  shows "building env now (w', plans')"
    and "\<exists>rs k. w' = w\<lparr>draws := k, w_rules := w_rules w @ rs\<rparr> \<and> draws w \<le> k
      \<and> r_id ` set rs \<subseteq> uuid4 env ` {draws w..<k} \<and> map rule_key rs = map (\<lambda>m. (n_id n, m, True)) ms"
proof -
  have "building env now (w', plans') \<and> (\<exists>rs k. w' = w\<lparr>draws := k, w_rules := w_rules w @ rs\<rparr> \<and> draws w \<le> k
      \<and> r_id ` set rs \<subseteq> uuid4 env ` {draws w..<k} \<and> map rule_key rs = map (\<lambda>m. (n_id n, m, True)) ms)"
    using assms
  proof (induction ms arbitrary: w plans)
    case Nil
    then have "w' = w" "plans' = plans" by simp_all
    moreover have "w = w\<lparr>draws := draws w, w_rules := w_rules w @ []\<rparr>" by simp
    ultimately show ?case
      using Nil.prems(1) by (intro conjI exI [of _ "[]"] exI [of _ "draws w"]) simp_all
  next
    case (Cons m ms)
    let ?r = "bulk_rule (uuid4 env (draws w)) (n_id n) m"
    let ?w = "w\<lparr>draws := Suc (draws w), w_rules := w_rules w @ [?r]\<rparr>"
    have r: "r_note_id ?r = n_id n" "r_offset_minutes ?r = m" "rule_key ?r = (n_id n, m, True)"
      "r_id ?r = uuid4 env (draws w)"
      by (simp_all add: bulk_rule_def rule_key_def)
    have B: "building env now (?w, plans @ [plan_delivery active t now (uuid4 env (draws w)) m])"
      using add_offset_step [OF Cons.prems(1-4), of m] Cons.prems(6) by (simp add: add_offset_eq)
    have n: "n \<in> set (w_notes ?w)" using Cons.prems(2) by simp
    have free: "\<forall>r \<in> set (w_rules ?w). r_note_id r = n_id n \<longrightarrow> r_offset_minutes r \<notin> set ms"
      using Cons.prems(5,6) r by auto
    have ms: "distinct ms" using Cons.prems(5) by simp
    have loop: "fold (add_offset env active t now (n_id n)) ms
        (?w, plans @ [plan_delivery active t now (uuid4 env (draws w)) m]) = (w', plans')"
      using Cons.prems(7) by (simp add: add_offset_eq)
    obtain rs k where k: "building env now (w', plans')"
      "w' = ?w\<lparr>draws := k, w_rules := w_rules ?w @ rs\<rparr>" "draws ?w \<le> k"
      "r_id ` set rs \<subseteq> uuid4 env ` {draws ?w..<k}" "map rule_key rs = map (\<lambda>m. (n_id n, m, True)) ms"
      using Cons.IH [OF B n Cons.prems(3,4) ms free loop] by blast
    have "uuid4 env (draws w) \<in> uuid4 env ` {draws w..<k}" using k(3) by auto
    moreover have "{draws ?w..<k} \<subseteq> {draws w..<k}" by auto
    ultimately have "r_id ` set (?r # rs) \<subseteq> uuid4 env ` {draws w..<k}" using k(4) r(4) by auto
    then show ?case
      using k r by (intro conjI exI [of _ "?r # rs"] exI [of _ k]) simp_all
  qed
  then show "building env now (w', plans')"
    and "\<exists>rs k. w' = w\<lparr>draws := k, w_rules := w_rules w @ rs\<rparr> \<and> draws w \<le> k
      \<and> r_id ` set rs \<subseteq> uuid4 env ` {draws w..<k} \<and> map rule_key rs = map (\<lambda>m. (n_id n, m, True)) ms"
    by blast+
qed

text \<open>The note of an occurrence.\<close>

definition occurrence_note ::
  "'a series_fields_scheme \<Rightarrow> string \<Rightarrow> uuid \<Rightarrow> instant \<Rightarrow> occurrence \<Rightarrow> note_row \<Rightarrow> bool" where
  "occurrence_note p title sid tx_now occ n \<longleftrightarrow>
     n = new_note (n_id n) title (nw_body p) (instant_of occ) (nw_active p) (Some sid) (Some (instant_of occ)) tx_now"

definition rule_keys :: "int list \<Rightarrow> note_row \<Rightarrow> (uuid \<times> int \<times> bool) list" where
  "rule_keys offsets n = map (\<lambda>m. (n_id n, m, True)) offsets"

definition tag_keys :: "uuid list \<Rightarrow> note_row \<Rightarrow> (uuid \<times> uuid) list" where
  "tag_keys tag_ids n = map (Pair (n_id n)) tag_ids"

lemma occurrence_note_simps:
  assumes "occurrence_note p title sid tx_now occ n"
  shows "n_title n = title" "n_body n = nw_body p" "n_starts_at n = instant_of occ" "n_active n = nw_active p"
    "n_series_id n = Some sid" "n_recurrence_key n = Some (instant_of occ)" "live_note n = nw_active p"
    "n_superseded_at n = None" "n_deleted_at n = None" "n_purged_at n = None" "n_version n = 1"
proof -
  have "n_title n = title \<and> n_body n = nw_body p \<and> n_starts_at n = instant_of occ \<and> n_active n = nw_active p
    \<and> n_series_id n = Some sid \<and> n_recurrence_key n = Some (instant_of occ) \<and> n_superseded_at n = None
    \<and> n_deleted_at n = None \<and> n_purged_at n = None \<and> n_version n = 1"
    by (subst (1 2 3 4 5 6 7 8 9 10) assms [unfolded occurrence_note_def]) (simp add: new_note_def)
  then show "n_title n = title" "n_body n = nw_body p" "n_starts_at n = instant_of occ" "n_active n = nw_active p"
    "n_series_id n = Some sid" "n_recurrence_key n = Some (instant_of occ)" "live_note n = nw_active p"
    "n_superseded_at n = None" "n_deleted_at n = None" "n_purged_at n = None" "n_version n = 1"
    by (simp_all add: live_note_def)
qed

lemma add_occurrence_step:
  assumes B: "building env now (w, plans)" and p: "note_fields_ok p"
    and r: "add_occurrence env p title sid now occ (w, plans) = (w', plans')"
  shows "building env now (w', plans')"
    and "\<exists>n rs k. w' = w\<lparr>draws := k, w_notes := w_notes w @ [n],
        w_note_tags := w_note_tags w @ tag_keys (nw_tag_ids p) n, w_rules := w_rules w @ rs\<rparr>
      \<and> draws w < k \<and> r_id ` set rs \<subseteq> uuid4 env ` {draws w..<k} \<and> n_id n \<in> uuid4 env ` {draws w..<k}
      \<and> map rule_key rs = rule_keys (nw_offsets p) n \<and> occurrence_note p title sid (w_now w) occ n"
proof -
  let ?i = "uuid4 env (draws w)"
  let ?n = "new_note ?i title (nw_body p) (instant_of occ) (nw_active p) (Some sid) (Some (instant_of occ)) (w_now w)"
  let ?w = "w\<lparr>draws := Suc (draws w), w_notes := w_notes w @ [?n],
    w_note_tags := w_note_tags w @ tag_keys (nw_tag_ids p) ?n\<rparr>"
  note D = buildingD [OF B]
  have new: "?i \<notin> n_id ` set (w_notes w)" by (rule fresh_note_id [OF D(2)])
  have none: "r_note_id r \<noteq> ?i" if "r \<in> set (w_rules w)" for r
    using D(1) new that unfolding reminder_rows_wf_def by metis
  have n: "?n \<in> set (w_notes ?w)" "n_starts_at ?n = instant_of occ" "live_note ?n = nw_active p" "n_id ?n = ?i"
    by (simp_all add: new_note_def live_note_def)
  have wf: "reminder_rows_wf ?w" using D(1) new by (auto simp: reminder_rows_wf_def)
  have fr: "fresh env ?w" by (rule fresh_grows [OF D(2)]) (auto simp: grows_def used_ids_def)
  have "\<exists>n r. plan_fits ?w now q n r" if "q \<in> set plans" for q
    using D(4) [OF that] by (fastforce simp: plan_fits_def)
  moreover have "rule_state ?w m r"
    if "m \<in> set (w_notes ?w)" "r \<in> set (w_rules w)" "r_note_id r = n_id m" "r_id r \<notin> dp_rule_id ` set plans" for m r
    using D(5) [of m r] none [of r] that by (auto simp: rule_state_def)
  ultimately have B': "building env now (?w, plans)"
    using wf fr D(3) by (simp add: building_def)
  have dist: "distinct (nw_offsets p)" using p by (simp add: note_fields_ok_def)
  have free: "\<forall>r \<in> set (w_rules ?w). r_note_id r = n_id ?n \<longrightarrow> r_offset_minutes r \<notin> set (nw_offsets p)"
    using none by auto
  have loop: "fold (add_offset env (nw_active p) (instant_of occ) now (n_id ?n)) (nw_offsets p) (?w, plans) = (w', plans')"
    using r by (simp add: add_occurrence_def new_uuid_def tag_keys_def n(4) Let_def)
  note L = add_offset_loop [OF B' n(1-3) dist free loop]
  show "building env now (w', plans')" by (rule L(1))
  obtain rs k where k: "w' = ?w\<lparr>draws := k, w_rules := w_rules ?w @ rs\<rparr>" "draws ?w \<le> k"
    "r_id ` set rs \<subseteq> uuid4 env ` {draws ?w..<k}" "map rule_key rs = map (\<lambda>m. (n_id ?n, m, True)) (nw_offsets p)"
    using L(2) by blast
  have "n_id ?n \<in> uuid4 env ` {draws w..<k}" using k(2) by (auto simp: n(4))
  moreover have "r_id ` set rs \<subseteq> uuid4 env ` {draws w..<k}"
    using k(3) image_mono [of "{draws ?w..<k}" "{draws w..<k}" "uuid4 env"] by auto
  ultimately show "\<exists>n rs k. w' = w\<lparr>draws := k, w_notes := w_notes w @ [n],
        w_note_tags := w_note_tags w @ tag_keys (nw_tag_ids p) n, w_rules := w_rules w @ rs\<rparr>
      \<and> draws w < k \<and> r_id ` set rs \<subseteq> uuid4 env ` {draws w..<k} \<and> n_id n \<in> uuid4 env ` {draws w..<k}
      \<and> map rule_key rs = rule_keys (nw_offsets p) n \<and> occurrence_note p title sid (w_now w) occ n"
    using k n(4) by (intro exI [of _ ?n] exI [of _ rs] exI [of _ k])
      (simp add: rule_keys_def occurrence_note_def)
qed

lemma add_occurrence_loop:
  assumes "building env now (w, plans)" "note_fields_ok p"
    and "fold (add_occurrence env p title sid now) occs (w, plans) = (w', plans')"
  shows "building env now (w', plans') \<and> (\<exists>ns rs k. w' = w\<lparr>draws := k, w_notes := w_notes w @ ns,
        w_note_tags := w_note_tags w @ concat (map (tag_keys (nw_tag_ids p)) ns), w_rules := w_rules w @ rs\<rparr>
      \<and> draws w \<le> k \<and> map rule_key rs = concat (map (rule_keys (nw_offsets p)) ns)
      \<and> list_all2 (occurrence_note p title sid (w_now w)) occs ns)"
  using assms
proof (induction occs arbitrary: w plans)
  case Nil
  then have "w' = w" "plans' = plans" by simp_all
  moreover have "w = w\<lparr>draws := draws w, w_notes := w_notes w @ [],
      w_note_tags := w_note_tags w @ concat (map (tag_keys (nw_tag_ids p)) []), w_rules := w_rules w @ []\<rparr>" by simp
  ultimately show ?case
    using Nil.prems(1) by (intro conjI exI [of _ "[]"] exI [of _ "draws w"]) simp_all
next
  case (Cons occ occs)
  obtain u plans1 where u: "add_occurrence env p title sid now occ (w, plans) = (u, plans1)" by fastforce
  note S = add_occurrence_step [OF Cons.prems(1,2) u]
  obtain n rs k where n: "u = w\<lparr>draws := k, w_notes := w_notes w @ [n],
        w_note_tags := w_note_tags w @ tag_keys (nw_tag_ids p) n, w_rules := w_rules w @ rs\<rparr>" "draws w < k"
      "map rule_key rs = rule_keys (nw_offsets p) n" "occurrence_note p title sid (w_now w) occ n"
    using S(2) by blast
  have "fold (add_occurrence env p title sid now) occs (u, plans1) = (w', plans')"
    using Cons.prems(3) u by simp
  from Cons.IH [OF S(1) Cons.prems(2) this] obtain ns rs' k' where
    L: "building env now (w', plans')" "w' = u\<lparr>draws := k', w_notes := w_notes u @ ns,
        w_note_tags := w_note_tags u @ concat (map (tag_keys (nw_tag_ids p)) ns), w_rules := w_rules u @ rs'\<rparr>"
      "draws u \<le> k'" "map rule_key rs' = concat (map (rule_keys (nw_offsets p)) ns)"
      "list_all2 (occurrence_note p title sid (w_now u)) occs ns"
    by blast
  show ?case
    using L n by (intro conjI exI [of _ "n # ns"] exI [of _ "rs @ rs'"] exI [of _ k']) simp_all
qed

subsection \<open>The series\<close>

lemma add_planned_loop_rows:
  "w_notes (fold (add_planned env now) plans w) = w_notes w" "w_rules (fold (add_planned env now) plans w) = w_rules w"
  "w_note_tags (fold (add_planned env now) plans w) = w_note_tags w"
  "w_series (fold (add_planned env now) plans w) = w_series w"
  "w_series_tags (fold (add_planned env now) plans w) = w_series_tags w"
  "w_templates (fold (add_planned env now) plans w) = w_templates w"
  by (rule fold_constant, simp add: row_simps)+

lemma add_planned_loop_deliveries:
  "set (w_deliveries w) \<subseteq> set (w_deliveries (fold (add_planned env now) plans w))"
  by (rule fold_invariant_set [where P = "\<lambda>v. set (w_deliveries w) \<subseteq> set (w_deliveries v)"])
    (auto simp: row_simps)

definition series_of :: "'a series_fields_scheme \<Rightarrow> string \<Rightarrow> uuid \<Rightarrow> instant \<Rightarrow> recurrence_series" where
  "series_of p title sid tx_now =
     \<lparr>rs_id = sid, rs_lineage_id = sid, rs_predecessor_id = None,
      rs_local_start = sf_local_start p, rs_timezone = sf_timezone p,
      rs_rrule = normalized_rrule (sf_frequency p), rs_end_date = sf_end_date p,
      rs_split_boundary = None, rs_template_title = title,
      rs_template_body = nw_body p, rs_template_active = nw_active p,
      rs_purged_at = None, rs_created_at = tx_now, rs_updated_at = tx_now, rs_version = 1\<rparr>"

lemma create_series_rows_cases:
  assumes "create_series_rows env p now limit w = Inr (s, w')"
  obtains occs w1 w2 plans where
    "expand_payload env (min limit max_occurrences) p = Inr occs" "occs \<noteq> []" "nw_starts_at p = instant_of (hd occs)"
    "set (nw_tag_ids p) \<subseteq> tag_id ` set (w_tags w)" "strip (nw_title p) \<noteq> []"
    "s = series_of p (strip (nw_title p)) (uuid4 env (draws w)) (w_now w)"
    "w1 = w\<lparr>draws := Suc (draws w), w_series := w_series w @ [s],
       w_series_tags := w_series_tags w @ map (\<lambda>k. (rs_id s, k)) (nw_tag_ids p),
       w_templates := w_templates w @ map (\<lambda>m. (rs_id s, m)) (nw_offsets p)\<rparr>"
    "fold (add_occurrence env p (strip (nw_title p)) (rs_id s) now) occs (w1, []) = (w2, plans)"
    "w' = fold (add_planned env now) plans w2"
proof -
  obtain occs where occs: "expand_payload env (min limit max_occurrences) p = Inr occs"
    using assms by (auto simp: create_series_rows_def Let_def split: sum.splits)
  obtain o1 os where os: "occs = o1 # os"
    using assms occs by (cases occs) (auto simp: create_series_rows_def Let_def)
  let ?s = "series_of p (strip (nw_title p)) (uuid4 env (draws w)) (w_now w)"
  let ?w1 = "w\<lparr>draws := Suc (draws w), w_series := w_series w @ [?s],
       w_series_tags := w_series_tags w @ map (\<lambda>k. (rs_id ?s, k)) (nw_tag_ids p),
       w_templates := w_templates w @ map (\<lambda>m. (rs_id ?s, m)) (nw_offsets p)\<rparr>"
  obtain w2 plans where f: "fold (add_occurrence env p (strip (nw_title p)) (rs_id ?s) now) occs (?w1, []) = (w2, plans)"
    by fastforce
  have "nw_starts_at p = instant_of (hd occs)" "set (nw_tag_ids p) \<subseteq> tag_id ` set (w_tags w)"
    "strip (nw_title p) \<noteq> []" "s = ?s" "w' = fold (add_planned env now) plans w2"
    using assms occs f
    by (auto simp: create_series_rows_def new_uuid_def series_of_def os Let_def split: if_splits prod.splits)
  then show thesis by (intro that [OF occs _ _ _ _ _ refl]) (use os f in simp_all)
qed

lemma series_of_simps [simp]: "rs_id (series_of p title sid now) = sid"
  by (simp add: series_of_def)

lemma create_series_rows_result:
  assumes ok: "reminders_ok w" "fresh env w" and p: "note_fields_ok p"
    and r: "create_series_rows env p now limit w = Inr (s, w')"
  shows "reminders_ok w'" "fresh env w'" "set (w_deliveries w) \<subseteq> set (w_deliveries w')"
    and "\<exists>occs ns rs. expand_payload env (min limit max_occurrences) p = Inr occs
      \<and> w_notes w' = w_notes w @ ns \<and> w_rules w' = w_rules w @ rs
      \<and> w_note_tags w' = w_note_tags w @ concat (map (tag_keys (nw_tag_ids p)) ns)
      \<and> map rule_key rs = concat (map (rule_keys (nw_offsets p)) ns)
      \<and> list_all2 (occurrence_note p (strip (nw_title p)) (rs_id s) (w_now w)) occs ns"
proof -
  obtain occs w1 w2 plans where 1: "expand_payload env (min limit max_occurrences) p = Inr occs"
    "s = series_of p (strip (nw_title p)) (uuid4 env (draws w)) (w_now w)"
    "w1 = w\<lparr>draws := Suc (draws w), w_series := w_series w @ [s],
       w_series_tags := w_series_tags w @ map (\<lambda>k. (rs_id s, k)) (nw_tag_ids p),
       w_templates := w_templates w @ map (\<lambda>m. (rs_id s, m)) (nw_offsets p)\<rparr>"
    "fold (add_occurrence env p (strip (nw_title p)) (rs_id s) now) occs (w1, []) = (w2, plans)"
    "w' = fold (add_planned env now) plans w2"
    by (rule create_series_rows_cases [OF r])
  have "grows env w w1" unfolding 1(3) by (auto simp: grows_def used_ids_def 1(2))
  then have fr: "fresh env w1" by (rule fresh_grows [OF ok(2)])
  have "reminders_ok w1" using ok(1) by (simp add: 1(3) reminders_ok_def reminder_rows_wf_def rule_state_def)
  from add_occurrence_loop [OF building_start [OF this fr] p 1(4)]
  obtain ns rs k where L: "building env now (w2, plans)" "w2 = w1\<lparr>draws := k, w_notes := w_notes w1 @ ns,
        w_note_tags := w_note_tags w1 @ concat (map (tag_keys (nw_tag_ids p)) ns), w_rules := w_rules w1 @ rs\<rparr>"
      "map rule_key rs = concat (map (rule_keys (nw_offsets p)) ns)"
      "list_all2 (occurrence_note p (strip (nw_title p)) (rs_id s) (w_now w1)) occs ns"
    by blast
  show "set (w_deliveries w) \<subseteq> set (w_deliveries w')"
    using add_planned_loop_deliveries [of w2 env now plans] by (simp add: 1(5) L(2) 1(3))
  show "reminders_ok w'" "fresh env w'"
    using building_done [OF add_planned_loop [OF L(1)]] by (simp_all add: 1(5))
  show "\<exists>occs ns rs. expand_payload env (min limit max_occurrences) p = Inr occs
      \<and> w_notes w' = w_notes w @ ns \<and> w_rules w' = w_rules w @ rs
      \<and> w_note_tags w' = w_note_tags w @ concat (map (tag_keys (nw_tag_ids p)) ns)
      \<and> map rule_key rs = concat (map (rule_keys (nw_offsets p)) ns)
      \<and> list_all2 (occurrence_note p (strip (nw_title p)) (rs_id s) (w_now w)) occs ns"
    using 1(1) L(3,4) by (intro exI [of _ occs] exI [of _ ns] exI [of _ rs])
      (simp add: 1(5) add_planned_loop_rows L(2) 1(3))
qed

lemma create_series_keeps:
  assumes p: "note_fields_ok p" and r: "create_series env p w = Inr (r, w')"
  shows "handler_keeps env w w'"
proof -
  let ?u = "(begin_tx env w)\<lparr>ticks := Suc (ticks (begin_tx env w))\<rparr>"
  obtain s v where v: "create_series_rows env p (clock env (ticks (begin_tx env w))) (max_series_occurrences env) ?u = Inr (s, v)"
    and w': "w' = updated_event env s v"
    using r by (auto simp: create_series_def utcnow_def Let_def)
  have u: "handler_keeps env w ?u" by (rule handler_keeps_trans [OF begin_tx_keeps utcnow_keeps])
  have "handler_keeps env ?u v"
    unfolding handler_keeps_def
  proof (intro impI, elim conjE)
    assume ok: "reminders_ok ?u" "fresh env ?u"
    note R = create_series_rows_result [OF ok p v]
    have "history ?u \<subseteq> history v" using R(3) by (auto simp: history_def)
    moreover have "purged_notes ?u \<subseteq> purged_notes v" using R(4) by (auto simp: purged_notes_def)
    ultimately show "reminders_ok v \<and> fresh env v \<and> history ?u \<subseteq> history v \<and> purged_notes ?u \<subseteq> purged_notes v"
      using R(1,2) by blast
  qed
  with u show ?thesis
    unfolding w' updated_event_def by (blast intro: handler_keeps_trans add_event_keeps)
qed

subsection \<open>What a created series contains\<close>

lemma enabled_offsets_keys:
  "enabled_offsets w i = map (\<lambda>(j, m, e). m) (filter (\<lambda>(j, m, e). j = i \<and> e) (map rule_key (w_rules w)))"
proof -
  have "map r_offset_minutes (filter (\<lambda>r. r_note_id r = i \<and> r_enabled r) rs) =
      map (\<lambda>(j, m, e). m) (filter (\<lambda>(j, m, e). j = i \<and> e) (map rule_key rs))" for rs
    by (induction rs) (auto simp: rule_key_def)
  then show ?thesis by (simp add: enabled_offsets_def)
qed

lemma filter_rule_keys:
  assumes "distinct (map n_id ns)" "n \<in> set ns"
  shows "filter (\<lambda>(j, m, e). j = n_id n \<and> e) (concat (map (rule_keys ms) ns)) = rule_keys ms n"
  using assms
proof (induction ns)
  case (Cons k ns)
  have none: "filter (\<lambda>(j, m, e). j = n_id n \<and> e) (rule_keys ms x) = []" if "n_id x \<noteq> n_id n" for x
    using that by (auto simp: rule_keys_def filter_empty_conv)
  have all: "filter (\<lambda>(j, m, e). j = n_id n \<and> e) (rule_keys ms n) = rule_keys ms n"
    by (auto simp: rule_keys_def)
  show ?case
  proof (cases "k = n")
    case True
    then have "n_id x \<noteq> n_id n" if "x \<in> set ns" for x using Cons.prems(1) that by (auto simp: image_iff)
    then have "filter (\<lambda>(j, m, e). j = n_id n \<and> e) (concat (map (rule_keys ms) ns)) = []"
      using none by (simp add: filter_concat)
    then show ?thesis using True all by simp
  next
    case False
    then have "n \<in> set ns" using Cons.prems(2) by simp
    moreover from this have "n_id k \<noteq> n_id n" using Cons.prems(1) by (auto simp: image_iff)
    ultimately show ?thesis using Cons none by simp
  qed
qed simp

text \<open>The foreign key of \<open>notes.series_id\<close>.\<close>

definition series_known :: "world \<Rightarrow> bool" where
  "series_known w \<longleftrightarrow> (\<forall>n \<in> set (w_notes w). \<forall>sid. n_series_id n = Some sid \<longrightarrow> sid \<in> rs_id ` set (w_series w))"

lemma bulk_note_offsets:
  assumes "reminders_ok w" "reminders_ok w'" "w_notes w' = w_notes w @ ns" "w_rules w' = w_rules w @ rs"
    and "map rule_key rs = concat (map (rule_keys ms) ns)" "n \<in> set ns"
  shows "enabled_offsets w' (n_id n) = ms"
proof -
  have d: "distinct (map n_id (w_notes w @ ns))" using rows_distinct [OF assms(2)] by (simp add: assms(3))
  have "r_note_id r \<noteq> n_id n" if "r \<in> set (w_rules w)" for r
  proof
    assume "r_note_id r = n_id n"
    then have "n_id n \<in> n_id ` set (w_notes w)"
      using assms(1) that unfolding reminders_ok_def reminder_rows_wf_def by metis
    with d assms(6) show False by auto
  qed
  then have "filter (\<lambda>(j, m, e). j = n_id n \<and> e) (map rule_key (w_rules w)) = []"
    by (auto simp: filter_empty_conv rule_key_def)
  with filter_rule_keys [of ns n ms] d assms(6) show ?thesis
    by (simp add: enabled_offsets_keys assms(4,5)) (simp add: rule_keys_def comp_def)
qed

text \<open>
  C20: creating a series writes one note for every date of the series whose wall-clock time exists
  in the zone, in order, at the instant the zone gives it and keyed by it, and no other note; each
  has the fields of the request, exactly its reminder offsets and its tags. The response counts
  them, they are no more than the limits, and the invariant of reminders holds.
\<close>

theorem create_series_complete:
  assumes "reminders_ok w" "fresh env w" "series_known w" "note_fields_ok p"
    and "valid_date (local_date (sf_local_start p))" "create_series env p w = Inr (r, w')"
  shows "\<exists>z ns. gettz env (sf_timezone p) = Some z \<and> w_notes w' = w_notes w @ ns \<and> reminders_ok w'
    \<and> map n_starts_at ns = map (\<lambda>d. zone_instant z (Local d (local_time (sf_local_start p))))
        (sorted_list_of_set (existing_dates z (sf_frequency p) (sf_local_start p) (sf_end_date p)))
    \<and> int (length ns) \<le> min (max_series_occurrences env) 10000 \<and> ss_occurrence_count r = length ns
    \<and> w_note_tags w' = w_note_tags w @ concat (map (\<lambda>n. map (\<lambda>k. (n_id n, k)) (nw_tag_ids p)) ns)
    \<and> (\<forall>n \<in> set ns. n_recurrence_key n = Some (n_starts_at n) \<and> n_series_id n = Some (ss_id r)
        \<and> n_title n = strip (nw_title p) \<and> n_body n = nw_body p \<and> n_active n = nw_active p
        \<and> enabled_offsets w' (n_id n) = nw_offsets p)"
proof -
  let ?u = "(begin_tx env w)\<lparr>ticks := Suc (ticks (begin_tx env w))\<rparr>"
  obtain s v where v: "create_series_rows env p (clock env (ticks (begin_tx env w))) (max_series_occurrences env) ?u = Inr (s, v)"
    and w': "w' = updated_event env s v" and r: "series_response_data w' s = Inr r"
    using assms(6) by (auto simp: create_series_def utcnow_def Let_def)
  have ok: "reminders_ok ?u" "fresh env ?u"
    using handler_keeps_trans [OF begin_tx_keeps utcnow_keeps, of env w] assms(1,2) by (auto simp: handler_keeps_def)
  have u: "w_notes ?u = w_notes w" "w_note_tags ?u = w_note_tags w" "w_series ?u = w_series w" "draws ?u = draws w"
    by (simp_all add: begin_tx_def)
  note R = create_series_rows_result [OF ok assms(4) v]
  obtain occs ns rs where N: "expand_payload env (min (max_series_occurrences env) max_occurrences) p = Inr occs"
      "w_notes v = w_notes w @ ns" "w_rules v = w_rules ?u @ rs"
      "w_note_tags v = w_note_tags w @ concat (map (tag_keys (nw_tag_ids p)) ns)"
      "map rule_key rs = concat (map (rule_keys (nw_offsets p)) ns)"
      "list_all2 (occurrence_note p (strip (nw_title p)) (rs_id s) (w_now ?u)) occs ns"
    using R(4) unfolding u by blast
  have s: "rs_id s = uuid4 env (draws w)"
    by (rule create_series_rows_cases [OF v]) (simp add: begin_tx_def)
  have date: "valid_date (local_date (dt_local (naive (sf_local_start p))))" by (simp add: naive_def assms(5))
  obtain z where z: "gettz env (sf_timezone p) = Some z"
    "occs = map (occurrence_at z (local_time (sf_local_start p)))
       (sorted_list_of_set (existing_dates z (sf_frequency p) (sf_local_start p) (sf_end_date p)))"
    "occs = [] \<or> int (length occs) \<le> min (max_series_occurrences env) max_occurrences"
    using expand_occurrences_dates [OF date N(1) [unfolded expand_payload_def]] by (auto simp: naive_def)
  have ne: "occs \<noteq> []" by (rule create_series_rows_cases [OF v]) (use N(1) in simp)
  have len: "length ns = length occs" using N(6) by (simp add: list_all2_lengthD)
  note f = occurrence_note_simps
  have each: "\<exists>occ. occurrence_note p (strip (nw_title p)) (rs_id s) (w_now ?u) occ n" if "n \<in> set ns" for n
    using N(6) that by (auto simp: list_all2_conv_all_nth in_set_conv_nth)
  have starts: "map n_starts_at ns = map instant_of occs"
    using N(6) by (auto simp: list_all2_conv_all_nth intro!: nth_equalityI f(3))
  have ssid: "ss_id r = rs_id s" "ss_occurrence_count r = occurrence_count w' (rs_id s)"
    using r by (auto simp: series_response_data_def)
  have "n_series_id n \<noteq> Some (rs_id s)" if "n \<in> set (w_notes w)" for n
    using assms(2,3) that s by (auto simp: series_known_def fresh_def used_ids_def)
  then have old: "filter (\<lambda>n. n_series_id n = Some (rs_id s) \<and> n_superseded_at n = None) (w_notes w) = []"
    by (auto simp: filter_empty_conv)
  have "filter (\<lambda>n. n_series_id n = Some (rs_id s) \<and> n_superseded_at n = None) ns = ns"
    using each by (fastforce simp: filter_id_conv f(5,8))
  then have count: "ss_occurrence_count r = length ns"
    using old by (simp add: ssid occurrence_count_def w' updated_event_def row_simps N(2))
  have "reminders_ok w'"
    using R(1,2) add_event_keeps by (auto simp: w' updated_event_def handler_keeps_def)
  moreover have "\<forall>n \<in> set ns. n_recurrence_key n = Some (n_starts_at n) \<and> n_series_id n = Some (ss_id r)
        \<and> n_title n = strip (nw_title p) \<and> n_body n = nw_body p \<and> n_active n = nw_active p
        \<and> enabled_offsets w' (n_id n) = nw_offsets p"
  proof
    fix n assume n: "n \<in> set ns"
    obtain occ where occ: "occurrence_note p (strip (nw_title p)) (rs_id s) (w_now ?u) occ n" using each [OF n] by blast
    have "enabled_offsets v (n_id n) = nw_offsets p"
      by (rule bulk_note_offsets [OF ok(1) R(1) _ N(3,5) n]) (simp add: N(2) u)
    then have "enabled_offsets w' (n_id n) = nw_offsets p"
      by (simp add: w' updated_event_def enabled_offsets_def row_simps)
    then show "n_recurrence_key n = Some (n_starts_at n) \<and> n_series_id n = Some (ss_id r)
        \<and> n_title n = strip (nw_title p) \<and> n_body n = nw_body p \<and> n_active n = nw_active p
        \<and> enabled_offsets w' (n_id n) = nw_offsets p"
      using f [OF occ] by (simp add: ssid)
  qed
  ultimately show ?thesis
    using z N(2,4) ne len starts count
    by (intro exI [of _ z] exI [of _ ns])
      (simp add: w' updated_event_def row_simps tag_keys_def [abs_def] occurrence_at_def max_occurrences_def)
qed

definition sample_series :: series_fields where
  "sample_series = \<lparr>nw_title = '' Walk '', nw_body = [], nw_starts_at = 0, nw_starts_offset = 0,
     nw_active = True, nw_tag_ids = [], nw_offsets = [10], sf_local_start = Local (Date 1970 1 1) 0,
     sf_timezone = ''UTC'', sf_frequency = Daily, sf_end_date = Date 1970 1 2\<rparr>"

lemma sample_expansion: "expand_payload sample_env 10000 sample_series =
    Inr [Occurrence (Local (Date 1970 1 1) 0) 0, Occurrence (Local (Date 1970 1 2) 0) 86400000000]"
  by (simp add: expand_payload_def sample_series_def sample_env_def expand_occurrences_def naive_def
      expand_loop.simps evaluate_expansion local_micros_def days_def seconds_def days_before_year_def
      days_before_month_def)

lemma sample_series_created:
  obtains r w' where "create_series sample_env sample_series sample_world = Inr (r, w')"
proof -
  have t: "strip (nw_title sample_series) = ''Walk''"
    by (simp add: sample_series_def strip_def is_space_def code_point_def)
  have v: "max_series_occurrences sample_env = 10000" "nw_tag_ids sample_series = []" "nw_starts_at sample_series = 0"
    "sf_frequency sample_series = Daily"
    by (simp_all add: sample_env_def sample_series_def)
  have f: "frequency_from_rrule (normalized_rrule Daily) = Inr Daily"
    by (simp add: frequency_from_rrule_def normalized_rrule_def upper_def lower_def lower_char_def
      split_first_def removeprefix_def startswith_def code_point_def char_of_def bit_0 Let_def)
  have "\<exists>r w'. create_series sample_env sample_series sample_world = Inr (r, w')"
    by (simp add: create_series_def create_series_rows_def validate_tags_def v t max_occurrences_def sample_expansion
        f series_response_data_def raised_def Let_def split: prod.splits)
  then show thesis using that by blast
qed

theorem create_series_complete_witness:
  "\<exists>r w' ns. create_series sample_env sample_series sample_world = Inr (r, w')
    \<and> w_notes w' = [sample_note] @ ns \<and> map n_starts_at ns = [0, 86400000000]
    \<and> list_all (\<lambda>n. n_title n = ''Walk'' \<and> enabled_offsets w' (n_id n) = [10]) ns"
proof -
  obtain r w' where c: "create_series sample_env sample_series sample_world = Inr (r, w')"
    by (rule sample_series_created)
  have p: "note_fields_ok sample_series" "valid_date (local_date (sf_local_start sample_series))"
    by (simp_all add: note_fields_ok_def sample_series_def offset_preset_def days_in_month_def)
  have k: "series_known sample_world" by (simp add: series_known_def sample_defs)
  obtain ns where ns: "w_notes w' = w_notes sample_world @ ns"
      "map n_starts_at ns = map (\<lambda>d. zone_instant utc_zone (Local d 0))
         (sorted_list_of_set (existing_dates utc_zone Daily (Local (Date 1970 1 1) 0) (Date 1970 1 2)))"
      "\<forall>n \<in> set ns. n_title n = strip '' Walk '' \<and> enabled_offsets w' (n_id n) = [10]"
    using create_series_complete [OF sample_reminders_ok sample_fresh k p c]
    by (auto simp: sample_series_def sample_env_def)
  have "[Occurrence (Local (Date 1970 1 1) 0) 0, Occurrence (Local (Date 1970 1 2) 0) 86400000000] =
      map (occurrence_at utc_zone 0)
        (sorted_list_of_set (existing_dates utc_zone Daily (Local (Date 1970 1 1) 0) (Date 1970 1 2)))"
    using expand_occurrences_dates [OF _ sample_expansion [unfolded expand_payload_def]] p(2)
    by (auto simp: sample_series_def sample_env_def naive_def)
  from arg_cong [OF this, of "map instant_of"]
  have "map n_starts_at ns = [0, 86400000000]" unfolding ns(2) by (simp add: comp_def occurrence_at_def)
  moreover have "strip '' Walk '' = ''Walk''" by (simp add: strip_def is_space_def code_point_def)
  ultimately show ?thesis
    using c ns by (intro exI [of _ r] exI [of _ w'] exI [of _ ns]) (simp add: sample_defs list_all_iff)
qed

end
