(* ===== verification/Storage.thy ===== *)
theory Storage
  imports SeriesCreation
begin

section \<open>The storage contract of the trash and the purge (migration 0004)\<close>

text \<open>
  What the triggers and deferred keys of migration 0004 ask of the tables when a transaction
  commits, and that every handler keeps it, so that no trigger ever rejects a request: a note in a
  trash action is a member of it, was deleted with it and is neither purged nor superseded; the
  members of an action are in it all or none; purged notes and series are not referenced by the
  associations a later handler would follow to change them.
\<close>

subsection \<open>The contract\<close>

definition in_action :: "world \<Rightarrow> note_row \<Rightarrow> uuid \<Rightarrow> bool" where
  "in_action w n a \<longleftrightarrow> (a, n_id n) \<in> set (w_members w) \<and> (\<exists>x \<in> set (w_actions w). ta_id x = a
     \<and> n_series_id n = Some (ta_series_id x) \<and> n_deleted_at n = Some (ta_trashed_at x) \<and> ta_sealed_at x \<noteq> None)"

definition trash_ok :: "world \<Rightarrow> bool" where
  "trash_ok w \<longleftrightarrow>
     (\<forall>n \<in> set (w_notes w). \<forall>a. n_trash_action_id n = Some a \<longrightarrow>
        n_purged_at n = None \<and> n_superseded_at n = None \<and> in_action w n a)
     \<and> (\<forall>n \<in> set (w_notes w). \<forall>m \<in> set (w_notes w). \<forall>a. n_trash_action_id n = Some a \<longrightarrow>
          (a, n_id m) \<in> set (w_members w) \<longrightarrow> n_trash_action_id m = Some a)
     \<and> (\<forall>m \<in> set (w_members w). fst m \<in> ta_id ` set (w_actions w) \<and> snd m \<in> n_id ` set (w_notes w))
     \<and> distinct (map ta_id (w_actions w))"

definition purged_ids :: "world \<Rightarrow> uuid set" where
  "purged_ids w = n_id ` {n \<in> set (w_notes w). n_purged_at n \<noteq> None}"

definition open_series :: "world \<Rightarrow> uuid set" where
  "open_series w = rs_id ` set (w_series w) - rs_id ` {s \<in> set (w_series w). rs_purged_at s \<noteq> None}"

definition purge_ok :: "world \<Rightarrow> bool" where
  "purge_ok w \<longleftrightarrow>
     purged_ids w \<inter> fst ` set (w_note_tags w) = {} \<and> fst ` set (w_note_tags w) \<subseteq> n_id ` set (w_notes w)
     \<and> fst ` set (w_series_tags w) \<subseteq> open_series w
     \<and> (\<forall>n \<in> set (w_notes w). \<forall>sid. n_series_id n = Some sid \<longrightarrow> n_purged_at n = None \<longrightarrow> sid \<in> open_series w)
     \<and> distinct (map rs_id (w_series w))"

definition storage_ok :: "world \<Rightarrow> bool" where
  "storage_ok w \<longleftrightarrow> trash_ok w \<and> purge_ok w \<and> series_known w"

lemma trash_okD:
  assumes "trash_ok w"
  shows "n \<in> set (w_notes w) \<Longrightarrow> n_trash_action_id n = Some a \<Longrightarrow>
      n_purged_at n = None \<and> n_superseded_at n = None \<and> in_action w n a"
    and "n \<in> set (w_notes w) \<Longrightarrow> m \<in> set (w_notes w) \<Longrightarrow> n_trash_action_id n = Some a \<Longrightarrow>
      (a, n_id m) \<in> set (w_members w) \<Longrightarrow> n_trash_action_id m = Some a"
    and "k \<in> set (w_members w) \<Longrightarrow> fst k \<in> ta_id ` set (w_actions w) \<and> snd k \<in> n_id ` set (w_notes w)"
    and "distinct (map ta_id (w_actions w))"
  using assms unfolding trash_ok_def by blast+

lemma purge_okD:
  assumes "purge_ok w"
  shows "purged_ids w \<inter> fst ` set (w_note_tags w) = {}" "fst ` set (w_note_tags w) \<subseteq> n_id ` set (w_notes w)"
    "fst ` set (w_series_tags w) \<subseteq> open_series w"
    "n \<in> set (w_notes w) \<Longrightarrow> n_series_id n = Some sid \<Longrightarrow> n_purged_at n = None \<Longrightarrow> sid \<in> open_series w"
    "distinct (map rs_id (w_series w))"
  using assms unfolding purge_ok_def by blast+

lemma storage_okD: "storage_ok w \<Longrightarrow> trash_ok w" "storage_ok w \<Longrightarrow> purge_ok w" "storage_ok w \<Longrightarrow> series_known w"
  by (simp_all add: storage_ok_def)

lemma storage_okI: "trash_ok w \<Longrightarrow> purge_ok w \<Longrightarrow> series_known w \<Longrightarrow> storage_ok w"
  by (simp add: storage_ok_def)

lemma trash_ok_cong:
  assumes "w_notes w' = w_notes w" "w_actions w' = w_actions w" "w_members w' = w_members w"
  shows "trash_ok w' = trash_ok w"
proof -
  have act: "in_action w' = in_action w" by (simp add: in_action_def fun_eq_iff assms)
  show ?thesis unfolding trash_ok_def act assms ..
qed

text \<open>The contract only looks at six tables.\<close>

definition same_storage :: "world \<Rightarrow> world \<Rightarrow> bool" where
  "same_storage w w' \<longleftrightarrow> w_notes w' = w_notes w \<and> w_series w' = w_series w \<and> w_actions w' = w_actions w
     \<and> w_members w' = w_members w \<and> w_note_tags w' = w_note_tags w \<and> w_series_tags w' = w_series_tags w"

lemma storage_ok_cong:
  assumes "same_storage w w'"
  shows "storage_ok w' = storage_ok w"
  using assms
  by (simp add: same_storage_def storage_ok_def trash_ok_def in_action_def purge_ok_def purged_ids_def open_series_def series_known_def)

lemma same_storage_refl [simp]: "same_storage w w"
  by (simp add: same_storage_def)

lemma same_storage_trans: "same_storage u v \<Longrightarrow> same_storage v w \<Longrightarrow> same_storage u w"
  by (simp add: same_storage_def)

lemma same_storage_steps [simp]:
  "same_storage w (begin_tx env w)" "same_storage w (add_event env t e v s w)"
  "same_storage w (reconcile_reminders env n offsets sc now w)" "same_storage w (w\<lparr>ticks := k\<rparr>)"
  "same_storage w (w\<lparr>w_exceptions := xs\<rparr>)" "same_storage w (w\<lparr>draws := k, w_exceptions := xs\<rparr>)"
  by (simp_all add: same_storage_def row_simps begin_tx_def)

subsection \<open>Single changes\<close>

text \<open>A note outside every trash action changes, or a note is added.\<close>

lemma trash_ok_update:
  assumes T: "trash_ok w" and n: "n \<in> set (w_notes w)" "n_trash_action_id n = None"
    and f: "\<And>m. n_id (f m) = n_id m" "\<And>m. n_trash_action_id (f m) = n_trash_action_id m"
    and dist: "distinct (map n_id (w_notes w))"
  shows "trash_ok (w\<lparr>w_notes := update_where (\<lambda>m. n_id m = n_id n) f (w_notes w)\<rparr>)" (is "trash_ok ?w")
proof -
  have row: "x = n" if "x \<in> set (w_notes w)" "n_id x = n_id n" for x
    by (rule distinct_map_eqD [OF dist that(1) n(1) that(2)])
  have old: "\<exists>y \<in> set (w_notes w). n_id x = n_id y \<and> n_trash_action_id x = n_trash_action_id y
      \<and> (n_trash_action_id x \<noteq> None \<longrightarrow> x = y)"
    if x: "x \<in> set (w_notes ?w)" for x
  proof -
    obtain x0 where x0: "x0 \<in> set (w_notes w)" "x = (if n_id x0 = n_id n then f x0 else x0)"
      using x by (auto simp: set_update_where)
    then show ?thesis using row [of x0] f [of x0] n(2) by (intro bexI [of _ x0]) auto
  qed
  have act: "in_action ?w x a = in_action w x a" for x a by (simp add: in_action_def)
  have ids: "n_id ` set (w_notes ?w) = n_id ` set (w_notes w)" by (simp add: f(1))
  show ?thesis
    unfolding trash_ok_def act
  proof (intro conjI ballI allI impI)
    fix x a assume x: "x \<in> set (w_notes ?w)" "n_trash_action_id x = Some a"
    then have xw: "x \<in> set (w_notes w)" using old by fastforce
    show "n_purged_at x = None" "n_superseded_at x = None" "in_action w x a"
      using trash_okD(1) [OF T xw x(2)] by blast+
    fix y assume y: "y \<in> set (w_notes ?w)" "(a, n_id y) \<in> set (w_members ?w)"
    then obtain y0 where y0: "y0 \<in> set (w_notes w)" "n_id y = n_id y0" "n_trash_action_id y = n_trash_action_id y0"
      using old by blast
    then show "n_trash_action_id y = Some a" using trash_okD(2) [OF T xw y0(1) x(2)] y(2) by simp
  next
    fix m assume "m \<in> set (w_members ?w)"
    then show "fst m \<in> ta_id ` set (w_actions ?w)" "snd m \<in> n_id ` set (w_notes ?w)"
      using trash_okD(3) [OF T, of m] unfolding ids by simp_all
  next
    show "distinct (map ta_id (w_actions ?w))" using trash_okD(4) [OF T] by simp
  qed
qed

lemma image_where_update:
  assumes "\<And>r. g (f r) = g r" "\<And>r. q (f r) = q r"
  shows "g ` {r \<in> set (update_where p f rows). q r} = g ` {r \<in> set rows. q r}"
proof -
  have "map g (filter q (update_where p f rows)) = map g (filter q rows)"
    using assms by (induction rows) (auto simp: update_where_def)
  then show ?thesis by (metis list.set_map set_filter)
qed

lemma purge_ok_update:
  assumes P: "purge_ok w" and f: "\<And>m. n_id (f m) = n_id m" "\<And>m. n_purged_at (f m) = n_purged_at m"
    and s: "\<And>sid. n_series_id (f n) = Some sid \<Longrightarrow> n_series_id n = Some sid \<or> sid \<in> open_series w"
    and n: "n \<in> set (w_notes w)" "distinct (map n_id (w_notes w))"
  shows "purge_ok (w\<lparr>w_notes := update_where (\<lambda>m. n_id m = n_id n) f (w_notes w)\<rparr>)" (is "purge_ok ?w")
proof -
  have row: "x = n" if "x \<in> set (w_notes w)" "n_id x = n_id n" for x
    by (rule distinct_map_eqD [OF n(2) that(1) n(1) that(2)])
  have "purged_ids ?w = purged_ids w" unfolding purged_ids_def by (simp add: image_where_update f)
  moreover have "open_series ?w = open_series w" by (simp add: open_series_def)
  moreover have "sid \<in> open_series w"
    if x: "x \<in> set (w_notes ?w)" "n_series_id x = Some sid" "n_purged_at x = None" for x sid
  proof -
    obtain x0 where x0: "x0 \<in> set (w_notes w)" "x = (if n_id x0 = n_id n then f x0 else x0)"
      using x(1) by (auto simp: set_update_where)
    have "n_purged_at x0 = None" using x(3) x0(2) f(2) by (auto split: if_splits)
    moreover have "n_series_id x0 = Some sid \<or> sid \<in> open_series w"
      using x(2) x0 s [of sid] row [OF x0(1)] by (auto split: if_splits)
    ultimately show ?thesis using P x0(1) by (auto simp: purge_ok_def)
  qed
  ultimately show ?thesis using P by (simp add: purge_ok_def f(1))
qed

lemma series_known_update:
  assumes "series_known w" "\<And>m. m \<in> set (w_notes w) \<Longrightarrow> n_id m = i \<Longrightarrow>
     n_series_id (f m) = n_series_id m \<or> (\<exists>sid. n_series_id (f m) = Some sid \<and> sid \<in> rs_id ` set (w_series w))"
  shows "series_known (w\<lparr>w_notes := update_where (\<lambda>m. n_id m = i) f (w_notes w)\<rparr>)"
  using assms unfolding series_known_def by (fastforce simp: set_update_where split: if_splits option.splits)

lemma storage_ok_update:
  assumes S: "storage_ok w" and n: "n \<in> set (w_notes w)" "n_trash_action_id n = None" "distinct (map n_id (w_notes w))"
    and f: "\<And>m. n_id (f m) = n_id m" "\<And>m. n_trash_action_id (f m) = n_trash_action_id m"
      "\<And>m. n_purged_at (f m) = n_purged_at m"
      "n_series_id (f n) = n_series_id n \<or> (\<exists>sid. n_series_id (f n) = Some sid \<and> sid \<in> open_series w)"
  shows "storage_ok (save_note (n_id n) f w)"
proof -
  let ?g = "\<lambda>m. (f m)\<lparr>n_version := n_version m + 1\<rparr>"
  have row: "x = n" if "x \<in> set (w_notes w)" "n_id x = n_id n" for x
    by (rule distinct_map_eqD [OF n(3) that(1) n(1) that(2)])
  have "trash_ok (w\<lparr>w_notes := update_where (\<lambda>m. n_id m = n_id n) ?g (w_notes w)\<rparr>)"
    by (rule trash_ok_update [OF _ n(1,2) _ _ n(3)]) (use S f in \<open>simp_all add: storage_ok_def\<close>)
  moreover have "purge_ok (w\<lparr>w_notes := update_where (\<lambda>m. n_id m = n_id n) ?g (w_notes w)\<rparr>)"
    by (rule purge_ok_update [OF _ _ _ _ n(1,3)]) (use S f in \<open>auto simp: storage_ok_def\<close>)
  moreover have "series_known (w\<lparr>w_notes := update_where (\<lambda>m. n_id m = n_id n) ?g (w_notes w)\<rparr>)"
  proof (rule series_known_update)
    fix m assume "m \<in> set (w_notes w)" "n_id m = n_id n"
    then have "m = n" by (rule row)
    then show "n_series_id (?g m) = n_series_id m \<or> (\<exists>sid. n_series_id (?g m) = Some sid \<and> sid \<in> rs_id ` set (w_series w))"
      using f(4) by (auto simp: open_series_def)
  qed (use S in \<open>simp add: storage_ok_def\<close>)
  ultimately show ?thesis by (simp add: storage_ok_def save_note_def)
qed

lemma storage_ok_add:
  assumes S: "storage_ok w" and n: "n_id n \<notin> n_id ` set (w_notes w)" "n_trash_action_id n = None" "n_purged_at n = None"
    and s: "n_series_id n = None \<or> (\<exists>sid. n_series_id n = Some sid \<and> sid \<in> open_series w)"
  shows "storage_ok (w\<lparr>w_notes := w_notes w @ [n]\<rparr>)"
proof -
  let ?w = "w\<lparr>w_notes := w_notes w @ [n]\<rparr>"
  note T = storage_okD(1) [OF S] and P = storage_okD(2) [OF S]
  have act: "in_action ?w = in_action w" by (simp add: in_action_def fun_eq_iff)
  have "trash_ok ?w"
    unfolding trash_ok_def act
  proof (intro conjI ballI allI impI)
    fix x a assume x: "x \<in> set (w_notes ?w)" "n_trash_action_id x = Some a"
    then have xw: "x \<in> set (w_notes w)" using n(2) by auto
    show "n_purged_at x = None" "n_superseded_at x = None" "in_action w x a"
      using trash_okD(1) [OF T xw x(2)] by blast+
    fix y assume y: "y \<in> set (w_notes ?w)" "(a, n_id y) \<in> set (w_members ?w)"
    then have "n_id y \<in> n_id ` set (w_notes w)" using trash_okD(3) [OF T, of "(a, n_id y)"] by simp
    then have "y \<in> set (w_notes w)" using y(1) n(1) by auto
    then show "n_trash_action_id y = Some a" using trash_okD(2) [OF T xw _ x(2)] y(2) by simp
  next
    fix m assume "m \<in> set (w_members ?w)"
    then show "fst m \<in> ta_id ` set (w_actions ?w)" "snd m \<in> n_id ` set (w_notes ?w)"
      using trash_okD(3) [OF T, of m] by auto
  next
    show "distinct (map ta_id (w_actions ?w))" using trash_okD(4) [OF T] by simp
  qed
  moreover have op: "open_series ?w = open_series w" "purged_ids ?w = purged_ids w"
    using n(3) by (auto simp: open_series_def purged_ids_def)
  have "purge_ok ?w"
    unfolding purge_ok_def op
  proof (intro conjI ballI allI impI)
    fix x sid assume "x \<in> set (w_notes ?w)" "n_series_id x = Some sid" "n_purged_at x = None"
    then show "sid \<in> open_series w" using s purge_okD(4) [OF P, of x sid] by auto
  next
    show "purged_ids w \<inter> fst ` set (w_note_tags ?w) = {}" using purge_okD(1) [OF P] by simp
    show "fst ` set (w_note_tags ?w) \<subseteq> n_id ` set (w_notes ?w)" using purge_okD(2) [OF P] by auto
    show "fst ` set (w_series_tags ?w) \<subseteq> open_series w" using purge_okD(3) [OF P] by simp
    show "distinct (map rs_id (w_series ?w))" using purge_okD(5) [OF P] by simp
  qed
  moreover have "series_known ?w"
    using storage_okD(3) [OF S] s by (auto simp: series_known_def open_series_def)
  ultimately show ?thesis by (rule storage_okI)
qed

text \<open>The associations of a note that is not purged change.\<close>

lemma storage_ok_tags:
  assumes S: "storage_ok w" and t: "fst ` set tags \<subseteq> fst ` set (w_note_tags w) \<union> (n_id ` set (w_notes w) - purged_ids w)"
  shows "storage_ok (w\<lparr>w_note_tags := tags\<rparr>)" (is "storage_ok ?w")
proof (rule storage_okI)
  note P = storage_okD(2) [OF S]
  show "trash_ok ?w" using storage_okD(1) [OF S] trash_ok_cong [of ?w w] by simp
  show "series_known ?w" using storage_okD(3) [OF S] by (simp add: series_known_def)
  have "purged_ids w \<inter> fst ` set tags = {}" "fst ` set tags \<subseteq> n_id ` set (w_notes w)"
    using t purge_okD(1,2) [OF P] by blast+
  moreover have "open_series ?w = open_series w" "purged_ids ?w = purged_ids w"
    by (simp_all add: open_series_def purged_ids_def)
  ultimately show "purge_ok ?w" using P by (simp add: purge_ok_def)
qed

lemma storage_ok_save_series:
  assumes S: "storage_ok w" and f: "\<And>s. rs_id (f s) = rs_id s" "\<And>s. rs_purged_at (f s) = rs_purged_at s"
  shows "storage_ok (save_series i f w)" (is "storage_ok ?w")
proof (rule storage_okI)
  have op: "open_series ?w = open_series w"
    unfolding open_series_def save_series_def by (simp add: image_where_update f)
  have ids: "rs_id ` set (w_series ?w) = rs_id ` set (w_series w)" "map rs_id (w_series ?w) = map rs_id (w_series w)"
    by (simp_all add: save_series_def f)
  have tabs: "w_notes ?w = w_notes w" "w_actions ?w = w_actions w" "w_members ?w = w_members w"
    "w_note_tags ?w = w_note_tags w" "w_series_tags ?w = w_series_tags w"
    by (simp_all add: save_series_def)
  have act: "in_action ?w = in_action w" by (simp add: in_action_def fun_eq_iff tabs)
  have pur: "purged_ids ?w = purged_ids w" by (simp add: purged_ids_def tabs)
  show "trash_ok ?w" using storage_okD(1) [OF S] unfolding trash_ok_def act tabs .
  show "series_known ?w" using storage_okD(3) [OF S] unfolding series_known_def ids tabs .
  show "purge_ok ?w" using storage_okD(2) [OF S] unfolding purge_ok_def op ids tabs pur .
qed

lemma storage_ok_add_series:
  assumes S: "storage_ok w" and s: "rs_id s \<notin> rs_id ` set (w_series w)" "rs_purged_at s = None"
    and t: "fst ` set tags \<subseteq> insert (rs_id s) (fst ` set (w_series_tags w))"
  shows "storage_ok (w\<lparr>w_series := w_series w @ [s], w_series_tags := tags\<rparr>)" (is "storage_ok ?w")
proof (rule storage_okI)
  note P = storage_okD(2) [OF S]
  have op: "open_series ?w = insert (rs_id s) (open_series w)"
    using s by (auto simp: open_series_def)
  have act: "in_action ?w = in_action w" by (simp add: in_action_def fun_eq_iff)
  have pur: "purged_ids ?w = purged_ids w" by (simp add: purged_ids_def)
  show "trash_ok ?w" using storage_okD(1) [OF S] trash_ok_cong [of ?w w] by simp
  show "series_known ?w" using storage_okD(3) [OF S] unfolding series_known_def by auto
  show "purge_ok ?w"
    unfolding purge_ok_def op pur
  proof (intro conjI ballI allI impI)
    show "fst ` set (w_series_tags ?w) \<subseteq> insert (rs_id s) (open_series w)"
      using t purge_okD(3) [OF P] by auto
    show "distinct (map rs_id (w_series ?w))" using s(1) purge_okD(5) [OF P] by simp
    show "purged_ids w \<inter> fst ` set (w_note_tags ?w) = {}" using purge_okD(1) [OF P] by simp
    show "fst ` set (w_note_tags ?w) \<subseteq> n_id ` set (w_notes ?w)" using purge_okD(2) [OF P] by simp
  next
    fix n sid assume "n \<in> set (w_notes ?w)" "n_series_id n = Some sid" "n_purged_at n = None"
    then show "sid \<in> insert (rs_id s) (open_series w)" using purge_okD(4) [OF P, of n sid] by simp
  qed
qed

end
