(* ===== verification/StorageSafety.thy ===== *)
theory StorageSafety
  imports Storage
begin

section \<open>Every handler keeps the storage contract\<close>

text \<open>
  Handler by handler, from the cases of \<open>HandlerSafety\<close>: none of them breaks \<open>storage_ok\<close>, so no
  trigger of migration 0004 ever turns a request that passed the checks of the code into a
  database error.
\<close>

subsection \<open>One note\<close>

lemma purged_ids_save_note:
  "(\<And>m. n_id (f m) = n_id m) \<Longrightarrow> (\<And>m. n_purged_at (f m) = n_purged_at m) \<Longrightarrow>
     purged_ids (save_note i f w) = purged_ids w"
  unfolding purged_ids_def save_note_def by (simp add: image_where_update)

lemma not_purged:
  assumes "distinct (map n_id (w_notes w))" "n \<in> set (w_notes w)" "n_purged_at n = None"
  shows "n_id n \<in> n_id ` set (w_notes w) - purged_ids w"
proof -
  have "n_purged_at m = None" if "m \<in> set (w_notes w)" "n_id m = n_id n" for m
    using distinct_map_eqD [OF assms(1) that(1) assms(2) that(2)] assms(3) by simp
  then have "n_id n \<notin> purged_ids w" by (force simp: purged_ids_def)
  with assms(2) show ?thesis by simp
qed

lemma retag_ids: "fst ` set (retag i ks rows) \<subseteq> insert i (fst ` set rows)"
  by (auto simp: retag_def)

lemma no_action: "storage_ok w \<Longrightarrow> n \<in> set (w_notes w) \<Longrightarrow> n_deleted_at n = None \<Longrightarrow> n_trash_action_id n = None"
  using trash_okD(1) [OF storage_okD(1)] by (cases "n_trash_action_id n") (fastforce simp: in_action_def)+

lemma change_storage:
  assumes S: "storage_ok w" and n: "n \<in> set (w_notes w)" "n_trash_action_id n = None" "n_purged_at n = None"
      "distinct (map n_id (w_notes w))"
    and f: "\<And>m. n_id (f m) = n_id m" "\<And>m. n_trash_action_id (f m) = n_trash_action_id m"
      "\<And>m. n_purged_at (f m) = n_purged_at m"
      "n_series_id (f n) = n_series_id n \<or> (\<exists>sid. n_series_id (f n) = Some sid \<and> sid \<in> open_series w)"
    and t: "fst ` set tags \<subseteq> insert (n_id n) (fst ` set (w_note_tags w))"
  shows "storage_ok ((save_note (n_id n) f w)\<lparr>w_note_tags := tags\<rparr>)"
proof (rule storage_ok_tags [OF storage_ok_update [OF S n(1,2,4) f]])
  have "w_note_tags (save_note (n_id n) f w) = w_note_tags w" by (simp add: save_note_def)
  moreover have "n_id ` set (w_notes (save_note (n_id n) f w)) = n_id ` set (w_notes w)"
    by (simp add: save_note_def f(1))
  moreover have "purged_ids (save_note (n_id n) f w) = purged_ids w" by (rule purged_ids_save_note) (simp_all add: f)
  moreover have "fst ` set tags \<subseteq> fst ` set (w_note_tags w) \<union> (n_id ` set (w_notes w) - purged_ids w)"
    by (rule subset_trans [OF t]) (use not_purged [OF n(4,1,3)] in simp)
  ultimately show "fst ` set tags \<subseteq> fst ` set (w_note_tags (save_note (n_id n) f w))
      \<union> (n_id ` set (w_notes (save_note (n_id n) f w)) - purged_ids (save_note (n_id n) f w))"
    by simp
qed

lemma storage_step: "same_storage w w' \<Longrightarrow> storage_ok w \<Longrightarrow> storage_ok w'"
  by (simp add: storage_ok_cong)

lemma set_exception_storage: "set_exception env n off c w = Inr w' \<Longrightarrow> same_storage w w'"
  using set_exception_rows [of env n off c w w'] by auto

lemma lock_series_storage:
  assumes "lock_series env n v w = Inr (s, w')" "storage_ok w"
  shows "storage_ok w'"
  using assms(1)
proof (cases rule: lock_series_cases)
  case (2 sid)
  show ?thesis
    unfolding 2 by (rule storage_ok_save_series) (use storage_step [of w "w\<lparr>ticks := Suc (ticks w)\<rparr>"] assms(2) in simp_all)
qed (use assms(2) in simp)

lemma locked_note_storage:
  assumes "locked_note_and_series env i v w = Inr (n, w')" "storage_ok w"
  shows "storage_ok w'"
  using assms lock_series_storage by (fastforce simp: locked_note_and_series_def)

lemma begin_tx_storage: "storage_ok w \<Longrightarrow> storage_ok (begin_tx env w)"
  by (rule storage_step [of w]) simp

lemma note_event_storage: "storage_ok w \<Longrightarrow> storage_ok (note_event env t n w)"
  unfolding note_event_def by (rule storage_step [of w]) simp

lemma create_note_storage:
  assumes r: "create_note env p w = Inr (r, w')" and S: "storage_ok w" and fr: "fresh env w"
  shows "storage_ok w'"
proof -
  let ?u = "(begin_tx env w)\<lparr>ticks := Suc (ticks (begin_tx env w))\<rparr>"
  let ?v = "?u\<lparr>draws := Suc (draws ?u)\<rparr>"
  obtain n now tags where w': "w' = note_event env ''note.created'' n (reconcile_reminders env n (nw_offsets p) False now
      (?v\<lparr>w_notes := w_notes ?v @ [n], w_note_tags := tags\<rparr>))"
    and n: "n_id n = uuid4 env (draws w)" "n_trash_action_id n = None" "n_purged_at n = None" "n_series_id n = None"
    and t: "tags = retag (n_id n) (nw_tag_ids p) (w_note_tags w)"
    using r by (auto simp: create_note_def utcnow_def new_uuid_def replace_tags_Inr new_note_def begin_tx_def Let_def
        split: if_splits)
  have V: "storage_ok ?v" by (rule storage_step [of w]) (use S in \<open>simp_all add: same_storage_def begin_tx_def\<close>)
  have "n_id n \<notin> n_id ` set (w_notes ?v)" using fresh_note_id [OF fr] by (simp add: n(1) begin_tx_def)
  from storage_ok_add [OF V this n(2,3)] n(4)
  have A: "storage_ok (?v\<lparr>w_notes := w_notes ?v @ [n]\<rparr>)" by simp
  have "n_id n \<notin> purged_ids ?v" using \<open>n_id n \<notin> n_id ` set (w_notes ?v)\<close> by (auto simp: purged_ids_def)
  then have "n_id n \<notin> purged_ids (?v\<lparr>w_notes := w_notes ?v @ [n]\<rparr>)" using n(3) by (auto simp: purged_ids_def)
  then have "fst ` set tags \<subseteq> fst ` set (w_note_tags w)
      \<union> (n_id ` set (w_notes ?v @ [n]) - purged_ids (?v\<lparr>w_notes := w_notes ?v @ [n]\<rparr>))"
    using retag_ids [of "n_id n" "nw_tag_ids p" "w_note_tags w"] unfolding t by auto
  from storage_ok_tags [OF A, of tags] this
  have "storage_ok (?v\<lparr>w_notes := w_notes ?v @ [n], w_note_tags := tags\<rparr>)" by (simp add: begin_tx_def)
  then show ?thesis unfolding w' by (intro note_event_storage) (rule storage_step, simp_all)
qed

lemma update_note_storage:
  assumes r: "update_note env i p w = Inr (r, w')" and S: "storage_ok w" and ok: "reminders_ok w"
  shows "storage_ok w'"
  using r
proof (cases rule: update_note_cases)
  case (1 n u t now v n')
  note L = locked_note_cases [OF 1(1)]
  note n = require_noteD [OF L(2)]
  have U: "storage_ok u" by (rule locked_note_storage [OF 1(1) begin_tx_storage [OF S]])
  have d: "distinct (map n_id (w_notes u))" using rows_distinct [OF ok] by (simp add: L(3) begin_tx_def)
  let ?f = "\<lambda>n. n\<lparr>n_title := strip (nw_title p), n_body := nw_body p,
           n_starts_at := nw_starts_at p, n_active := nw_active p, n_updated_at := t\<rparr>"
  have "storage_ok ((save_note (n_id n) ?f u)\<lparr>w_note_tags := retag i (nw_tag_ids p) (w_note_tags u)\<rparr>)"
    by (rule change_storage [OF U n(1) no_action [OF U n(1) 1(3)] n(3) d])
      (use retag_ids n(2) in auto)
  then have "storage_ok (reconcile_reminders env n' (nw_offsets p) (n_starts_at n \<noteq> nw_starts_at p) now
       ((save_note (n_id n) ?f u)\<lparr>w_note_tags := retag i (nw_tag_ids p) (w_note_tags u), ticks := Suc (Suc (ticks u))\<rparr>))"
    by (rule storage_step [rotated]) (simp add: same_storage_def)
  then have "storage_ok v" by (rule storage_step [OF set_exception_storage [OF 1(7)]])
  then show ?thesis unfolding 1(8) by (rule note_event_storage)
qed

lemma change_storage_ticks:
  assumes S: "storage_ok w" and n: "n \<in> set (w_notes w)" "n_trash_action_id n = None" "n_purged_at n = None"
      "distinct (map n_id (w_notes w))"
    and f: "\<And>m. n_id (f m) = n_id m" "\<And>m. n_trash_action_id (f m) = n_trash_action_id m"
      "\<And>m. n_purged_at (f m) = n_purged_at m" "n_series_id (f n) = n_series_id n"
  shows "storage_ok (reconcile_reminders env n' offsets sc now ((save_note (n_id n) f w)\<lparr>ticks := k\<rparr>))"
proof -
  have "storage_ok (save_note (n_id n) f w)"
    by (rule storage_ok_update [OF S n(1,2,4)]) (simp_all add: f)
  then show ?thesis by (rule storage_step [rotated]) (simp add: same_storage_def)
qed

lemma delete_note_storage:
  assumes r: "delete_note env i e v w = Inr (r, w')" and S: "storage_ok w" and ok: "reminders_ok w"
  shows "storage_ok w'"
proof -
  obtain n u where u: "locked_note_and_series env i v (begin_tx env w) = Inr (n, u)"
    using r by (auto simp: delete_note_def)
  note L = locked_note_cases [OF u]
  note n = require_noteD [OF L(2)]
  have U: "storage_ok u" by (rule locked_note_storage [OF u begin_tx_storage [OF S]])
  have d: "distinct (map n_id (w_notes u))" using rows_distinct [OF ok] by (simp add: L(3) begin_tx_def)
  show ?thesis
  proof (cases "n_deleted_at n")
    case None
    let ?f = "\<lambda>n. n\<lparr>n_deleted_at := Some (clock env (ticks u)), n_updated_at := clock env (Suc (ticks u))\<rparr>"
    let ?n = "(?f n)\<lparr>n_version := n_version n + 1\<rparr>"
    obtain offsets now k x where x: "set_exception env ?n 0 (Some True)
        (reconcile_reminders env ?n offsets False now ((save_note (n_id n) ?f u)\<lparr>ticks := k\<rparr>)) = Inr x"
      and w': "w' = note_event env ''note.deleted'' ?n x"
      using r u None by (auto simp: delete_note_def save_def utcnow_def Let_def split: if_splits)
    have "storage_ok x"
      by (rule storage_step [OF set_exception_storage [OF x] change_storage_ticks
            [OF U n(1) no_action [OF U n(1) None] n(3) d]]) simp_all
    then show ?thesis unfolding w' by (rule note_event_storage)
  next
    case (Some t)
    then show ?thesis using r u U by (auto simp: delete_note_def)
  qed
qed

subsection \<open>Loops\<close>

lemma save_note_ids: "(\<And>m. n_id (f m) = n_id m) \<Longrightarrow> map n_id (w_notes (save_note i f w)) = map n_id (w_notes w)"
  by (simp add: save_note_def)

lemma row_loop_storage:
  assumes step: "\<And>n w. storage_ok w \<Longrightarrow> distinct (map n_id (w_notes w)) \<Longrightarrow> n \<in> set (w_notes w) \<Longrightarrow>
        n_trash_action_id n = None \<Longrightarrow> storage_ok (g n w) \<and> map n_id (w_notes (g n w)) = map n_id (w_notes w)"
    and others: "\<And>n m w. m \<in> set (w_notes w) \<Longrightarrow> n_id m \<noteq> n_id n \<Longrightarrow> m \<in> set (w_notes (g n w))"
    and "storage_ok w" "distinct (map n_id (w_notes w))"
    and "set ns \<subseteq> {n \<in> set (w_notes w). n_trash_action_id n = None}" "distinct (map n_id ns)"
  shows "storage_ok (fold g ns w)"
  using assms(3-)
proof (induction ns arbitrary: w)
  case (Cons n ns)
  have n: "n \<in> set (w_notes w)" "n_trash_action_id n = None" using Cons.prems(3) by auto
  have S: "storage_ok (g n w)" "map n_id (w_notes (g n w)) = map n_id (w_notes w)"
    using step [OF Cons.prems(1,2) n] by blast+
  have "m \<in> set (w_notes (g n w))" "n_trash_action_id m = None" if "m \<in> set ns" for m
  proof -
    have "m \<in> set (w_notes w)" "n_id m \<noteq> n_id n" using Cons.prems that by (auto simp: image_iff)
    then show "m \<in> set (w_notes (g n w))" by (rule others)
    show "n_trash_action_id m = None" using Cons.prems(3) that by auto
  qed
  then have "storage_ok (fold g ns (g n w))"
    using Cons.prems(2,4) S by (intro Cons.IH) auto
  then show ?case by simp
qed simp

lemma change_and_reconcile_storage:
  assumes S: "storage_ok w" and n: "n \<in> set (w_notes w)" "n_trash_action_id n = None" "distinct (map n_id (w_notes w))"
    and f: "\<And>m. n_id (f m) = n_id m" "\<And>m. n_trash_action_id (f m) = n_trash_action_id m"
      "\<And>m. n_purged_at (f m) = n_purged_at m" "\<And>m. n_series_id (f m) = n_series_id m"
  shows "storage_ok (change_and_reconcile env now f n w)
    \<and> map n_id (w_notes (change_and_reconcile env now f n w)) = map n_id (w_notes w)"
proof -
  have "storage_ok (save_note (n_id n) f w)" by (rule storage_ok_update [OF S n]) (simp_all add: f)
  then have "storage_ok (change_and_reconcile env now f n w)"
    unfolding change_and_reconcile_def save_def by simp (erule storage_step [rotated], simp)
  then show ?thesis by (simp add: change_and_reconcile_notes save_note_ids f)
qed

lemma restore_legacy_storage:
  assumes "storage_ok w" "n \<in> set (w_notes w)" "n_trash_action_id n = None" "distinct (map n_id (w_notes w))"
  shows "storage_ok (restore_legacy_note env s now n w)
    \<and> map n_id (w_notes (restore_legacy_note env s now n w)) = map n_id (w_notes w)"
proof -
  have "storage_ok (save_note (n_id n) (\<lambda>n. n\<lparr>n_series_trashed_at := None\<rparr>) w)"
    by (rule storage_ok_update [OF assms]) simp_all
  moreover have "map n_id (w_notes (save_note (n_id n) (\<lambda>n. n\<lparr>n_series_trashed_at := None\<rparr>) w)) = map n_id (w_notes w)"
    by (rule save_note_ids) simp
  moreover have "storage_ok (change_and_reconcile env now
      (\<lambda>n. n\<lparr>n_series_trashed_at := None, n_deleted_at := None, n_updated_at := now\<rparr>) n w)
    \<and> map n_id (w_notes (change_and_reconcile env now
      (\<lambda>n. n\<lparr>n_series_trashed_at := None, n_deleted_at := None, n_updated_at := now\<rparr>) n w)) = map n_id (w_notes w)"
    by (rule change_and_reconcile_storage [OF assms]) simp_all
  ultimately show ?thesis by (simp add: restore_legacy_note_def save_def split: option.splits)
qed

text \<open>The notes after a loop of changes, as one pass over the table.\<close>

lemma change_loop_notes:
  assumes "distinct (map n_id ns)" "\<And>m. n_id (f m) = n_id m"
  shows "w_notes (fold (change_and_reconcile env now f) ns w) =
    update_where (\<lambda>m. n_id m \<in> n_id ` set ns) (\<lambda>m. (f m)\<lparr>n_version := n_version m + 1\<rparr>) (w_notes w)"
  using assms(1)
proof (induction ns arbitrary: w)
  case (Cons n ns)
  then have "n_id n \<notin> n_id ` set ns" by simp
  then have "update_where (\<lambda>m. n_id m \<in> n_id ` set ns) (\<lambda>m. (f m)\<lparr>n_version := n_version m + 1\<rparr>)
      (update_where (\<lambda>m. n_id m = n_id n) (\<lambda>m. (f m)\<lparr>n_version := n_version m + 1\<rparr>) rows) =
    update_where (\<lambda>m. n_id m \<in> n_id ` set (n # ns)) (\<lambda>m. (f m)\<lparr>n_version := n_version m + 1\<rparr>) rows" for rows
    unfolding update_where_def using assms(2) by (induction rows) auto
  with Cons show ?case by (simp add: change_and_reconcile_notes save_note_def)
qed (simp add: update_where_def)

lemma change_loop_tables:
  "w_series (fold (change_and_reconcile env now f) ns w) = w_series w"
  "w_actions (fold (change_and_reconcile env now f) ns w) = w_actions w"
  "w_members (fold (change_and_reconcile env now f) ns w) = w_members w"
  "w_note_tags (fold (change_and_reconcile env now f) ns w) = w_note_tags w"
  "w_series_tags (fold (change_and_reconcile env now f) ns w) = w_series_tags w"
  "w_exceptions (fold (change_and_reconcile env now f) ns w) = w_exceptions w"
  "ticks (fold (change_and_reconcile env now f) ns w) = ticks w"
  by (rule fold_constant, simp add: change_and_reconcile_def save_def save_note_def)+

end
