(* ===== verification/TrashActions.thy ===== *)
theory TrashActions
  imports StorageSafety
begin

section \<open>Trash actions\<close>

text \<open>
  A trash of a series portion puts its notes in a new action, and a restore takes all of them out
  again. Both keep the storage contract; as every member of an action is in it or none is, a
  restore is never refused for incomplete membership; and a restore brings the notes back as they
  were.
\<close>

subsection \<open>The contract across an action\<close>

lemma trash_ok_enter:
  assumes T: "trash_ok w" and dist: "distinct (map n_id (w_notes w))"
    and ns: "set ns \<subseteq> {n \<in> set (w_notes w). n_trash_action_id n = None \<and> n_purged_at n = None
        \<and> n_superseded_at n = None \<and> n_series_id n = Some sid}"
    and g: "\<And>m. n_id (g m) = n_id m" "\<And>m. n_purged_at (g m) = n_purged_at m"
      "\<And>m. n_superseded_at (g m) = n_superseded_at m" "\<And>m. n_series_id (g m) = n_series_id m"
      "\<And>m. n_deleted_at (g m) = Some now" "\<And>m. n_trash_action_id (g m) = Some a"
    and act: "a \<notin> ta_id ` set (w_actions w)" "ta_id act = a" "ta_series_id act = sid" "ta_trashed_at act = now"
      "ta_sealed_at act \<noteq> None"
    and w': "w_notes w' = update_where (\<lambda>m. n_id m \<in> n_id ` set ns) g (w_notes w)"
      "w_actions w' = w_actions w @ [act]" "w_members w' = w_members w @ map (\<lambda>n. (a, n_id n)) ns"
  shows "trash_ok w'"
proof -
  have row: "y \<in> set ns" if y: "y \<in> set (w_notes w)" "n_id y \<in> n_id ` set ns" for y
  proof -
    obtain n where n: "n \<in> set ns" "n_id y = n_id n" using y(2) by auto
    then have "n \<in> set (w_notes w)" using ns by auto
    then have "y = n" using distinct_map_eqD [OF dist y(1)] n(2) by blast
    with n(1) show ?thesis by simp
  qed
  have old_member: "fst k \<noteq> a" if "k \<in> set (w_members w)" for k
    using trash_okD(3) [OF T that] act(1) by auto
  have cases: "x \<in> set (w_notes w) \<and> n_id x \<notin> n_id ` set ns
      \<or> (\<exists>y \<in> set ns. x = g y \<and> n_id x \<in> n_id ` set ns)" if x: "x \<in> set (w_notes w')" for x
  proof -
    obtain y where y: "y \<in> set (w_notes w)" "x = (if n_id y \<in> n_id ` set ns then g y else y)"
      using x unfolding w'(1) by (rule updated_row)
    then show ?thesis using row [OF y(1)] g(1) by (cases "n_id y \<in> n_id ` set ns") auto
  qed
  have ids: "n_id ` set (w_notes w') = n_id ` set (w_notes w)" by (simp add: w'(1) g(1))
  show ?thesis
    unfolding trash_ok_def
  proof (intro conjI ballI allI impI)
    fix x b assume x: "x \<in> set (w_notes w')" "n_trash_action_id x = Some b"
    have "n_purged_at x = None \<and> n_superseded_at x = None \<and> in_action w' x b"
    proof (cases "n_id x \<in> n_id ` set ns")
      case True
      then obtain y where y: "y \<in> set ns" "x = g y" using cases [OF x(1)] by blast
      have "b = a" using x(2) g(6) y(2) by simp
      have "(a, n_id x) \<in> set (w_members w')" using y g(1) by (auto simp: w'(3))
      moreover have "n_series_id x = Some sid" "n_purged_at x = None" "n_superseded_at x = None"
        using ns y g by auto
      ultimately show ?thesis
        unfolding in_action_def \<open>b = a\<close> using act g(5) y(2) by (auto simp: w'(2))
    next
      case False
      then have "x \<in> set (w_notes w)" using cases [OF x(1)] by blast
      from trash_okD(1) [OF T this x(2)] show ?thesis by (auto simp: in_action_def w'(2,3))
    qed
    then show "n_purged_at x = None" "n_superseded_at x = None" "in_action w' x b" by blast+
    fix y assume y: "y \<in> set (w_notes w')" "(b, n_id y) \<in> set (w_members w')"
    show "n_trash_action_id y = Some b"
    proof (cases "b = a")
      case True
      then have "n_id y \<in> n_id ` set ns" using y(2) old_member [of "(a, n_id y)"] by (auto simp: w'(3))
      then obtain z where "z \<in> set ns" "y = g z" using cases [OF y(1)] by blast
      then show ?thesis using g(6) True by simp
    next
      case False
      then have m: "(b, n_id y) \<in> set (w_members w)" using y(2) by (auto simp: w'(3))
      have xw: "x \<in> set (w_notes w)" using cases [OF x(1)] x(2) g(6) False by auto
      have "n_id y \<in> n_id ` set (w_notes w)" using trash_okD(3) [OF T m] by simp
      then obtain y0 where y0: "y0 \<in> set (w_notes w)" "n_id y0 = n_id y" by auto
      have t: "n_trash_action_id y0 = Some b" using trash_okD(2) [OF T xw y0(1) x(2)] m y0(2) by simp
      have "n_id y0 \<notin> n_id ` set ns"
      proof
        assume "n_id y0 \<in> n_id ` set ns"
        from row [OF y0(1) this] t ns show False by auto
      qed
      then have "y \<in> set (w_notes w)" using cases [OF y(1)] y0(2) by auto
      then have "y = y0" using distinct_map_eqD [OF dist _ y0(1)] y0(2) by auto
      with t show ?thesis by simp
    qed
  next
    fix k assume k: "k \<in> set (w_members w')"
    have "fst k \<in> ta_id ` set (w_actions w') \<and> snd k \<in> n_id ` set (w_notes w)"
    proof (cases "k \<in> set (w_members w)")
      case True
      from trash_okD(3) [OF T this] show ?thesis by (auto simp: w'(2))
    next
      case False
      then obtain n where "n \<in> set ns" "k = (a, n_id n)" using k by (auto simp: w'(3))
      then show ?thesis using ns act(2) by (auto simp: w'(2))
    qed
    then show "fst k \<in> ta_id ` set (w_actions w')" "snd k \<in> n_id ` set (w_notes w')"
      unfolding ids by blast+
  next
    show "distinct (map ta_id (w_actions w'))" using trash_okD(4) [OF T] act(1,2) by (simp add: w'(2))
  qed
qed

lemma trash_ok_leave:
  assumes T: "trash_ok w" and dist: "distinct (map n_id (w_notes w))"
    and all: "\<And>x y a. x \<in> set (w_notes w) \<Longrightarrow> y \<in> set (w_notes w) \<Longrightarrow> n_trash_action_id x = Some a \<Longrightarrow>
      n_trash_action_id y = Some a \<Longrightarrow> n_id y \<in> I \<Longrightarrow> n_id x \<in> I"
    and g: "\<And>m. n_id (g m) = n_id m" "\<And>m. n_trash_action_id (g m) = None"
    and w': "w_notes w' = update_where (\<lambda>m. n_id m \<in> I) g (w_notes w)"
      "w_actions w' = w_actions w" "w_members w' = w_members w"
  shows "trash_ok w'"
proof -
  have act: "in_action w' = in_action w" by (simp add: in_action_def fun_eq_iff w')
  have ids: "n_id ` set (w_notes w') = n_id ` set (w_notes w)" by (simp add: w'(1) g(1))
  have old: "x \<in> set (w_notes w) \<and> n_id x \<notin> I" if x: "x \<in> set (w_notes w')" "n_trash_action_id x = Some b" for x b
  proof -
    obtain y where y: "y \<in> set (w_notes w)" "x = (if n_id y \<in> I then g y else y)"
      using x(1) unfolding w'(1) by (rule updated_row)
    then show ?thesis using x(2) g(2) by (auto split: if_splits)
  qed
  show ?thesis
    unfolding trash_ok_def act
  proof (intro conjI ballI allI impI)
    fix x b assume x: "x \<in> set (w_notes w')" "n_trash_action_id x = Some b"
    note xw = old [OF x]
    show "n_purged_at x = None" "n_superseded_at x = None" "in_action w x b"
      using trash_okD(1) [OF T _ x(2)] xw by blast+
    fix y assume y: "y \<in> set (w_notes w')" "(b, n_id y) \<in> set (w_members w')"
    obtain y0 where y0: "y0 \<in> set (w_notes w)" "y = (if n_id y0 \<in> I then g y0 else y0)"
      using y(1) unfolding w'(1) by (rule updated_row)
    have "n_id y0 = n_id y" using y0(2) g(1) by auto
    then have t: "n_trash_action_id y0 = Some b"
      using trash_okD(2) [OF T _ y0(1) x(2)] xw y(2) by (simp add: w'(3))
    have "n_id y0 \<notin> I" using all [OF _ y0(1) x(2) t] xw by blast
    then show "n_trash_action_id y = Some b" using y0(2) t by simp
  next
    fix k assume "k \<in> set (w_members w')"
    then show "fst k \<in> ta_id ` set (w_actions w')" "snd k \<in> n_id ` set (w_notes w')"
      using trash_okD(3) [OF T, of k] unfolding ids w'(2,3) by blast+
  next
    show "distinct (map ta_id (w_actions w'))" using trash_okD(4) [OF T] by (simp add: w')
  qed
qed

lemma trash_ok_pass:
  assumes T: "trash_ok w"
    and g: "\<And>m. n_id (g m) = n_id m" "\<And>m. n_purged_at (g m) = n_purged_at m"
      "\<And>m. n_superseded_at (g m) = n_superseded_at m" "\<And>m. n_trash_action_id (g m) = n_trash_action_id m"
      "\<And>m. n_series_id (g m) = n_series_id m \<and> n_deleted_at (g m) = n_deleted_at m"
    and w': "w_notes w' = update_where p g (w_notes w)" "w_actions w' = w_actions w" "w_members w' = w_members w"
  shows "trash_ok w'"
proof -
  have old: "\<exists>y \<in> set (w_notes w). n_id x = n_id y \<and> n_trash_action_id x = n_trash_action_id y
      \<and> n_purged_at x = n_purged_at y \<and> n_superseded_at x = n_superseded_at y
      \<and> (\<forall>a. in_action w' x a = in_action w y a)" if x: "x \<in> set (w_notes w')" for x
  proof -
    obtain y where y: "y \<in> set (w_notes w)" "x = (if p y then g y else y)"
      using x unfolding w'(1) by (rule updated_row)
    then show ?thesis using g by (intro bexI [of _ y]) (auto simp: in_action_def w'(2,3))
  qed
  have ids: "n_id ` set (w_notes w') = n_id ` set (w_notes w)" by (simp add: w'(1) g(1))
  show ?thesis
    unfolding trash_ok_def
  proof (intro conjI ballI allI impI)
    fix x a assume x: "x \<in> set (w_notes w')" "n_trash_action_id x = Some a"
    obtain x0 where x0: "x0 \<in> set (w_notes w)" "n_id x = n_id x0" "n_trash_action_id x0 = Some a"
      "n_purged_at x = n_purged_at x0" "n_superseded_at x = n_superseded_at x0" "in_action w' x a = in_action w x0 a"
      using old [OF x(1)] x(2) by auto
    show "n_purged_at x = None" "n_superseded_at x = None" "in_action w' x a"
      using trash_okD(1) [OF T x0(1,3)] x0 by simp_all
    fix y assume y: "y \<in> set (w_notes w')" "(a, n_id y) \<in> set (w_members w')"
    obtain y0 where y0: "y0 \<in> set (w_notes w)" "n_id y = n_id y0" "n_trash_action_id y = n_trash_action_id y0"
      using old [OF y(1)] by auto
    then show "n_trash_action_id y = Some a" using trash_okD(2) [OF T x0(1) y0(1) x0(3)] y(2) by (simp add: w'(3))
  next
    fix k assume "k \<in> set (w_members w')"
    then show "fst k \<in> ta_id ` set (w_actions w')" "snd k \<in> n_id ` set (w_notes w')"
      using trash_okD(3) [OF T, of k] unfolding ids w'(2,3) by blast+
  next
    show "distinct (map ta_id (w_actions w'))" using trash_okD(4) [OF T] by (simp add: w')
  qed
qed

lemma purge_ok_pass:
  assumes P: "purge_ok w" and g: "\<And>m. n_id (g m) = n_id m" "\<And>m. n_purged_at (g m) = n_purged_at m"
      "\<And>m. n_series_id (g m) = n_series_id m"
    and w': "w_notes w' = update_where p g (w_notes w)" "w_series w' = w_series w" "w_note_tags w' = w_note_tags w"
      "w_series_tags w' = w_series_tags w"
  shows "purge_ok w'"
proof -
  have op: "open_series w' = open_series w" by (simp add: open_series_def w')
  have pur: "purged_ids w' = purged_ids w" unfolding purged_ids_def w'(1) by (simp add: image_where_update g)
  have ids: "n_id ` set (w_notes w') = n_id ` set (w_notes w)" by (simp add: w'(1) g(1))
  show ?thesis
    unfolding purge_ok_def op pur ids w'(2-4)
  proof (intro conjI ballI allI impI)
    fix x sid assume x: "x \<in> set (w_notes w')" "n_series_id x = Some sid" "n_purged_at x = None"
    obtain y where y: "y \<in> set (w_notes w)" "x = (if p y then g y else y)"
      using x(1) unfolding w'(1) by (rule updated_row)
    then have "n_series_id y = Some sid" "n_purged_at y = None" using x(2,3) g by (auto split: if_splits)
    then show "sid \<in> open_series w" by (rule purge_okD(4) [OF P y(1)])
  qed (rule purge_okD [OF P])+
qed

lemma series_known_pass:
  assumes "series_known w" "\<And>m. n_series_id (g m) = n_series_id m"
    and w': "w_notes w' = update_where p g (w_notes w)" "w_series w' = w_series w"
  shows "series_known w'"
  unfolding series_known_def w'(2)
proof (intro ballI allI impI)
  fix x sid assume x: "x \<in> set (w_notes w')" "n_series_id x = Some sid"
  obtain y where y: "y \<in> set (w_notes w)" "x = (if p y then g y else y)"
    using x(1) unfolding w'(1) by (rule updated_row)
  then have "n_series_id y = Some sid" using x(2) assms(2) by (auto split: if_splits)
  with y(1) show "sid \<in> rs_id ` set (w_series w)" using assms(1) by (auto simp: series_known_def)
qed

lemma updated_event_storage: "storage_ok w \<Longrightarrow> storage_ok (updated_event env s w)"
  unfolding updated_event_def by (rule storage_step [of w]) simp

lemma selected_rows: "set (sort_key key (filter p (w_notes w))) = {n \<in> set (w_notes w). p n}"
  by simp

lemma fresh_action: "fresh env w \<Longrightarrow> uuid4 env (draws w) \<notin> ta_id ` set (w_actions w)"
  by (auto simp: fresh_def used_ids_def)

lemma trash_series_portion_storage:
  assumes r: "trash_series_portion env sid p w = Inr (r, w')" and S: "storage_ok w"
    and ok: "reminders_ok w" "fresh env w"
  shows "storage_ok w'"
  using r
proof (cases rule: trash_series_portion_cases)
  case (1 s boundary ns a now u v)
  let ?act = "\<lparr>ta_id = a, ta_series_id = rs_id s, ta_boundary = boundary, ta_trashed_at = now,
    ta_sealed_at = Some (clock env (ticks v))\<rparr>"
  let ?g = "\<lambda>m. m\<lparr>n_deleted_at := Some now, n_trash_action_id := Some a, n_updated_at := now,
    n_version := n_version m + 1\<rparr>"
  let ?y = "v\<lparr>ticks := Suc (ticks v), w_actions := update_where (\<lambda>x. ta_id x = a)
           (\<lambda>x. x\<lparr>ta_sealed_at := Some (clock env (ticks v))\<rparr>) (w_actions v)\<rparr>"
  have dist: "distinct (map n_id ns)" unfolding 1(3) by (rule selected_distinct [OF ok(1)])
  have u: "w_notes u = w_notes w" "w_series u = w_series w" "w_note_tags u = w_note_tags w"
    "w_series_tags u = w_series_tags w" "w_members u = w_members w @ map (\<lambda>n. (a, n_id n)) ns"
    unfolding 1(7) by (simp_all add: begin_tx_def)
  have new: "a \<notin> ta_id ` set (w_actions w)" unfolding 1(5) by (rule fresh_action [OF ok(2)])
  then have old: "update_where (\<lambda>x. ta_id x = a) h (w_actions w) = w_actions w" for h
    by (intro update_where_id) auto
  have acts: "w_actions ?y = w_actions w @ [?act]"
    using old by (simp add: 1(8) change_loop_tables 1(7)) (simp add: update_where_def)
  have rows: "w_notes ?y = update_where (\<lambda>m. n_id m \<in> n_id ` set ns) ?g (w_notes w)"
    by (simp add: 1(8) change_loop_notes [OF dist] u)
  have tabs: "w_series ?y = w_series w" "w_note_tags ?y = w_note_tags w" "w_series_tags ?y = w_series_tags w"
    "w_members ?y = w_members w @ map (\<lambda>n. (a, n_id n)) ns"
    by (simp_all add: 1(8) change_loop_tables u)
  have "storage_ok ?y"
  proof (rule storage_okI)
    show "trash_ok ?y"
    proof (rule trash_ok_enter [OF storage_okD(1) [OF S] rows_distinct [OF ok(1)] _ _ _ _ _ _ _ new _ _ _ _ rows acts tabs(4),
          of "rs_id s" now])
      show "set ns \<subseteq> {n \<in> set (w_notes w). n_trash_action_id n = None \<and> n_purged_at n = None
          \<and> n_superseded_at n = None \<and> n_series_id n = Some (rs_id s)}"
        using no_action [OF S] by (auto simp: 1(3))
    qed simp_all
    show "purge_ok ?y"
      by (rule purge_ok_pass [OF storage_okD(2) [OF S] _ _ _ rows tabs(1-3)]) simp_all
    show "series_known ?y"
      by (rule series_known_pass [OF storage_okD(3) [OF S] _ rows tabs(1)]) simp
  qed
  then have "storage_ok (save_series (rs_id s) (\<lambda>s. s\<lparr>rs_updated_at := now\<rparr>) ?y)"
    by (rule storage_ok_save_series) simp_all
  then show ?thesis
    unfolding 1(9) by (intro updated_event_storage) (erule storage_step [rotated], simp add: same_storage_def save_series_def)
qed

lemma members_are_in_action:
  assumes S: "storage_ok w" and ok: "reminders_ok w" and m: "m \<in> set (w_notes w)" "n_trash_action_id m = Some a"
  shows "m \<in> set (action_members w a)"
proof -
  have "(a, n_id m) \<in> set (w_members w)"
    using trash_okD(1) [OF storage_okD(1) [OF S] m] by (simp add: in_action_def)
  then show ?thesis using m(1) by (force simp: action_members_def)
qed

lemma restore_members_storage:
  assumes r: "restore_members env a v sel w = Inr (s', w')" and S: "storage_ok w" and ok: "reminders_ok w"
  shows "storage_ok w'"
  using r
proof (cases rule: restore_members_cases)
  case (1 act s ns now u)
  let ?g = "\<lambda>m. m\<lparr>n_trash_action_id := None, n_deleted_at := None, n_updated_at := now,
    n_version := n_version m + 1\<rparr>"
  have dist: "distinct (map n_id ns)" unfolding 1(3) by (rule members_distinct [OF ok])
  have rows: "w_notes u = update_where (\<lambda>m. n_id m \<in> n_id ` set ns) ?g (w_notes w)"
    by (simp add: 1(9) change_loop_notes [OF dist])
  have tabs: "w_series u = w_series w" "w_note_tags u = w_note_tags w" "w_series_tags u = w_series_tags w"
    "w_members u = w_members w" "w_actions u = w_actions w"
    by (simp_all add: 1(9) change_loop_tables)
  have "storage_ok u"
  proof (rule storage_okI)
    show "trash_ok u"
    proof (rule trash_ok_leave [OF storage_okD(1) [OF S] rows_distinct [OF ok] _ _ _ rows tabs(5,4)])
      fix x y b assume x: "x \<in> set (w_notes w)" "y \<in> set (w_notes w)" "n_trash_action_id x = Some b"
        "n_trash_action_id y = Some b" "n_id y \<in> n_id ` set ns"
      then obtain n where n: "n \<in> set ns" "n_id y = n_id n" by auto
      then have "n \<in> set (w_notes w)" using action_members_rows by (auto simp: 1(3))
      then have "y = n" using distinct_map_eqD [OF rows_distinct [OF ok] x(2)] n(2) by blast
      then have "b = a" using n(1) 1(5) x(4) by auto
      then have "x \<in> set ns" using members_are_in_action [OF S ok x(1)] x(3) by (simp add: 1(3))
      then show "n_id x \<in> n_id ` set ns" by simp
    qed simp_all
    show "purge_ok u" by (rule purge_ok_pass [OF storage_okD(2) [OF S] _ _ _ rows tabs(1-3)]) simp_all
    show "series_known u" by (rule series_known_pass [OF storage_okD(3) [OF S] _ rows tabs(1)]) simp
  qed
  then have "storage_ok (save_series (rs_id s) (\<lambda>s. s\<lparr>rs_updated_at := now\<rparr>) u)"
    by (rule storage_ok_save_series) simp_all
  then show ?thesis unfolding 1(11) by (rule updated_event_storage)
qed

lemma begin_tx_ok: "reminders_ok w \<Longrightarrow> reminders_ok (begin_tx env w)" "fresh env w \<Longrightarrow> fresh env (begin_tx env w)"
  by (simp_all add: reminders_ok_def reminder_rows_wf_def rule_state_def row_simps fresh_def)

lemma restore_trash_action_storage:
  assumes "restore_trash_action env a v w = Inr (r, w')" "storage_ok w" "reminders_ok w"
  shows "storage_ok w'"
  using assms restore_members_storage [OF _ begin_tx_storage begin_tx_ok(1)]
  by (auto simp: restore_trash_action_def)

lemma restore_note_storage:
  assumes r: "restore_note env i p w = Inr (r, w')" and S: "storage_ok w" and ok: "reminders_ok w"
  shows "storage_ok w'"
  using r
proof (cases rule: restore_note_cases)
  case (action c a v s)
  show ?thesis by (rule restore_members_storage [OF action(4) begin_tx_storage [OF S] begin_tx_ok(1) [OF ok]])
next
  case (single c n u t x n')
  note L = locked_note_cases [OF single(3)]
  note n = require_noteD [OF L(2)]
  have U: "storage_ok u" by (rule locked_note_storage [OF single(3) begin_tx_storage [OF S]])
  have d: "distinct (map n_id (w_notes u))" using rows_distinct [OF ok] by (simp add: L(3) begin_tx_def)
  have "c = n" using single(1) L(2) by (simp add: require_note_def L(3))
  then have t: "n_trash_action_id n = None" using single(2) by simp
  have "storage_ok x"
    by (rule storage_step [OF set_exception_storage [OF single(8)] change_storage_ticks [OF U n(1) t n(3) d]])
      simp_all
  then show ?thesis unfolding single(9) by (rule note_event_storage)
qed

lemma restore_series_portion_storage:
  assumes r: "restore_series_portion env sid p w = Inr (r, w')" and S: "storage_ok w" and ok: "reminders_ok w"
  shows "storage_ok w'"
  using r
proof (cases rule: restore_series_portion_cases)
  case (action s a)
  show ?thesis by (rule restore_members_storage [OF action begin_tx_storage [OF S] begin_tx_ok(1) [OF ok]])
next
  case (legacy s ns now u)
  let ?v = "(begin_tx env w)\<lparr>ticks := Suc (ticks (begin_tx env w))\<rparr>"
  have v: "storage_ok ?v" by (rule storage_step [OF _ begin_tx_storage [OF S, of env]]) simp
  have "storage_ok u"
    unfolding legacy(5)
  proof (rule row_loop_storage [OF restore_legacy_storage restore_legacy_note_others v])
    show "distinct (map n_id (w_notes ?v))" using rows_distinct [OF ok] by (simp add: row_simps)
    show "set ns \<subseteq> {n \<in> set (w_notes ?v). n_trash_action_id n = None}"
      using legacy(2) by (auto simp: row_simps)
    show "distinct (map n_id ns)" using legacy(3) selected_distinct [OF ok] by blast
  qed
  then have "storage_ok (save_series (rs_id s) (\<lambda>s. s\<lparr>rs_updated_at := now\<rparr>) u)"
    by (rule storage_ok_save_series) simp_all
  then show ?thesis unfolding legacy(6) by (rule updated_event_storage)
qed

end
