(* ===== verification/SeriesStorage.thy ===== *)
theory SeriesStorage
  imports TrashActions
begin

section \<open>The storage contract under series creation and split\<close>

text \<open>
  The two handlers that write whole series, \<open>create_series\<close> and \<open>split_series\<close>, keep the storage
  contract: the new rows are in no trash action, not purged and refer to a series that is open.
\<close>

subsection \<open>Creating a series\<close>

lemma storage_ok_add_notes:
  assumes "storage_ok w" "distinct (map n_id (w_notes w @ ns))"
    and "\<forall>n \<in> set ns. n_trash_action_id n = None \<and> n_purged_at n = None \<and> n_series_id n = Some sid"
    and "sid \<in> open_series w"
  shows "storage_ok (w\<lparr>w_notes := w_notes w @ ns\<rparr>)"
  using assms(2-3)
proof (induction ns rule: rev_induct)
  case Nil
  then show ?case using assms(1) by simp
next
  case (snoc n ns)
  let ?w = "w\<lparr>w_notes := w_notes w @ ns\<rparr>"
  have "open_series ?w = open_series w" by (simp add: open_series_def)
  then have "storage_ok (?w\<lparr>w_notes := w_notes ?w @ [n]\<rparr>)"
    using snoc assms(4) by (intro storage_ok_add) auto
  then show ?case by simp
qed

lemma create_series_rows_tables:
  assumes ok: "reminders_ok w" "fresh env w" and p: "note_fields_ok p"
    and r: "create_series_rows env p now limit w = Inr (s, w')"
  shows "rs_id s = uuid4 env (draws w)" "rs_purged_at s = None" "w_series w' = w_series w @ [s]"
    "w_series_tags w' = w_series_tags w @ map (\<lambda>k. (rs_id s, k)) (nw_tag_ids p)"
    "w_actions w' = w_actions w" "w_members w' = w_members w"
proof -
  obtain occs w1 w2 plans where 1: "s = series_of p (strip (nw_title p)) (uuid4 env (draws w)) (w_now w)"
    "w1 = w\<lparr>draws := Suc (draws w), w_series := w_series w @ [s],
       w_series_tags := w_series_tags w @ map (\<lambda>k. (rs_id s, k)) (nw_tag_ids p),
       w_templates := w_templates w @ map (\<lambda>m. (rs_id s, m)) (nw_offsets p)\<rparr>"
    "fold (add_occurrence env p (strip (nw_title p)) (rs_id s) now) occs (w1, []) = (w2, plans)"
    "w' = fold (add_planned env now) plans w2"
    by (rule create_series_rows_cases [OF r]) blast
  have "grows env w w1" unfolding 1(2) by (auto simp: grows_def used_ids_def 1(1) series_of_def)
  then have "fresh env w1" by (rule fresh_grows [OF ok(2)])
  moreover have "reminders_ok w1" using ok(1) by (simp add: 1(2) reminders_ok_def reminder_rows_wf_def rule_state_def)
  ultimately obtain ns rs k where w2: "w2 = w1\<lparr>draws := k, w_notes := w_notes w1 @ ns,
        w_note_tags := w_note_tags w1 @ concat (map (tag_keys (nw_tag_ids p)) ns), w_rules := w_rules w1 @ rs\<rparr>"
    using add_occurrence_loop [OF building_start p 1(3)] by blast
  have "w_series (fold (add_planned env now) plans w2) = w_series w2"
    "w_series_tags (fold (add_planned env now) plans w2) = w_series_tags w2"
    "w_actions (fold (add_planned env now) plans w2) = w_actions w2"
    "w_members (fold (add_planned env now) plans w2) = w_members w2"
    by (rule fold_constant, simp add: add_planned_def new_uuid_def)+
  then show "w_series w' = w_series w @ [s]"
    "w_series_tags w' = w_series_tags w @ map (\<lambda>k. (rs_id s, k)) (nw_tag_ids p)"
    "w_actions w' = w_actions w" "w_members w' = w_members w"
    by (simp_all add: 1(4) w2) (simp_all add: 1(2))
  show "rs_id s = uuid4 env (draws w)" "rs_purged_at s = None" by (simp_all add: 1(1) series_of_def)
qed

lemma fresh_series_id: "fresh env w \<Longrightarrow> uuid4 env (draws w) \<notin> rs_id ` set (w_series w)"
  by (auto simp: fresh_def used_ids_def)

lemma tag_keys_ids: "fst ` set (concat (map (tag_keys ks) ns)) \<subseteq> n_id ` set ns"
  by (auto simp: tag_keys_def)

lemma create_series_storage:
  assumes p: "note_fields_ok p" and r: "create_series env p w = Inr (r, w')"
    and S: "storage_ok w" and ok: "reminders_ok w" "fresh env w"
  shows "storage_ok w'"
proof -
  let ?u = "(begin_tx env w)\<lparr>ticks := Suc (ticks (begin_tx env w))\<rparr>"
  obtain s v where v: "create_series_rows env p (clock env (ticks (begin_tx env w))) (max_series_occurrences env) ?u = Inr (s, v)"
    and w': "w' = updated_event env s v"
    using r by (auto simp: create_series_def utcnow_def Let_def)
  have U: "storage_ok ?u" by (rule storage_step [OF _ begin_tx_storage [OF S, of env]]) simp
  have ok_u: "reminders_ok ?u" "fresh env ?u"
    using handler_keeps_trans [OF begin_tx_keeps utcnow_keeps, of env w] ok by (auto simp: handler_keeps_def)
  note T = create_series_rows_tables [OF ok_u p v]
  note R = create_series_rows_result [OF ok_u p v]
  obtain occs ns where N: "w_notes v = w_notes ?u @ ns"
      "w_note_tags v = w_note_tags ?u @ concat (map (tag_keys (nw_tag_ids p)) ns)"
      "list_all2 (occurrence_note p (strip (nw_title p)) (rs_id s) (w_now ?u)) occs ns"
    using R(4) by blast
  let ?s = "?u\<lparr>w_series := w_series ?u @ [s], w_series_tags := w_series_tags v\<rparr>"
  have new: "rs_id s \<notin> rs_id ` set (w_series ?u)" using fresh_series_id [OF ok_u(2)] by (simp add: T(1))
  have "fst ` set (w_series_tags v) \<subseteq> insert (rs_id s) (fst ` set (w_series_tags ?u))"
    unfolding T(4) by auto
  from storage_ok_add_series [OF U new T(2) this] have A: "storage_ok ?s" .
  have "n_trash_action_id n = None \<and> n_purged_at n = None \<and> n_series_id n = Some (rs_id s)" if "n \<in> set ns" for n
  proof -
    have "\<exists>occ. occurrence_note p (strip (nw_title p)) (rs_id s) (w_now ?u) occ n"
      using N(3) that by (induction rule: list_all2_induct) auto
    then show ?thesis unfolding occurrence_note_def new_note_def by (metis note_row.select_convs)
  qed
  then have rows: "\<forall>n \<in> set ns. n_trash_action_id n = None \<and> n_purged_at n = None \<and> n_series_id n = Some (rs_id s)" by blast
  have dist: "distinct (map n_id (w_notes ?u @ ns))" using rows_distinct [OF R(1)] unfolding N(1) .
  have op: "rs_id s \<in> open_series ?s" using new T(2) by (auto simp: open_series_def)
  have B: "storage_ok (?s\<lparr>w_notes := w_notes ?s @ ns\<rparr>)" (is "storage_ok ?n")
    by (rule storage_ok_add_notes [OF A _ rows op]) (use dist in simp)
  have "n_id n \<notin> purged_ids ?n" if "n \<in> set ns" for n
  proof
    assume "n_id n \<in> purged_ids ?n"
    then obtain m where m: "m \<in> set (w_notes ?u @ ns)" "n_purged_at m \<noteq> None" "n_id m = n_id n"
      unfolding purged_ids_def by fastforce
    then have "m = n" using distinct_map_eqD [OF dist m(1), of n] that by auto
    with rows that m(2) show False by auto
  qed
  then have "n_id ` set ns \<subseteq> n_id ` set (w_notes ?n) - purged_ids ?n" by auto
  from order_trans [OF tag_keys_ids this]
  have "fst ` set (w_note_tags v) \<subseteq> fst ` set (w_note_tags ?n) \<union> (n_id ` set (w_notes ?n) - purged_ids ?n)"
    unfolding N(2) set_append image_Un by (intro Un_mono) auto
  from storage_ok_tags [OF B this] have "storage_ok (?n\<lparr>w_note_tags := w_note_tags v\<rparr>)" .
  then have "storage_ok v"
    by (rule storage_step [rotated]) (simp add: same_storage_def N(1) T(3,5,6))
  then show ?thesis unfolding w' by (rule updated_event_storage)
qed

subsection \<open>Splitting a series\<close>

text \<open>The rows the loop may take over are in the table and in no trash action.\<close>

definition no_action_rows :: "note_row list \<Rightarrow> world \<Rightarrow> bool" where
  "no_action_rows reusable w \<longleftrightarrow> (\<forall>n \<in> set reusable.
     (n_id n, None) \<in> (\<lambda>m. (n_id m, n_trash_action_id m)) ` set (w_notes w))"

lemma place_occurrence_storage:
  assumes ok: "reminders_ok w" "fresh env w" "reusable_rows reusable w" "no_action_rows reusable w"
    and S: "storage_ok w" "sid \<in> open_series w"
    and r: "place_occurrence env p title sid now reusable occ (kept, w) = (kept', w')"
  shows "storage_ok w' \<and> sid \<in> open_series w' \<and> no_action_rows reusable w'"
  using r
proof (cases rule: place_occurrence_cases)
  case (created n)
  let ?d = "w\<lparr>draws := Suc (draws w)\<rparr>"
  let ?n = "?d\<lparr>w_notes := w_notes ?d @ [n]\<rparr>"
  have D: "storage_ok ?d" by (rule storage_step [OF _ S(1)]) (simp add: same_storage_def)
  have new: "n_id n \<notin> n_id ` set (w_notes ?d)" using fresh_note_id [OF ok(2)] by (simp add: created(3) new_note_def)
  have op: "open_series ?d = open_series w" by (simp add: open_series_def)
  have N: "storage_ok ?n"
    by (rule storage_ok_add [OF D new]) (use S(2) in \<open>simp_all add: created(3) new_note_def op\<close>)
  have "n_id n \<notin> purged_ids ?n" using new by (auto simp: purged_ids_def created(3) new_note_def)
  then have "fst ` set (w_note_tags w @ map (\<lambda>k. (n_id n, k)) (nw_tag_ids p))
      \<subseteq> fst ` set (w_note_tags ?n) \<union> (n_id ` set (w_notes ?n) - purged_ids ?n)" by auto
  from storage_ok_tags [OF N this]
  have "storage_ok (?n\<lparr>w_note_tags := w_note_tags w @ map (\<lambda>k. (n_id n, k)) (nw_tag_ids p)\<rparr>)" .
  then have "storage_ok w'"
    by (rule storage_step [rotated]) (simp add: same_storage_def created(4) created(3) new_note_def)
  moreover have "w_notes w' = w_notes w @ [n]" "w_series w' = w_series w" by (simp_all add: created(4))
  ultimately show ?thesis using S(2) ok(4) by (auto simp: open_series_def no_action_rows_def)
next
  case (taken n0 n n')
  let ?f = "taken_over p title sid now (instant_of occ)"
  let ?n = "save_note (n_id n) ?f w"
  let ?tags = "filter (\<lambda>(i, k). i \<noteq> n_id n) (w_note_tags w) @ map (\<lambda>k. (n_id n, k)) (nw_tag_ids p)"
  have dist: "distinct (map n_id (w_notes w))" by (rule rows_distinct [OF ok(1)])
  have "n0 \<in> set reusable" using find_Some_set [OF taken(1)] by blast
  then obtain m m' where m: "m \<in> set (w_notes w)" "n_id m = n_id n0" "n_purged_at m = None"
    and m': "m' \<in> set (w_notes w)" "n_id m' = n_id n0" "n_trash_action_id m' = None"
    using ok(3,4) by (fastforce simp: reusable_rows_def no_action_rows_def)
  then have "n = m" "n = m'" using current_rowD [OF m(1,2) dist] current_rowD [OF m'(1,2) dist] by (simp_all add: taken(2))
  then have n: "n \<in> set (w_notes w)" "n_purged_at n = None" "n_trash_action_id n = None" using m m' by simp_all
  have N: "storage_ok ?n"
    by (rule storage_ok_update [OF S(1) n(1,3) dist]) (use S(2) in \<open>simp_all add: taken_over_def\<close>)
  have rows: "w_notes w' = w_notes ?n" "w_series w' = w_series w" by (simp_all add: taken(5) save_note_def)
  have "n_id n \<notin> purged_ids ?n"
    using not_purged [OF dist n(1,2)] purged_ids_save_note [of ?f "n_id n" w] by (simp add: taken_over_def)
  moreover have "n_id n \<in> n_id ` set (w_notes ?n)" using n(1) by (simp add: save_note_def)
  ultimately have "fst ` set ?tags \<subseteq> fst ` set (w_note_tags ?n) \<union> (n_id ` set (w_notes ?n) - purged_ids ?n)"
    by (auto simp: save_note_def)
  from storage_ok_tags [OF N this] have "storage_ok (?n\<lparr>w_note_tags := ?tags\<rparr>)" .
  then have "storage_ok w'"
    by (rule storage_step [rotated]) (simp add: taken(5))
  moreover have "no_action_rows reusable w'"
    using ok(4) unfolding no_action_rows_def rows save_note_def by (simp add: taken_over_def)
  ultimately show ?thesis using S(2) by (simp add: open_series_def rows)
qed

lemma place_loop_storage:
  assumes "reminders_ok w" "fresh env w" "reusable_rows reusable w" "no_action_rows reusable w"
    and "storage_ok w" "sid \<in> open_series w"
    and "fold (place_occurrence env p title sid now reusable) occs (kept, w) = (kept', w')"
  shows "storage_ok w' \<and> no_action_rows reusable w'"
  using assms
proof (induction occs arbitrary: kept w)
  case (Cons occ occs)
  obtain kept1 w1 where s: "place_occurrence env p title sid now reusable occ (kept, w) = (kept1, w1)" by fastforce
  note K = place_occurrence_keeps [OF Cons.prems(1-3) s]
  note S = place_occurrence_storage [OF Cons.prems(1-6) s]
  have "reminders_ok w1" "fresh env w1" using K Cons.prems(1,2) by (auto simp: handler_keeps_def)
  then show ?case by (rule Cons.IH) (use K S s Cons.prems(7) in auto)
qed simp

lemma open_series_save:
  "(\<And>s. rs_id (f s) = rs_id s) \<Longrightarrow> (\<And>s. rs_purged_at (f s) = rs_purged_at s) \<Longrightarrow>
     open_series (save_series i f w) = open_series w"
  unfolding open_series_def save_series_def by (simp add: image_where_update)

lemma split_series_storage:
  assumes r: "split_series env sid p w = Inr (r, w')"
    and S: "storage_ok w" and ok: "reminders_ok w" "fresh env w"
  shows "storage_ok w'"
  using r
proof (cases rule: split_series_cases)
  case (1 pl b u v kept x last_day)
  let ?now = "clock env (Suc (ticks w))"
  let ?reusable = "filter (\<lambda>n. n_purged_at n = None) (pl_affected pl)"
  let ?rest = "filter (\<lambda>n. n_purged_at n = None \<and> n_id n \<notin> set kept) (pl_affected pl)"
  let ?s = "successor_series (uuid4 env (draws w)) (pl_old pl) (pl_title pl) p (w_now b)"
  let ?f = "\<lambda>s. s\<lparr>rs_end_date := last_day, rs_split_boundary := Some (pl_key pl), rs_updated_at := ?now\<rparr>"
  have same: "same_storage w b" unfolding 1(1) by (simp add: same_storage_def begin_tx_def)
  have b: "w_notes b = w_notes w" using same by (simp add: same_storage_def)
  have aff: "set (pl_affected pl) \<subseteq> set (w_notes w)" "distinct (map n_id (pl_affected pl))"
    unfolding split_checksD(3) [OF 1(2)] affected_notes_def b
    by (auto intro: selected_distinct [OF ok(1)])
  have none: "n_trash_action_id n = None" if "n \<in> set (pl_affected pl)" for n
    using split_checksD(10) [OF 1(2)] that by blast
  have sid: "rs_id ?s = uuid4 env (draws w)" "rs_purged_at ?s = None" by (simp_all add: successor_series_def)
  have new: "rs_id ?s \<notin> rs_id ` set (w_series w)" using fresh_series_id [OF ok(2)] by (simp add: sid)
  let ?a = "w\<lparr>w_series := w_series w @ [?s], w_series_tags := w_series_tags w @ map (\<lambda>k. (rs_id ?s, k)) (nw_tag_ids p)\<rparr>"
  have A: "storage_ok ?a" by (rule storage_ok_add_series [OF S new sid(2)]) auto
  have "storage_ok (save_series (rs_id (pl_old pl)) ?f ?a)" by (rule storage_ok_save_series [OF A]) simp_all
  then have U: "storage_ok u"
    by (rule storage_step [rotated]) (use same in \<open>simp add: 1(3) same_storage_def save_series_def sid\<close>)
  have op: "uuid4 env (draws w) \<in> open_series u"
    using new sid unfolding 1(3) by (subst open_series_save) (auto simp: open_series_def)
  have ku: "handler_keeps env w u" "w_notes u = w_notes w" by (rule split_start_keeps [OF 1(1,3)], simp)+
  then have ok_u: "reminders_ok u" "fresh env u" using ok by (auto simp: handler_keeps_def)
  have rows: "reusable_rows ?reusable u" "no_action_rows ?reusable u"
    using aff(1) none by (force simp: reusable_rows_def no_action_rows_def ku(2))+
  have V: "storage_ok v" using place_loop_storage [OF ok_u rows U op 1(4)] by blast
  have kv: "handler_keeps env u v" "\<forall>m \<in> set (w_notes u). n_id m \<in> set kept \<or> m \<in> set (w_notes v)"
    using place_loop_keeps [OF ok_u rows(1) 1(4)] by auto
  then have dist: "distinct (map n_id (w_notes v))" using ok_u by (auto simp: handler_keeps_def intro: rows_distinct)
  have "storage_ok x"
    unfolding 1(5) supersede_note_def [abs_def]
  proof (rule row_loop_storage [OF _ _ V dist])
    show "set ?rest \<subseteq> {n \<in> set (w_notes v). n_trash_action_id n = None}"
      using aff(1) kv(2) none by (auto simp: ku(2))
    show "distinct (map n_id ?rest)" using aff(2) by (rule distinct_map_filter)
    show "m \<in> set (w_notes (change_and_reconcile env ?now f n y))"
      if "m \<in> set (w_notes y)" "n_id m \<noteq> n_id n" for f n m y
      unfolding change_and_reconcile_notes by (rule save_note_others [OF that])
  qed (rule change_and_reconcile_storage, simp_all)
  then have "storage_ok (x\<lparr>w_exceptions := xs\<rparr>)" for xs by (rule storage_step [rotated]) simp
  then show ?thesis using 1(6) updated_event_storage by auto
qed

end
