(* ===== verification/Requests.thy ===== *)
theory Requests
  imports SeriesStorage Profile
begin

section \<open>Every request keeps both contracts\<close>

text \<open>
  The requests of the API as one type and their execution as one function. Each request that
  succeeds keeps the reminder contract \<open>handler_keeps\<close> and the storage contract \<open>storage_ok\<close>; one
  that fails is rolled back.
\<close>

subsection \<open>Settings and tags\<close>

lemma fold_keeps: "(\<And>x w. handler_keeps env w (g x w)) \<Longrightarrow> handler_keeps env w (fold g xs w)"
  by (induction xs arbitrary: w) (auto intro: handler_keeps_trans handler_keeps_refl)

lemma fold_same_storage: "(\<And>x w. same_storage w (g x w)) \<Longrightarrow> same_storage w (fold g xs w)"
  by (induction xs arbitrary: w) (auto intro: same_storage_trans)

text \<open>A transaction that ends with an event.\<close>

lemma tx_event_keeps: "handler_keeps env (begin_tx env w) u \<Longrightarrow> handler_keeps env w (add_event env t e v s u)"
  by (blast intro: handler_keeps_trans begin_tx_keeps add_event_keeps)

lemma tx_event_same: "same_storage (begin_tx env w) u \<Longrightarrow> same_storage w (add_event env t e v s u)"
  by (blast intro: same_storage_trans same_storage_steps(1,2))

lemma fold_storage: "(\<And>x w. storage_ok w \<Longrightarrow> storage_ok (g x w)) \<Longrightarrow> storage_ok w \<Longrightarrow> storage_ok (fold g xs w)"
  by (induction xs arbitrary: w) auto

lemma profile_settings_world:
  assumes "profile_settings env w = (row, w')"
  shows "\<exists>rows. w' = w\<lparr>w_settings := rows\<rparr>"
  using assms by (auto simp: profile_settings_def Let_def split: option.splits intro: exI [of _ "w_settings w"])

lemma settings_frame: "handler_keeps env w (w\<lparr>w_settings := rows\<rparr>)" "same_storage w (w\<lparr>w_settings := rows\<rparr>)"
  by (rule handler_keeps_frame) (simp_all add: grows_def used_ids_def same_storage_def)

lemma get_profile_settings_keeps:
  assumes "get_profile_settings env w = Inr (r, w')"
  shows "handler_keeps env w w'" "same_storage w w'"
proof -
  obtain row where "profile_settings env (begin_tx env w) = (row, w')"
    using assms by (auto simp: get_profile_settings_def split: prod.splits)
  then obtain rows where w': "w' = (begin_tx env w)\<lparr>w_settings := rows\<rparr>" using profile_settings_world by blast
  show "handler_keeps env w w'" unfolding w' by (rule handler_keeps_trans [OF begin_tx_keeps settings_frame(1)])
  show "same_storage w w'" unfolding w' by (rule same_storage_trans [OF _ settings_frame(2)]) simp
qed

lemma update_profile_settings_keeps:
  assumes "update_profile_settings env p w = Inr (r, w')"
  shows "handler_keeps env w w'" "same_storage w w'"
proof -
  obtain row u where u: "profile_settings env (begin_tx env w) = (row, u)" by fastforce
  then obtain rows where rows: "u = (begin_tx env w)\<lparr>w_settings := rows\<rparr>" using profile_settings_world by blast
  obtain f e v where w': "w' = add_event env ''settings.updated'' e v None
      (save_settings (us_id row) f (u\<lparr>ticks := Suc (ticks u)\<rparr>))"
    using assms u by (auto simp: update_profile_settings_def utcnow_def Let_def split: if_splits sum.splits)
  have "w' = add_event env ''settings.updated'' e v None ((begin_tx env w)\<lparr>ticks := Suc (ticks u),
      w_settings := w_settings (save_settings (us_id row) f (u\<lparr>ticks := Suc (ticks u)\<rparr>))\<rparr>)"
    unfolding w' rows by (simp add: save_settings_def)
  then obtain rows' k where w'': "w' = add_event env ''settings.updated'' e v None
      ((begin_tx env w)\<lparr>ticks := k, w_settings := rows'\<rparr>)" by blast
  have "handler_keeps env (begin_tx env w) ((begin_tx env w)\<lparr>ticks := k, w_settings := rows'\<rparr>)"
    by (rule handler_keeps_frame) (simp_all add: grows_def used_ids_def)
  then show "handler_keeps env w w'" unfolding w'' by (rule tx_event_keeps)
  have "same_storage (begin_tx env w) ((begin_tx env w)\<lparr>ticks := k, w_settings := rows'\<rparr>)"
    by (simp add: same_storage_def)
  then show "same_storage w w'" unfolding w'' by (rule tx_event_same)
qed

lemma tags_frame:
  assumes "tag_id ` set rows \<subseteq> tag_id ` set (w_tags w) \<union> uuid4 env ` {draws w..<k}" "draws w \<le> k"
  shows "handler_keeps env w (w\<lparr>draws := k, w_tags := rows\<rparr>)" "same_storage w (w\<lparr>draws := k, w_tags := rows\<rparr>)"
  by (rule handler_keeps_frame) (use assms in \<open>auto simp: grows_def used_ids_def same_storage_def\<close>)

lemma create_tag_keeps:
  assumes "create_tag env p w = Inr (r, w')"
  shows "handler_keeps env w w'" "same_storage w w'"
proof -
  let ?b = "begin_tx env w"
  let ?t = "\<lparr>tag_id = uuid4 env (draws ?b), tag_name = strip (tw_name p),
    tag_normalized_name = casefold env (strip (tw_name p)), tag_color = lower (tw_color p),
    tag_updated_at = w_now ?b, tag_version = 1\<rparr>"
  have w': "w' = add_event env ''tag.created'' (uuid4 env (draws ?b)) 1 None
      (?b\<lparr>draws := Suc (draws ?b), w_tags := w_tags ?b @ [?t]\<rparr>)"
    using assms by (auto simp: create_tag_def new_uuid_def Let_def split: if_splits sum.splits prod.splits)
  note F = tags_frame [of "w_tags ?b @ [?t]" ?b env "Suc (draws ?b)"]
  show "handler_keeps env w w'" "same_storage w w'"
    unfolding w' by (rule tx_event_keeps [OF F(1)] tx_event_same [OF F(2)]; simp)+
qed

lemma update_tag_keeps:
  assumes "update_tag env i p w = Inr (r, w')"
  shows "handler_keeps env w w'" "same_storage w w'"
proof -
  let ?b = "begin_tx env w"
  obtain t where t: "find (\<lambda>t. tag_id t = i) (w_tags ?b) = Some t"
    using assms by (auto simp: update_tag_def Let_def split: option.splits)
  define f :: "tag \<Rightarrow> tag" where "f = (\<lambda>t. t\<lparr>tag_name := strip (tw_name p), tag_normalized_name := casefold env (strip (tw_name p)),
    tag_color := lower (tw_color p), tag_updated_at := clock env (ticks ?b)\<rparr>)"
  have w': "w' = add_event env ''tag.updated'' (tag_id t) (tag_version t + 1) None
      (save_tag (tag_id t) f (?b\<lparr>ticks := Suc (ticks ?b)\<rparr>))"
    using assms t
    by (auto simp: update_tag_def utcnow_def f_def [abs_def] Let_def split: if_splits sum.splits prod.splits)
  let ?u = "save_tag (tag_id t) f (?b\<lparr>ticks := Suc (ticks ?b)\<rparr>)"
  have "handler_keeps env ?b ?u"
    by (rule handler_keeps_frame) (auto simp: save_tag_def grows_def used_ids_def f_def)
  then show "handler_keeps env w w'" unfolding w' by (rule tx_event_keeps)
  have "same_storage ?b ?u" by (simp add: same_storage_def save_tag_def)
  then show "same_storage w w'" unfolding w' by (rule tx_event_same)
qed

text \<open>Deleting a tag touches the notes and series that have it; none of them is purged.\<close>

lemma touch_note_storage:
  assumes "storage_ok w" "n \<in> set (w_notes w)" "n_purged_at n = None" "distinct (map n_id (w_notes w))"
  shows "storage_ok (touch_note now n w)"
proof -
  let ?f = "\<lambda>n. n\<lparr>n_updated_at := now\<rparr>" and ?g = "\<lambda>n. n\<lparr>n_updated_at := now, n_version := n_version n + 1\<rparr>"
  note P = storage_okD [OF assms(1)]
  have w': "w_notes (touch_note now n w) = update_where (\<lambda>m. n_id m = n_id n) ?g (w_notes w)"
    "w_series (touch_note now n w) = w_series w" "w_note_tags (touch_note now n w) = w_note_tags w"
    "w_series_tags (touch_note now n w) = w_series_tags w" "w_actions (touch_note now n w) = w_actions w"
    "w_members (touch_note now n w) = w_members w"
    by (simp_all add: touch_note_def save_note_def)
  show ?thesis
  proof (rule storage_okI)
    show "purge_ok (touch_note now n w)" by (rule purge_ok_pass [OF P(2) _ _ _ w'(1-4)]) simp_all
    show "series_known (touch_note now n w)" by (rule series_known_pass [OF P(3) _ w'(1,2)]) simp
    show "trash_ok (touch_note now n w)" by (rule trash_ok_pass [OF P(1) _ _ _ _ _ w'(1,5,6)]) simp_all
  qed
qed

lemma storage_ok_series_tags:
  assumes S: "storage_ok w" and t: "fst ` set tags \<subseteq> fst ` set (w_series_tags w)"
  shows "storage_ok (w\<lparr>w_series_tags := tags\<rparr>)" (is "storage_ok ?w")
proof (rule storage_okI)
  note P = storage_okD(2) [OF S]
  have same: "open_series ?w = open_series w" "purged_ids ?w = purged_ids w"
    by (simp_all add: open_series_def purged_ids_def)
  show "trash_ok ?w" using storage_okD(1) [OF S] trash_ok_cong [of ?w w] by simp
  show "series_known ?w" using storage_okD(3) [OF S] by (simp add: series_known_def)
  show "purge_ok ?w" using P order_trans [OF t purge_okD(3) [OF P]] by (simp add: purge_ok_def same)
qed

lemma touch_loop_storage:
  assumes "storage_ok w" "distinct (map n_id (w_notes w))" "set ns \<subseteq> {n \<in> set (w_notes w). n_purged_at n = None}"
    and "distinct (map n_id ns)"
  shows "storage_ok (fold (touch_note now) ns w)"
  using assms
proof (induction ns arbitrary: w)
  case (Cons n ns)
  let ?w = "touch_note now n w"
  have n: "n \<in> set (w_notes w)" "n_purged_at n = None" using Cons.prems(3) by auto
  have "map n_id (w_notes ?w) = map n_id (w_notes w)" by (simp add: touch_note_def save_note_ids)
  then have "distinct (map n_id (w_notes ?w))" using Cons.prems(2) by simp
  moreover have "m \<in> set (w_notes ?w) \<and> n_purged_at m = None" if "m \<in> set ns" for m
  proof -
    have "m \<in> set (w_notes w)" "n_purged_at m = None" "n_id m \<noteq> n_id n"
      using Cons.prems(3,4) that by (auto simp: image_iff)
    then show ?thesis unfolding touch_note_def using save_note_others by blast
  qed
  then have "set ns \<subseteq> {n \<in> set (w_notes ?w). n_purged_at n = None}" by blast
  ultimately show ?case
    using Cons.IH [of ?w] touch_note_storage [OF Cons.prems(1) n Cons.prems(2)] Cons.prems(4) by simp
qed simp

lemma delete_tag_keeps:
  assumes r: "delete_tag env i v w = Inr (r, w')" and S: "storage_ok w" and ok: "reminders_ok w"
  shows "handler_keeps env w w'" "storage_ok w'"
proof -
  let ?b = "begin_tx env w"
  let ?now = "clock env (ticks ?b)"
  let ?nt = "filter (\<lambda>(n, k). k \<noteq> i) (w_note_tags ?b)" and ?st = "filter (\<lambda>(s, k). k \<noteq> i) (w_series_tags ?b)"
  let ?tags = "filter (\<lambda>t. tag_id t \<noteq> i) (w_tags ?b)"
  define ss where "ss = sort_key rs_id (filter (\<lambda>s. rs_id s \<in> fst ` {x \<in> set (w_series_tags ?b). case x of (s, k) \<Rightarrow> k = i}) (w_series ?b))"
  define ns where "ns = sort_key n_id (filter (\<lambda>n. n_id n \<in> fst ` {x \<in> set (w_note_tags ?b). case x of (n, k) \<Rightarrow> k = i}) (w_notes ?b))"
  define u where "u = ?b\<lparr>w_note_tags := ?nt, w_series_tags := ?st, ticks := Suc (ticks ?b)\<rparr>"
  define v1 where "v1 = fold (touch_series ?now) ss u"
  define v2 where "v2 = fold (touch_note ?now) ns v1"
  obtain e where w': "w' = add_event env ''tag.deleted'' i e None (fold (series_event env) ss
      (v2\<lparr>w_tags := filter (\<lambda>t. tag_id t \<noteq> i) (w_tags v2)\<rparr>))"
    using r by (auto simp: delete_tag_def utcnow_def v1_def v2_def u_def ss_def ns_def Let_def split: option.splits if_splits)
  have B: "storage_ok ?b" by (rule begin_tx_storage [OF S])
  have okb: "reminders_ok ?b" by (rule begin_tx_ok(1) [OF ok])
  have dist: "distinct (map n_id (w_notes ?b))" by (rule rows_distinct [OF okb])
  have ns: "set ns \<subseteq> {n \<in> set (w_notes ?b). n_purged_at n = None}" "distinct (map n_id ns)"
  proof -
    have "n_purged_at n = None" if "n \<in> set ns" for n
    proof (rule ccontr)
      assume "n_purged_at n \<noteq> None"
      then have "n_id n \<in> purged_ids ?b" using that by (auto simp: ns_def purged_ids_def)
      moreover have "n_id n \<in> fst ` set (w_note_tags ?b)" using that by (force simp: ns_def)
      ultimately show False using purge_okD(1) [OF storage_okD(2) [OF B]] by blast
    qed
    then show "set ns \<subseteq> {n \<in> set (w_notes ?b). n_purged_at n = None}" by (auto simp: ns_def)
    show "distinct (map n_id ns)" unfolding ns_def by (rule selected_distinct [OF okb])
  qed
  have v1: "w_notes v1 = w_notes ?b"
    unfolding v1_def by (subst fold_constant) (simp_all add: touch_series_def save_series_def u_def)
  have "handler_keeps env ?b u" unfolding u_def by (rule handler_keeps_frame) (simp_all add: grows_def used_ids_def)
  moreover have "handler_keeps env u v1"
    unfolding v1_def touch_series_def [abs_def] by (rule fold_keeps) (rule save_series_keeps, simp)
  moreover have "handler_keeps env v1 v2"
    unfolding v2_def
  proof (rule row_loop_keeps)
    show "set ns \<subseteq> {n \<in> set (w_notes v1). changeable n}" using ns(1) by (auto simp: v1 changeable_def)
    show "handler_keeps env w (touch_note ?now n w)" if "n \<in> set (w_notes w)" "changeable n" for n w
      unfolding touch_note_def by (rule save_only_keeps) (simp_all add: that live_note_def)
  qed (auto simp: touch_note_def ns(2) intro: save_note_others)
  moreover have "handler_keeps env v2 (v2\<lparr>w_tags := filter (\<lambda>t. tag_id t \<noteq> i) (w_tags v2)\<rparr>)"
    by (rule handler_keeps_frame) (auto simp: grows_def used_ids_def)
  moreover have "handler_keeps env x (fold (series_event env) ss x)" for x
    unfolding series_event_def [abs_def] by (rule fold_keeps) (rule add_event_keeps)
  ultimately have "handler_keeps env ?b (fold (series_event env) ss
      (v2\<lparr>w_tags := filter (\<lambda>t. tag_id t \<noteq> i) (w_tags v2)\<rparr>))"
    by (meson handler_keeps_trans)
  then show "handler_keeps env w w'" unfolding w' by (rule tx_event_keeps)
  have "fst ` set ?nt \<subseteq> fst ` set (w_note_tags ?b)" "fst ` set ?st \<subseteq> fst ` set (w_series_tags ?b)" by auto
  then have "storage_ok (?b\<lparr>w_note_tags := ?nt, w_series_tags := ?st\<rparr>)"
    using storage_ok_series_tags [OF storage_ok_tags [OF B, of ?nt], of ?st] by (simp add: le_supI1)
  then have "storage_ok u" by (rule storage_step [rotated]) (simp add: u_def same_storage_def)
  then have "storage_ok v1"
    unfolding v1_def by (rule fold_storage [rotated]) (simp add: touch_series_def storage_ok_save_series)
  then have "storage_ok v2" unfolding v2_def by (rule touch_loop_storage) (use dist ns in \<open>simp_all add: v1\<close>)
  moreover have "same_storage v2 (v2\<lparr>w_tags := ts\<rparr>)" for ts by (simp add: same_storage_def)
  moreover have "same_storage x (fold (series_event env) ss x)" for x
    unfolding series_event_def [abs_def] by (rule fold_same_storage) simp
  ultimately show "storage_ok w'"
    unfolding w' by (blast intro: storage_step same_storage_steps(2))
qed

subsection \<open>All requests\<close>

datatype request = GetSettings | UpdateSettings settings_update
  | NewTag tag_write | EditTag uuid tag_update | RemoveTag uuid int
  | CreateNote note_fields | UpdateNote uuid note_update | DeleteNote uuid int "int option"
  | RestoreNote uuid restore_request
  | CreateSeries series_fields | SplitSeries uuid series_split | TrashPortion uuid portion_request
  | RestorePortion uuid portion_request | RestoreAction uuid int

definition world_of :: "error + 'a \<times> world \<Rightarrow> error + world" where
  "world_of result = try_then result (\<lambda>(r, w). Inr w)"

fun run_request :: "env \<Rightarrow> request \<Rightarrow> world \<Rightarrow> error + world" where
  "run_request env GetSettings w = world_of (get_profile_settings env w)"
| "run_request env (UpdateSettings p) w = world_of (update_profile_settings env p w)"
| "run_request env (NewTag p) w = world_of (create_tag env p w)"
| "run_request env (EditTag i p) w = world_of (update_tag env i p w)"
| "run_request env (RemoveTag i v) w = world_of (delete_tag env i v w)"
| "run_request env (CreateNote p) w = world_of (create_note env p w)"
| "run_request env (UpdateNote i p) w = world_of (update_note env i p w)"
| "run_request env (DeleteNote i v sv) w = world_of (delete_note env i v sv w)"
| "run_request env (RestoreNote i p) w = world_of (restore_note env i p w)"
| "run_request env (CreateSeries p) w = world_of (create_series env p w)"
| "run_request env (SplitSeries i p) w = world_of (split_series env i p w)"
| "run_request env (TrashPortion i p) w = world_of (trash_series_portion env i p w)"
| "run_request env (RestorePortion i p) w = world_of (restore_series_portion env i p w)"
| "run_request env (RestoreAction i v) w = world_of (restore_trash_action env i v w)"

text \<open>What the schema of the request has checked, where a proof needs it.\<close>

definition request_ok :: "request \<Rightarrow> bool" where
  "request_ok q = (case q of CreateSeries p \<Rightarrow> note_fields_ok p | _ \<Rightarrow> True)"

definition service_ok :: "env \<Rightarrow> world \<Rightarrow> bool" where
  "service_ok env w \<longleftrightarrow> reminders_ok w \<and> fresh env w \<and> storage_ok w"

lemma world_of_Inr [simp]: "world_of x = Inr w \<longleftrightarrow> (\<exists>r. x = Inr (r, w))"
  by (cases x) (auto simp: world_of_def)

lemma run_request_keeps:
  assumes I: "service_ok env w" and q: "request_ok q" and r: "run_request env q w = Inr w'"
  shows "handler_keeps env w w'" "storage_ok w'"
proof -
  have S: "storage_ok w" and ok: "reminders_ok w" "fresh env w" using I by (simp_all add: service_ok_def)
  have "handler_keeps env w w' \<and> storage_ok w'"
  proof (cases q)
    case GetSettings
    then show ?thesis using r get_profile_settings_keeps storage_step [OF _ S] by auto
  next
    case (UpdateSettings p)
    then show ?thesis using r update_profile_settings_keeps storage_step [OF _ S] by auto
  next
    case (NewTag p)
    then show ?thesis using r create_tag_keeps storage_step [OF _ S] by auto
  next
    case (EditTag i p)
    then show ?thesis using r update_tag_keeps storage_step [OF _ S] by auto
  next
    case (RemoveTag i v)
    then show ?thesis using r delete_tag_keeps [OF _ S ok(1)] by auto
  next
    case (CreateNote p)
    then show ?thesis using r create_note_keeps create_note_storage [OF _ S ok(2)] by auto
  next
    case (UpdateNote i p)
    then show ?thesis using r update_note_keeps update_note_storage [OF _ S ok(1)] by auto
  next
    case (DeleteNote i v sv)
    then show ?thesis using r delete_note_keeps delete_note_storage [OF _ S ok(1)] by auto
  next
    case (RestoreNote i p)
    then show ?thesis using r restore_note_keeps restore_note_storage [OF _ S ok(1)] by auto
  next
    case (CreateSeries p)
    then have "note_fields_ok p" using q by (simp add: request_ok_def)
    with CreateSeries show ?thesis using r create_series_keeps create_series_storage [OF _ _ S ok] by auto
  next
    case (SplitSeries i p)
    then show ?thesis using r split_series_keeps split_series_storage [OF _ S ok] by auto
  next
    case (TrashPortion i p)
    then show ?thesis using r trash_series_portion_keeps trash_series_portion_storage [OF _ S ok] by auto
  next
    case (RestorePortion i p)
    then show ?thesis using r restore_series_portion_keeps restore_series_portion_storage [OF _ S ok(1)] by auto
  next
    case (RestoreAction i v)
    then show ?thesis using r restore_trash_action_keeps restore_trash_action_storage [OF _ S ok(1)] by auto
  qed
  then show "handler_keeps env w w'" "storage_ok w'" by auto
qed

lemma accepted_request_keeps:
  assumes "service_ok env w" "request_ok q" "run_request env q w = Inr w'"
  shows "service_ok env w' \<and> history w \<subseteq> history w' \<and> purged_notes w \<subseteq> purged_notes w'"
  using run_request_keeps [OF assms] assms(1) by (simp add: service_ok_def handler_keeps_def)

lemma sample_service_ok: "service_ok sample_env sample_world"
  using sample_reminders_ok sample_fresh
  by (simp add: service_ok_def storage_ok_def trash_ok_def purge_ok_def series_known_def purged_ids_def
      open_series_def sample_defs)

lemma sample_delete:
  "\<exists>w'. delete_note sample_env 1 1 None sample_world = Inr ((), w')
    \<and> map n_deleted_at (w_notes w') = [Some 2000000] \<and> map d_state (w_deliveries w') = [Cancelled]"
proof -
  have "case delete_note sample_env 1 1 None sample_world of Inl e \<Rightarrow> False | Inr (r, w') \<Rightarrow>
      map n_deleted_at (w_notes w') = [Some 2000000] \<and> map d_state (w_deliveries w') = [Cancelled]"
    by (simp add: delete_note_def locked_note_and_series_def require_note_def lock_series_def check_note_version_def
        begin_tx_def utcnow_def sample_env_def sample_defs save_def save_note_def update_where_def enabled_offsets_def
        reconcile_reminders_def rules_of_def reconcile_rule_def current_delivery_def cancel_current_def live_note_def
        set_rule_def set_delivery_def cancel_delivery_def set_exception_def note_event_def row_simps Let_def)
  then show ?thesis by (auto split: sum.splits)
qed

end
