(* ===== verification/Api.thy ===== *)
theory Api
  imports Requests Listing Validation
begin

section \<open>The API from the body to the answer (app/api/router.py, app/main.py)\<close>

text \<open>
  \<open>call\<close> is a request as it arrives at its route, \<open>serve\<close> the whole treatment of it: the validation
  of its body and parameters, the handler and its transaction, and the answer, in which every
  error goes through the registered exception handlers. A transaction that fails is rolled back,
  and the routes that only read commit nothing. \<open>msg\<close> are pydantic's messages.
\<close>

record list_query =
  lq_q :: "string option"
  lq_tag_id :: "uuid list option"
  lq_active :: "bool option"
  lq_starts_from :: "datetime option"
  lq_starts_to :: "datetime option"
  lq_trash :: bool
  lq_sort :: string
  lq_direction :: string
  lq_page :: int
  lq_page_size :: int

datatype call =
  CallGetSettings | CallUpdateSettings settings_update
| CallListTags | CallCreateTag tag_write | CallUpdateTag uuid tag_update | CallDeleteTag uuid int
| CallCreateNote note_json | CallGetNote uuid | CallUpdateNote uuid note_update_json
| CallDeleteNote uuid int "int option" | CallRestoreNote uuid restore_request
| CallListNotes list_query | CallCalendar datetime datetime | CallUpcoming int int
| CallNotifications int int | CallListTrashGroups int int
| CallCreateSeries series_json | CallGetSeries uuid | CallSplitSeries uuid split_json
| CallTrashPortion uuid portion_json | CallRestorePortion uuid portion_json
| CallRestoreAction uuid int | CallPreviewSeries preview_json

datatype answer =
  NoContent | SettingsAnswer settings_response | TagAnswer tag_response | TagsAnswer "tag_response list"
| NoteAnswer note_response | NotesAnswer "note_response list" | NotePageAnswer "note_response page"
| UpcomingAnswer upcoming_response | NotificationPageAnswer "notification_response page"
| TrashPageAnswer "trash_group page" | SeriesAnswer series_response | PreviewAnswer preview_response

definition page_errors :: "(rule \<Rightarrow> string) \<Rightarrow> int \<Rightarrow> int \<Rightarrow> errors" where
  "page_errors msg p per_page =
     version_from msg [''query'', ''page''] p @ version_from msg [''query'', ''page_size''] per_page
     @ demand (per_page \<le> 100) [''query'', ''page_size''] (msg (AtMost 100))"

definition sort_column_of :: "string \<Rightarrow> sort_column option" where
  "sort_column_of s = map_of [(''starts_at'', ByStart), (''updated_at'', ByUpdate)] s"

definition direction_of :: "string \<Rightarrow> direction option" where
  "direction_of s = map_of [(''asc'', Asc), (''desc'', Desc)] s"

definition list_query_errors :: "(rule \<Rightarrow> string) \<Rightarrow> list_query \<Rightarrow> errors" where
  "list_query_errors msg q =
     demand (sort_column_of (lq_sort q) \<noteq> None) [''query'', ''sort''] (msg NotOneOf)
     @ demand (direction_of (lq_direction q) \<noteq> None) [''query'', ''direction''] (msg NotOneOf)
     @ page_errors msg (lq_page q) (lq_page_size q)"

subsection \<open>Routes\<close>

text \<open>
  A route ends with the errors of its body, or with the result of its handler. \<open>commits\<close> is a handler
  with a transaction, \<open>reads\<close> one without.
\<close>

definition routed :: "errors + 'p \<Rightarrow> ('p \<Rightarrow> error + 'b) \<Rightarrow> errors + (error + 'b)" where
  "routed body handler = (case body of Inl errs \<Rightarrow> Inl errs | Inr p \<Rightarrow> Inr (handler p))"

definition accepted :: "errors \<Rightarrow> 'p \<Rightarrow> errors + 'p" where
  "accepted errs p = (if errs = [] then Inr p else Inl errs)"

definition commits :: "('a \<Rightarrow> answer) \<Rightarrow> error + 'a \<times> world \<Rightarrow> error + answer \<times> world option" where
  "commits f result = try_then result (\<lambda>(r, w). Inr (f r, Some w))"

definition reads :: "('a \<Rightarrow> answer) \<Rightarrow> error + 'a \<Rightarrow> error + answer \<times> world option" where
  "reads f result = try_then result (\<lambda>r. Inr (f r, None))"

fun route :: "env \<Rightarrow> (rule \<Rightarrow> string) \<Rightarrow> call \<Rightarrow> world \<Rightarrow> errors + (error + answer \<times> world option)" where
  "route env msg CallGetSettings w = Inr (commits SettingsAnswer (get_profile_settings env w))"
| "route env msg (CallUpdateSettings p) w =
     routed (accepted (settings_errors msg p) p) (\<lambda>p. commits SettingsAnswer (update_profile_settings env p w))"
| "route env msg CallListTags w = Inr (reads TagsAnswer (Inr (list_tags env w)))"
| "route env msg (CallCreateTag p) w =
     routed (accepted (tag_errors msg p) p) (\<lambda>p. commits TagAnswer (create_tag env p w))"
| "route env msg (CallUpdateTag i p) w =
     routed (accepted (tag_update_errors msg p) p) (\<lambda>p. commits TagAnswer (update_tag env i p w))"
| "route env msg (CallDeleteTag i v) w =
     routed (accepted (version_from msg [''query'', ''expected_version''] v) v)
       (\<lambda>v. commits (\<lambda>_. NoContent) (delete_tag env i v w))"
| "route env msg (CallCreateNote j) w =
     routed (note_create msg j) (\<lambda>p. commits NoteAnswer (create_note env p w))"
| "route env msg (CallGetNote i) w = Inr (reads NoteAnswer (get_note env i w))"
| "route env msg (CallUpdateNote i j) w =
     routed (note_update_of msg j) (\<lambda>p. commits NoteAnswer (update_note env i p w))"
| "route env msg (CallDeleteNote i v sv) w =
     routed (accepted (version_from msg [''query'', ''expected_version''] v
         @ optional_version msg [''query'', ''expected_series_version''] sv) (v, sv))
       (\<lambda>(v, sv). commits (\<lambda>_. NoContent) (delete_note env i v sv w))"
| "route env msg (CallRestoreNote i p) w =
     routed (accepted (restore_errors msg p) p) (\<lambda>p. commits NoteAnswer (restore_note env i p w))"
| "route env msg (CallListNotes q) w =
     routed (checked (list_query_errors msg q)
         (case (sort_column_of (lq_sort q), direction_of (lq_direction q)) of
            (Some col, Some dir) \<Rightarrow> Some (col, dir) | _ \<Rightarrow> None))
       (\<lambda>(col, dir). reads NotePageAnswer (list_notes env (lq_q q)
          (case lq_tag_id q of None \<Rightarrow> [] | Some ids \<Rightarrow> ids) (lq_active q) (lq_starts_from q) (lq_starts_to q)
          (lq_trash q) col dir (nat (lq_page q)) (nat (lq_page_size q)) w))"
| "route env msg (CallCalendar a b) w = Inr (reads NotesAnswer (calendar env a b w))"
| "route env msg (CallUpcoming p n) w =
     routed (accepted (page_errors msg p n) (nat p, nat n))
       (\<lambda>(p, n). reads UpcomingAnswer (try_then (upcoming env p n w) (\<lambda>(r, w). Inr r)))"
| "route env msg (CallNotifications p n) w =
     routed (accepted (page_errors msg p n) (nat p, nat n))
       (\<lambda>(p, n). reads NotificationPageAnswer (Inr (notifications p n w)))"
| "route env msg (CallListTrashGroups p n) w =
     routed (accepted (page_errors msg p n) (nat p, nat n))
       (\<lambda>(p, n). reads TrashPageAnswer (Inr (list_trash_groups env p n w)))"
| "route env msg (CallCreateSeries j) w =
     routed (series_create msg j) (\<lambda>p. commits SeriesAnswer (create_series env p w))"
| "route env msg (CallGetSeries i) w = Inr (reads SeriesAnswer (get_series i w))"
| "route env msg (CallSplitSeries i j) w =
     routed (split_of msg j) (\<lambda>p. commits SeriesAnswer (split_series env i p w))"
| "route env msg (CallTrashPortion i j) w =
     routed (portion_of msg j) (\<lambda>p. commits (\<lambda>_. NoContent) (trash_series_portion env i p w))"
| "route env msg (CallRestorePortion i j) w =
     routed (portion_of msg j) (\<lambda>p. commits SeriesAnswer (restore_series_portion env i p w))"
| "route env msg (CallRestoreAction i v) w =
     routed (accepted (restore_action_errors msg v) v)
       (\<lambda>v. commits SeriesAnswer (restore_trash_action env i v w))"
| "route env msg (CallPreviewSeries j) w =
     routed (preview_of msg j) (\<lambda>p. reads PreviewAnswer (preview_series env p))"

text \<open>The \<open>status_code\<close> of the routes.\<close>

definition success_status :: "call \<Rightarrow> int" where
  "success_status c =
     (case c of
        CallCreateTag p \<Rightarrow> 201 | CallCreateNote j \<Rightarrow> 201 | CallCreateSeries j \<Rightarrow> 201
      | CallDeleteTag i v \<Rightarrow> 204 | CallDeleteNote i v sv \<Rightarrow> 204 | CallTrashPortion i j \<Rightarrow> 204
      | _ \<Rightarrow> 200)"

datatype http_answer = Success int answer | Failure int error_body | ServerError

definition serve :: "env \<Rightarrow> (rule \<Rightarrow> string) \<Rightarrow> call \<Rightarrow> world \<Rightarrow> http_answer \<times> world" where
  "serve env msg c w =
     (case route env msg c w of
        Inl errs \<Rightarrow> (let (status, b) = handle_validation_error errs in (Failure status b, w))
      | Inr (Inl e) \<Rightarrow> (case handle_error e of None \<Rightarrow> ServerError | Some (status, b) \<Rightarrow> Failure status b, w)
      | Inr (Inr (r, w')) \<Rightarrow> (Success (success_status c) r, case w' of None \<Rightarrow> w | Some w' \<Rightarrow> w'))"

subsection \<open>Every call keeps the contracts\<close>

lemma routed_Inr [simp]: "routed c h = Inr x \<longleftrightarrow> (\<exists>p. c = Inr p \<and> h p = x)"
  by (auto simp: routed_def split: sum.splits)

lemma commits_Inr [simp]: "commits f r = Inr (a, v) \<longleftrightarrow> (\<exists>b w. r = Inr (b, w) \<and> a = f b \<and> v = Some w)"
  by (cases r) (auto simp: commits_def)

lemma reads_Inr [simp]: "reads f r = Inr (a, v) \<longleftrightarrow> (\<exists>b. r = Inr b \<and> a = f b \<and> v = None)"
  by (cases r) (auto simp: reads_def)

lemma parse_series_fields_ok: "parse_series_fields j = Some p \<Longrightarrow> note_fields_ok p"
  using parse_note_fields_ok
  by (fastforce simp: parse_series_fields_def note_fields_ok_def note_fields.defs split: option.splits)

text \<open>A call that changes the world is an accepted request.\<close>

lemma route_is_request:
  assumes "route env msg c w = Inr (Inr (r, Some w'))"
  shows "\<exists>q. request_ok q \<and> run_request env q w = Inr w'"
proof -
  let ?P = "\<lambda>q. request_ok q \<and> run_request env q w = Inr w'"
  have E: "\<exists>q. ?P q" if "?P q" for q using that by blast
  show ?thesis
  proof (cases c)
    case CallGetSettings
    then show ?thesis using assms by (intro E [of GetSettings]) (auto simp: request_ok_def)
  next
    case (CallUpdateSettings p)
    then show ?thesis using assms by (intro E [of "UpdateSettings p"]) (auto simp: request_ok_def accepted_def split: if_splits)
  next
    case (CallCreateTag p)
    then show ?thesis using assms by (intro E [of "NewTag p"]) (auto simp: request_ok_def accepted_def split: if_splits)
  next
    case (CallUpdateTag i p)
    then show ?thesis using assms by (intro E [of "EditTag i p"]) (auto simp: request_ok_def accepted_def split: if_splits)
  next
    case (CallDeleteTag i v)
    then show ?thesis using assms by (intro E [of "RemoveTag i v"]) (auto simp: request_ok_def accepted_def split: if_splits)
  next
    case (CallDeleteNote i v sv)
    then show ?thesis using assms by (intro E [of "DeleteNote i v sv"]) (auto simp: request_ok_def accepted_def split: if_splits)
  next
    case (CallRestoreNote i p)
    then show ?thesis using assms by (intro E [of "RestoreNote i p"]) (auto simp: request_ok_def accepted_def split: if_splits)
  next
    case (CallRestoreAction i v)
    then show ?thesis using assms by (intro E [of "RestoreAction i v"]) (auto simp: request_ok_def accepted_def split: if_splits)
  next
    case (CallCreateNote j)
    then obtain p x where "create_note env p w = Inr (x, w')" using assms by auto
    then show ?thesis by (intro E [of "CreateNote p"]) (simp add: request_ok_def)
  next
    case (CallUpdateNote i j)
    then obtain p x where "update_note env i p w = Inr (x, w')" using assms by auto
    then show ?thesis by (intro E [of "UpdateNote i p"]) (simp add: request_ok_def)
  next
    case (CallSplitSeries i j)
    then obtain p x where "split_series env i p w = Inr (x, w')" using assms by auto
    then show ?thesis by (intro E [of "SplitSeries i p"]) (simp add: request_ok_def)
  next
    case (CallTrashPortion i j)
    then obtain p x where "trash_series_portion env i p w = Inr (x, w')" using assms by auto
    then show ?thesis by (intro E [of "TrashPortion i p"]) (simp add: request_ok_def)
  next
    case (CallRestorePortion i j)
    then obtain p x where "restore_series_portion env i p w = Inr (x, w')" using assms by auto
    then show ?thesis by (intro E [of "RestorePortion i p"]) (simp add: request_ok_def)
  next
    case (CallCreateSeries j)
    then obtain p x where p: "parse_series_fields j = Some p" "create_series env p w = Inr (x, w')"
      using assms by (auto simp: series_create_def)
    then show ?thesis
      using parse_series_fields_ok [OF p(1)] by (intro E [of "CreateSeries p"]) (simp add: request_ok_def)
  qed (use assms in \<open>auto simp: split: prod.splits\<close>)
qed

lemma served_keeps:
  assumes "service_ok env w" "serve env msg c w = (r, w')"
  shows "service_ok env w' \<and> history w \<subseteq> history w' \<and> purged_notes w \<subseteq> purged_notes w'"
proof (cases "\<exists>a. route env msg c w = Inr (Inr (a, Some w'))")
  case True
  then obtain q where "request_ok q" "run_request env q w = Inr w'" using route_is_request by blast
  then show ?thesis by (rule accepted_request_keeps [OF assms(1)])
next
  case False
  then have "w' = w" using assms(2) by (auto simp: serve_def Let_def split: sum.splits option.splits prod.splits)
  then show ?thesis using assms(1) by simp
qed



end
