(* ===== verification/Purge.thy ===== *)
theory Purge
  imports Requests
begin

section \<open>The purge\<close>

text \<open>
  \<open>purge_trash\<close> takes the members of a trash action all or none, because they were deleted at one
  instant; it keeps the storage contract, and the invariant of reminders as long as no attempt of
  a purged note is still without an outcome, whose snapshots the CHECK constraint asks for.
\<close>

subsection \<open>The purged rows\<close>

definition purge_selection :: "instant \<Rightarrow> nat \<Rightarrow> world \<Rightarrow> note_row list" where
  "purge_selection cutoff limit w =
     sort_key n_id (filter (\<lambda>n. n_id n \<in> fst ` set (purge_candidates cutoff limit w) \<and> expired cutoff n) (w_notes w))"

lemma purge_trash_eq:
  "purge_trash env now retention_days limit w =
     (let notes = purge_selection (now - days retention_days) limit w;
          sids = sort (remdups (concat (map (\<lambda>(_, s, _). case s of None \<Rightarrow> [] | Some s \<Rightarrow> [s])
            (purge_candidates (now - days retention_days) limit w))))
      in (length notes, fold (purge_event env now) notes (fold (close_series now) sids (purge_rows now notes w))))"
  by (simp add: purge_trash_def purge_selection_def Let_def)

definition first_rows :: "instant \<Rightarrow> nat \<Rightarrow> world \<Rightarrow> note_row list" where
  "first_rows cutoff limit w = take limit (sort_key n_id (filter (expired cutoff) (w_notes w)))"

lemma member_ids:
  "fst ` set (concat (map (\<lambda>(a, i). map (\<lambda>n. (n_id n, n_series_id n, Some a)) (filter (\<lambda>n. n_id n = i \<and> n_trash_action_id n = Some a) rows))
     (filter (\<lambda>(a, i). a \<in> A) L))) =
   (\<Union>(a, j) \<in> {(a, j) \<in> set L. a \<in> A}. n_id ` {n \<in> set rows. n_id n = j \<and> n_trash_action_id n = Some a})"
  by (induction L) (auto simp: image_image image_Un)

lemma candidate_ids:
  "i \<in> fst ` set (purge_candidates cutoff limit w) \<longleftrightarrow>
     i \<in> n_id ` set (first_rows cutoff limit w)
     \<or> (\<exists>m \<in> set (w_notes w). \<exists>a. n_id m = i \<and> n_trash_action_id m = Some a \<and> (a, i) \<in> set (w_members w)
          \<and> (\<exists>n \<in> set (first_rows cutoff limit w). n_trash_action_id n = Some a))"
proof -
  let ?rows = "first_rows cutoff limit w"
  let ?acts = "concat (map (\<lambda>(_, _, a). case a of None \<Rightarrow> [] | Some a \<Rightarrow> [a])
     (map (\<lambda>n. (n_id n, n_series_id n, n_trash_action_id n)) ?rows))"
  have acts: "a \<in> set ?acts \<longleftrightarrow> (\<exists>n \<in> set ?rows. n_trash_action_id n = Some a)" for a
    by (auto split: option.splits) (metis (no_types) list.set_intros(1) option.simps(5))
  have "fst ` set (purge_candidates cutoff limit w) = n_id ` set ?rows
      \<union> (\<Union>(a, j) \<in> {(a, j) \<in> set (w_members w). a \<in> set ?acts}.
           n_id ` {n \<in> set (w_notes w). n_id n = j \<and> n_trash_action_id n = Some a})"
    unfolding purge_candidates_def Let_def first_rows_def [symmetric] set_remdups set_append image_Un member_ids
    by (simp add: image_image)
  then show ?thesis unfolding acts by (simp only: Un_iff) blast
qed

lemma expired_deleted: "expired cutoff n \<Longrightarrow> n_deleted_at n \<noteq> None \<and> n_purged_at n = None"
  by (auto simp: expired_def split: option.splits)

text \<open>A row that leaves its action takes the other members along.\<close>

lemma purge_selection_whole:
  assumes T: "trash_ok w" and dist: "distinct (map n_id (w_notes w))"
    and x: "x \<in> set (w_notes w)" "n_trash_action_id x = Some a"
    and y: "y \<in> set (purge_selection cutoff limit w)" "n_trash_action_id y = Some a"
  shows "x \<in> set (purge_selection cutoff limit w)"
proof -
  have yw: "y \<in> set (w_notes w)" "expired cutoff y" "n_id y \<in> fst ` set (purge_candidates cutoff limit w)"
    using y(1) by (auto simp: purge_selection_def)
  have row: "n = y" if "n \<in> set (w_notes w)" "n_id n = n_id y" for n
    by (rule distinct_map_eqD [OF dist that(1) yw(1) that(2)])
  have rows: "set (first_rows cutoff limit w) \<subseteq> set (w_notes w)" by (auto simp: first_rows_def dest: in_set_takeD)
  have n: "\<exists>n \<in> set (first_rows cutoff limit w). n_trash_action_id n = Some a"
    using yw(3) unfolding candidate_ids
  proof
    assume "n_id y \<in> n_id ` set (first_rows cutoff limit w)"
    then obtain n where "n \<in> set (first_rows cutoff limit w)" "n_id n = n_id y" by auto
    then show ?thesis using row rows y(2) by blast
  next
    assume "\<exists>m \<in> set (w_notes w). \<exists>b. n_id m = n_id y \<and> n_trash_action_id m = Some b \<and> (b, n_id y) \<in> set (w_members w)
        \<and> (\<exists>n \<in> set (first_rows cutoff limit w). n_trash_action_id n = Some b)"
    then show ?thesis using row y(2) by fastforce
  qed
  have act: "in_action w x a" "in_action w y a" using trash_okD(1) [OF T] x yw(1) y(2) by blast+
  then obtain k l where kl: "k \<in> set (w_actions w)" "ta_id k = a" "n_deleted_at x = Some (ta_trashed_at k)"
    "l \<in> set (w_actions w)" "ta_id l = a" "n_deleted_at y = Some (ta_trashed_at l)"
    by (auto simp: in_action_def)
  then have "k = l" using distinct_map_eqD [OF trash_okD(4) [OF T]] by metis
  then have ex: "expired cutoff x"
    using kl yw(2) trash_okD(1) [OF T x] by (auto simp: expired_def split: option.splits)
  have "(a, n_id x) \<in> set (w_members w)" using act(1) by (simp add: in_action_def)
  then have "n_id x \<in> fst ` set (purge_candidates cutoff limit w)"
    unfolding candidate_ids using n x by blast
  with x(1) ex show ?thesis by (simp add: purge_selection_def)
qed

subsection \<open>The contract after the rows\<close>

definition purged_row :: "instant \<Rightarrow> note_row \<Rightarrow> note_row" where
  "purged_row now m = (purge_note now m)\<lparr>n_version := n_version m + 1\<rparr>"

lemma purged_row_simps [simp]:
  "n_id (purged_row now m) = n_id m" "n_trash_action_id (purged_row now m) = None"
  "n_purged_at (purged_row now m) = Some now" "n_series_id (purged_row now m) = n_series_id m"
  "n_deleted_at (purged_row now m) = n_deleted_at m" "n_starts_at (purged_row now m) = n_starts_at m"
  "live_note (purged_row now m) \<longleftrightarrow> False"
  by (simp_all add: purged_row_def purge_note_def live_note_def)

lemma purge_loop:
  assumes "distinct (map n_id ns)"
  shows "fold (\<lambda>n. save_note (n_id n) (purge_note now)) ns w =
    w\<lparr>w_notes := update_where (\<lambda>m. n_id m \<in> n_id ` set ns) (purged_row now) (w_notes w)\<rparr>"
  using assms
proof (induction ns arbitrary: w)
  case (Cons n ns)
  then have "n_id n \<notin> n_id ` set ns" by simp
  then have "update_where (\<lambda>m. n_id m \<in> n_id ` set ns) (purged_row now)
      (update_where (\<lambda>m. n_id m = n_id n) (purged_row now) rows) =
    update_where (\<lambda>m. n_id m \<in> n_id ` set (n # ns)) (purged_row now) rows" for rows
    unfolding update_where_def by (induction rows) auto
  with Cons show ?case by (simp add: save_note_def purged_row_def [symmetric])
qed (simp add: update_where_def)

lemma purge_rows_tables:
  assumes "distinct (map n_id ns)"
  shows "w_notes (purge_rows now ns w) = update_where (\<lambda>m. n_id m \<in> n_id ` set ns) (purged_row now) (w_notes w)"
    "w_note_tags (purge_rows now ns w) = filter (\<lambda>(i, k). i \<notin> n_id ` set ns) (w_note_tags w)"
    "w_series (purge_rows now ns w) = w_series w" "w_series_tags (purge_rows now ns w) = w_series_tags w"
    "w_actions (purge_rows now ns w) = w_actions w" "w_members (purge_rows now ns w) = w_members w"
    "w_rules (purge_rows now ns w) = w_rules w" "draws (purge_rows now ns w) = draws w"
    "\<exists>p. w_deliveries (purge_rows now ns w) = update_where p drop_snapshots (w_deliveries w)"
    "used_ids (purge_rows now ns w) = used_ids w"
  unfolding purge_rows_def Let_def purge_loop [OF assms] used_ids_def
  by (auto simp: drop_snapshots_def)

lemma purge_rows_storage:
  assumes S: "storage_ok w" and ok: "reminders_ok w"
  shows "storage_ok (purge_rows now (purge_selection cutoff limit w) w)" (is "storage_ok ?w")
proof -
  let ?ns = "purge_selection cutoff limit w"
  have dist: "distinct (map n_id (w_notes w))" by (rule rows_distinct [OF ok])
  have dns: "distinct (map n_id ?ns)" unfolding purge_selection_def by (rule selected_distinct [OF ok])
  note tab = purge_rows_tables [OF dns, of now w]
  have sub: "set ?ns \<subseteq> set (w_notes w)" by (auto simp: purge_selection_def)
  have row: "m \<in> set ?ns" if m: "m \<in> set (w_notes w)" "n_id m \<in> n_id ` set ?ns" for m
  proof -
    obtain n where n: "n \<in> set ?ns" "n_id m = n_id n" using m(2) by auto
    then have "n \<in> set (w_notes w)" using sub by blast
    then have "m = n" using distinct_map_eqD [OF dist m(1)] n(2) by blast
    with n(1) show ?thesis by simp
  qed
  note P = storage_okD(2) [OF S]
  have op: "open_series ?w = open_series w" by (simp add: open_series_def tab)
  have ids: "n_id ` set (w_notes ?w) = n_id ` set (w_notes w)" by (simp add: tab(1))
  have pur: "purged_ids ?w \<subseteq> purged_ids w \<union> n_id ` set ?ns"
  proof
    fix i assume "i \<in> purged_ids ?w"
    then obtain x where x: "x \<in> set (w_notes ?w)" "n_purged_at x \<noteq> None" "i = n_id x" by (auto simp: purged_ids_def)
    obtain y where y: "y \<in> set (w_notes w)" "x = (if n_id y \<in> n_id ` set ?ns then purged_row now y else y)"
      using x(1) unfolding tab(1) by (rule updated_row)
    then show "i \<in> purged_ids w \<union> n_id ` set ?ns" using x by (auto simp: purged_ids_def split: if_splits)
  qed
  show ?thesis
  proof (rule storage_okI)
    show "trash_ok ?w"
    proof (rule trash_ok_leave [OF storage_okD(1) [OF S] dist _ _ _ tab(1,5,6)])
      fix x y a assume xy: "x \<in> set (w_notes w)" "y \<in> set (w_notes w)" "n_trash_action_id x = Some a"
        "n_trash_action_id y = Some a" "n_id y \<in> n_id ` set ?ns"
      from purge_selection_whole [OF storage_okD(1) [OF S] dist xy(1,3) row [OF xy(2,5)] xy(4)]
      show "n_id x \<in> n_id ` set ?ns" by simp
    qed simp_all
    show "series_known ?w" by (rule series_known_pass [OF storage_okD(3) [OF S] _ tab(1,3)]) simp
    show "purge_ok ?w"
      unfolding purge_ok_def op ids tab(3,4)
    proof (intro conjI ballI allI impI)
      have "fst ` set (w_note_tags ?w) \<subseteq> fst ` set (w_note_tags w) - n_id ` set ?ns" by (auto simp: tab(2))
      then show "purged_ids ?w \<inter> fst ` set (w_note_tags ?w) = {}" "fst ` set (w_note_tags ?w) \<subseteq> n_id ` set (w_notes w)"
        using pur purge_okD(1,2) [OF P] by blast+
      fix x sid assume x: "x \<in> set (w_notes ?w)" "n_series_id x = Some sid" "n_purged_at x = None"
      obtain y where y: "y \<in> set (w_notes w)" "x = (if n_id y \<in> n_id ` set ?ns then purged_row now y else y)"
        using x(1) unfolding tab(1) by (rule updated_row)
      then show "sid \<in> open_series w" using purge_okD(4) [OF P y(1)] x(2,3) by (auto split: if_splits)
    qed (rule purge_okD [OF P])+
  qed
qed

lemma close_series_cases:
  obtains "close_series now sid w = w"
    | "\<forall>n \<in> set (w_notes w). n_series_id n = Some sid \<longrightarrow> n_purged_at n \<noteq> None"
      "close_series now sid w = save_series sid (purge_series_row now)
        (w\<lparr>w_series_tags := filter (\<lambda>(s, k). s \<noteq> sid) (w_series_tags w),
           w_templates := filter (\<lambda>(s, m). s \<noteq> sid) (w_templates w),
           w_exceptions := update_where (\<lambda>x. oe_series_id x = sid)
             (\<lambda>x. x\<lparr>oe_cancelled := True, oe_overridden_fields := []\<rparr>) (w_exceptions w)\<rparr>)"
  by (cases "close_series now sid w = w"; auto simp: close_series_def split: if_splits option.splits)

lemma close_series_keeps: "handler_keeps env w (close_series now sid w)"
proof (cases rule: close_series_cases [of now sid w])
  case 1
  then show ?thesis by (simp add: handler_keeps_refl)
next
  case 2
  show ?thesis
    unfolding 2(2)
    by (rule handler_keeps_trans [OF handler_keeps_frame save_series_keeps])
      (auto simp: purge_series_row_def grows_def used_ids_def row_simps)
qed

lemma close_series_storage:
  assumes S: "storage_ok w"
  shows "storage_ok (close_series now sid w)"
proof (cases rule: close_series_cases [of now sid w])
  case 1
  with S show ?thesis by simp
next
  case 2
  let ?w = "close_series now sid w"
  let ?f = "\<lambda>s. (purge_series_row now s)\<lparr>rs_version := rs_version s + 1\<rparr>"
  note P = storage_okD(2) [OF S]
  have tab: "w_notes ?w = w_notes w" "w_actions ?w = w_actions w" "w_members ?w = w_members w"
    "w_note_tags ?w = w_note_tags w" "w_series_tags ?w = filter (\<lambda>(s, k). s \<noteq> sid) (w_series_tags w)"
    "w_series ?w = update_where (\<lambda>s. rs_id s = sid) ?f (w_series w)"
    unfolding 2(2) by (simp_all add: save_series_def)
  have id: "rs_id (?f s) = rs_id s" for s by (simp add: purge_series_row_def)
  have ids: "rs_id ` set (w_series ?w) = rs_id ` set (w_series w)" "map rs_id (w_series ?w) = map rs_id (w_series w)"
    by (simp_all add: tab(6) id)
  have pur: "purged_ids ?w = purged_ids w" by (simp add: purged_ids_def tab)
  have "rs_id ` {s \<in> set (w_series ?w). rs_purged_at s \<noteq> None} \<subseteq> insert sid (rs_id ` {s \<in> set (w_series w). rs_purged_at s \<noteq> None})"
    by (auto simp: tab(6) set_update_where id split: if_splits)
  then have op: "open_series w - {sid} \<subseteq> open_series ?w" unfolding open_series_def ids by blast
  show ?thesis
  proof (rule storage_okI)
    show "trash_ok ?w" using storage_okD(1) [OF S] trash_ok_cong [of ?w w] tab by simp
    show "series_known ?w" using storage_okD(3) [OF S] unfolding series_known_def ids(1) tab(1) .
    show "purge_ok ?w"
      unfolding purge_ok_def pur tab(1,4) ids(2)
    proof (intro conjI ballI allI impI)
      have "fst ` set (w_series_tags ?w) \<subseteq> fst ` set (w_series_tags w) - {sid}" by (auto simp: tab(5))
      then show "fst ` set (w_series_tags ?w) \<subseteq> open_series ?w" using purge_okD(3) [OF P] op by blast
      fix n i assume n: "n \<in> set (w_notes w)" "n_series_id n = Some i" "n_purged_at n = None"
      then have "i \<noteq> sid" using 2(1) by blast
      then show "i \<in> open_series ?w" using purge_okD(4) [OF P n] op by blast
    qed (rule purge_okD [OF P])+
  qed
qed

lemma purge_event_keeps: "handler_keeps env w (purge_event env now n w)" "same_storage w (purge_event env now n w)"
  by (rule handler_keeps_frame) (auto simp: purge_event_def new_uuid_def grows_def used_ids_def same_storage_def Let_def)

subsection \<open>Reminders across the purge\<close>

lemma notes_pass_reminders:
  assumes ok: "reminders_ok w" and w': "w_notes w' = update_where p g (w_notes w)" "w_rules w' = w_rules w"
      "w_deliveries w' = w_deliveries w"
    and g: "\<And>m. n_id (g m) = n_id m" "\<And>m. n_starts_at (g m) = n_starts_at m"
      "\<And>m. m \<in> set (w_notes w) \<Longrightarrow> p m \<Longrightarrow> live_note m \<Longrightarrow> live_note (g m)"
  shows "reminders_ok w'"
proof -
  have ids: "map n_id (w_notes w') = map n_id (w_notes w)" by (simp add: w'(1) g(1))
  then have img: "n_id ` set (w_notes w') = n_id ` set (w_notes w)" by (metis list.set_map)
  have "reminder_rows_wf w'"
    using ok unfolding reminders_ok_def reminder_rows_wf_def ids img w'(2,3) by blast
  moreover have "rule_state w' m r" if m: "m \<in> set (w_notes w')" "r \<in> set (w_rules w)" "r_note_id r = n_id m" for m r
  proof -
    obtain y where y: "y \<in> set (w_notes w)" "m = (if p y then g y else y)"
      using m(1) unfolding w'(1) by (rule updated_row)
    have "rule_ok y r (dels (r_id r) (w_deliveries w))"
      using ok y m(2,3) g(1) by (auto simp: reminders_ok_def rule_state_def split: if_splits)
    then show ?thesis
      unfolding rule_state_def w'(3) by (rule rule_ok_cong) (use y g in \<open>auto split: if_splits\<close>)
  qed
  ultimately show ?thesis by (simp add: reminders_ok_def w'(2))
qed

lemma purge_rows_reminders:
  assumes ok: "reminders_ok w" and ns: "distinct (map n_id ns)" "set ns \<subseteq> {n \<in> set (w_notes w). n_deleted_at n \<noteq> None}"
    and shape: "\<forall>d \<in> set (w_deliveries (purge_rows now ns w)). delivery_shape d"
  shows "reminders_ok (purge_rows now ns w)" "attempted_ids w \<subseteq> attempted_ids (purge_rows now ns w)"
proof -
  note tab = purge_rows_tables [OF ns(1), of now w]
  obtain p where p: "w_deliveries (purge_rows now ns w) = update_where p drop_snapshots (w_deliveries w)"
    using tab(9) by blast
  let ?v = "w\<lparr>w_deliveries := update_where p drop_snapshots (w_deliveries w)\<rparr>"
  have "harmless drop_snapshots d" if "d \<in> set (w_deliveries w)" "p d" for d
  proof -
    have "drop_snapshots d \<in> set (w_deliveries (purge_rows now ns w))" using that by (auto simp: p set_update_where)
    then have "delivery_shape (drop_snapshots d)" using shape by blast
    then show ?thesis by (simp add: harmless_def drop_snapshots_def open_delivery_def attempted_def)
  qed
  note V = update_deliveries_ok [OF ok this]
  show "reminders_ok (purge_rows now ns w)"
  proof (rule notes_pass_reminders [OF V(1)])
    show "w_notes (purge_rows now ns w) = update_where (\<lambda>m. n_id m \<in> n_id ` set ns) (purged_row now) (w_notes ?v)"
      by (simp add: tab(1))
    fix m assume m: "m \<in> set (w_notes ?v)" "n_id m \<in> n_id ` set ns" "live_note m"
    then obtain n where n: "n \<in> set ns" "n_id m = n_id n" by auto
    then have "m = n" using distinct_map_eqD [OF rows_distinct [OF ok], of m n] m(1) ns(2) by auto
    then show "live_note (purged_row now m)" using m(3) n(1) ns(2) by (auto simp: live_note_def)
  qed (simp_all add: tab(7) p)
  show "attempted_ids w \<subseteq> attempted_ids (purge_rows now ns w)" using V(2) by (simp add: attempted_ids_def p)
qed

subsection \<open>The whole purge\<close>

lemma fold_storage_keeps:
  assumes "\<And>x w. storage_ok w \<Longrightarrow> storage_ok (g x w)" "\<And>x w. handler_keeps env w (g x w)" "storage_ok w"
  shows "storage_ok (fold g xs w)" "handler_keeps env w (fold g xs w)"
  using assms by (simp_all add: fold_storage fold_keeps)

lemma purge_trash_cases:
  assumes "purge_trash env now days' limit w = (k, w')"
  obtains ns v where "ns = purge_selection (now - days days') limit w" "k = length ns" "v = purge_rows now ns w"
    "w_deliveries w' = w_deliveries v" "w_notes w' = w_notes v" "w_notifications w' = w_notifications v"
    "w_note_tags w' = w_note_tags v" "w_rules w' = w_rules v" "handler_keeps env v w'"
    "storage_ok v \<Longrightarrow> storage_ok w'"
proof -
  define ns where "ns = purge_selection (now - days days') limit w"
  define v where "v = purge_rows now ns w"
  obtain sids where r: "k = length ns" "w' = fold (purge_event env now) ns (fold (close_series now) sids v)"
    using assms by (auto simp: purge_trash_eq Let_def ns_def v_def)
  let ?c = "fold (close_series now) sids v"
  have c: "storage_ok v \<Longrightarrow> storage_ok ?c" "handler_keeps env v ?c"
    using close_series_storage close_series_keeps by (blast intro: fold_storage fold_keeps)+
  have e: "storage_ok ?c \<Longrightarrow> storage_ok w'" "handler_keeps env ?c w'"
    unfolding r(2) using purge_event_keeps by (blast intro: fold_storage fold_keeps storage_step)+
  have rows: "f w' = f v" if "\<And>x w. f (purge_event env now x w) = f w" "\<And>x w. f (close_series now x w) = f w"
    for f :: "world \<Rightarrow> 'b list"
    unfolding r(2) using that by (simp add: fold_constant)
  show thesis
  proof (rule that [OF ns_def r(1) v_def])
    show "handler_keeps env v w'" by (rule handler_keeps_trans [OF c(2) e(2)])
    show "storage_ok v \<Longrightarrow> storage_ok w'" using c e by blast
  qed (rule rows; simp add: purge_event_def new_uuid_def close_series_def save_series_def Let_def split: option.splits)+
qed

lemma purge_selection_sub:
  "set (purge_selection cutoff limit w) \<subseteq> {n \<in> set (w_notes w). expired cutoff n}"
  by (auto simp: purge_selection_def)

lemma purge_step_keeps:
  assumes "service_ok env w" "purge_trash env now retention_days limit w = (k, w')"
    and "\<forall>d \<in> set (w_deliveries w'). delivery_shape d"
  shows "service_ok env w' \<and> attempted_ids w \<subseteq> attempted_ids w' \<and> purged_notes w \<subseteq> purged_notes w'"
  using assms(2)
proof (cases rule: purge_trash_cases)
  case (1 ns v)
  have S: "storage_ok w" and ok: "reminders_ok w" "fresh env w" using assms(1) by (simp_all add: service_ok_def)
  have ns: "distinct (map n_id ns)" "set ns \<subseteq> {n \<in> set (w_notes w). expired (now - days retention_days) n}"
    using purge_selection_sub selected_distinct [OF ok(1)] unfolding 1(1) by (auto simp: purge_selection_def)
  then have del: "set ns \<subseteq> {n \<in> set (w_notes w). n_deleted_at n \<noteq> None}" using expired_deleted by blast
  have R: "reminders_ok v" "attempted_ids w \<subseteq> attempted_ids v"
    using purge_rows_reminders [OF ok(1) ns(1) del, of now] assms(3) unfolding 1(3,4) by auto
  note tab = purge_rows_tables [OF ns(1), of now w]
  have fr: "fresh env v" using ok(2) tab(8,10) by (simp add: 1(3) fresh_def)
  have V: "storage_ok v" unfolding 1(3) 1(1) by (rule purge_rows_storage [OF S ok(1)])
  have "n \<in> set (w_notes v)" if n: "n \<in> purged_notes w" for n
  proof -
    have "n_id n \<notin> n_id ` set ns"
    proof
      assume "n_id n \<in> n_id ` set ns"
      then obtain m where m: "m \<in> set ns" "n_id n = n_id m" by auto
      then have "n = m" using distinct_map_eqD [OF rows_distinct [OF ok(1)], of n m] n ns(2) by (auto simp: purged_notes_def)
      with m ns(2) n show False by (auto simp: purged_notes_def expired_def)
    qed
    with n show ?thesis unfolding 1(3) tab(1) by (auto simp: purged_notes_def set_update_where)
  qed
  then have "purged_notes w \<subseteq> purged_notes v" by (auto simp: purged_notes_def)
  moreover have "reminders_ok w' \<and> fresh env w' \<and> history v \<subseteq> history w' \<and> purged_notes v \<subseteq> purged_notes w'"
    using 1(9) R(1) fr by (simp add: handler_keeps_def)
  ultimately show ?thesis using R(2) V 1(10) history_attempted [of v w'] by (auto simp: service_ok_def)
qed

text \<open>
  C14: a purge that the CHECK constraint of the deliveries lets through keeps the reminder invariant
  and the storage contract, takes back no attempt to send, and leaves every note purged before
  as it was; in particular it takes the notes of a trash action all or none.
\<close>

theorem purge_keeps_contracts:
  assumes "service_ok env w" "purge_trash env now retention_days limit w = (k, w')"
    and "\<forall>d \<in> set (w_deliveries w'). delivery_shape d"
  shows "service_ok env w' \<and> attempted_ids w \<subseteq> attempted_ids w' \<and> purged_notes w \<subseteq> purged_notes w'"
  by (rule purge_step_keeps [OF assms])

text \<open>
  C15: a purge empties title and text of the notes it counts, drops their tags, the snapshots of
  their deliveries and the text of their notifications, and changes no other note. It only takes
  notes deleted at least the retention time ago, and all of them when there are at most \<open>limit\<close>.
\<close>

theorem purge_trash_scrubs:
  assumes "reminders_ok w" "purge_trash env now retention_days limit w = (k, w')"
  shows "\<exists>ns. k = length ns \<and> distinct (map n_id ns)
    \<and> set ns \<subseteq> {n \<in> set (w_notes w). expired (now - days retention_days) n}
    \<and> (length (filter (expired (now - days retention_days)) (w_notes w)) \<le> limit \<longrightarrow>
         set ns = {n \<in> set (w_notes w). expired (now - days retention_days) n})
    \<and> w_notes w' = map (\<lambda>n. if n \<in> set ns
         then n\<lparr>n_title := ''[purged]'', n_body := [], n_purged_at := Some now, n_updated_at := now,
                n_trash_action_id := None, n_version := n_version n + 1\<rparr> else n) (w_notes w)
    \<and> (\<forall>n \<in> set ns. n_id n \<notin> fst ` set (w_note_tags w')
        \<and> (\<forall>r \<in> set (w_rules w'). r_note_id r = n_id n \<longrightarrow>
              (\<forall>d \<in> set (w_deliveries w'). d_reminder_rule_id d = r_id r \<longrightarrow>
                 d_content_snapshot d = None \<and> d_recipient_snapshot d = None
                 \<and> (\<forall>x \<in> set (w_notifications w'). nf_reminder_delivery_id x = d_id d \<longrightarrow>
                      nf_title x = ''[purged]'' \<and> nf_body x = []))))"
  using assms(2)
proof (cases rule: purge_trash_cases)
  case (1 ns v)
  let ?cut = "now - days retention_days"
  have sub: "set ns \<subseteq> {n \<in> set (w_notes w). expired ?cut n}" unfolding 1(1) by (rule purge_selection_sub)
  have dist: "distinct (map n_id ns)" unfolding 1(1) purge_selection_def by (rule selected_distinct [OF assms(1)])
  note tab = purge_rows_tables [OF dist, of now w]
  have all: "set ns = {n \<in> set (w_notes w). expired ?cut n}" if "length (filter (expired ?cut) (w_notes w)) \<le> limit"
  proof
    show "{n \<in> set (w_notes w). expired ?cut n} \<subseteq> set ns"
      using that by (auto simp: 1(1) purge_selection_def candidate_ids first_rows_def)
  qed (rule sub)
  have mem: "n_id n \<in> n_id ` set ns \<longleftrightarrow> n \<in> set ns" if "n \<in> set (w_notes w)" for n
    using that sub distinct_map_eqD [OF rows_distinct [OF assms(1)] that] by blast
  have "w_notes w' = map (\<lambda>n. if n \<in> set ns
         then n\<lparr>n_title := ''[purged]'', n_body := [], n_purged_at := Some now, n_updated_at := now,
                n_trash_action_id := None, n_version := n_version n + 1\<rparr> else n) (w_notes w)"
    unfolding 1(5) 1(3) tab(1) update_where_def purged_row_def by (rule map_cong) (simp_all add: mem purge_note_def)
  moreover have "n_id n \<notin> fst ` set (w_note_tags w')" if "n \<in> set ns" for n
    using that unfolding 1(7) 1(3) tab(2) by auto
  moreover have "d_content_snapshot d = None \<and> d_recipient_snapshot d = None
      \<and> (\<forall>x \<in> set (w_notifications w'). nf_reminder_delivery_id x = d_id d \<longrightarrow> nf_title x = ''[purged]'' \<and> nf_body x = [])"
    if n: "n \<in> set ns" and r: "r \<in> set (w_rules w')" "r_note_id r = n_id n"
      and d: "d \<in> set (w_deliveries w')" "d_reminder_rule_id d = r_id r" for n r d
  proof -
    let ?rs = "map r_id (filter (\<lambda>r. r_note_id r \<in> set (map n_id ns)) (w_rules w))"
    let ?ds = "map d_id (filter (\<lambda>d. d_reminder_rule_id d \<in> set ?rs) (w_deliveries w))"
    have ds: "w_deliveries v = update_where (\<lambda>d. d_id d \<in> set ?ds) drop_snapshots (w_deliveries w)"
      and nf: "w_notifications v = update_where (\<lambda>x. nf_reminder_delivery_id x \<in> set ?ds)
        (\<lambda>x. x\<lparr>nf_title := ''[purged]'', nf_body := []\<rparr>) (w_notifications w)"
      unfolding 1(3) purge_rows_def Let_def purge_loop [OF dist] by simp_all
    have rr: "r_id r \<in> set ?rs" using r n by (auto simp: 1(8) 1(3) tab(7))
    obtain d0 where d0: "d0 \<in> set (w_deliveries w)" "d = (if d_id d0 \<in> set ?ds then drop_snapshots d0 else d0)"
      using d(1) unfolding 1(4) ds by (rule updated_row)
    then have "d_reminder_rule_id d0 = r_id r" "d_id d = d_id d0" using d(2) by (auto simp: drop_snapshots_def split: if_splits)
    then have "d_id d \<in> set ?ds" "d = drop_snapshots d0" using d0 rr by auto
    moreover have "nf_title x = ''[purged]'' \<and> nf_body x = []"
      if x: "x \<in> set (w_notifications w')" "nf_reminder_delivery_id x = d_id d" for x
    proof -
      obtain x0 where x0: "x = (if nf_reminder_delivery_id x0 \<in> set ?ds
          then x0\<lparr>nf_title := ''[purged]'', nf_body := []\<rparr> else x0)"
        using x(1) unfolding 1(6) nf by (rule updated_row)
      then have "nf_reminder_delivery_id x0 = d_id d" using x(2) by (simp split: if_splits)
      then have "x = x0\<lparr>nf_title := ''[purged]'', nf_body := []\<rparr>" using x0 calculation(1) by (simp only: if_True)
      then show ?thesis by simp
    qed
    ultimately show ?thesis by (simp add: drop_snapshots_def)
  qed
  ultimately show ?thesis using 1(2) dist sub all by (intro exI [of _ ns]) blast
qed

definition trashed_world :: world where
  "trashed_world = sample_world\<lparr>w_notes := [sample_note\<lparr>n_deleted_at := Some 0\<rparr>],
     w_deliveries := [sample_delivery\<lparr>d_state := Cancelled, d_result_at := Some 0\<rparr>]\<rparr>"

lemma trashed_world_ok: "service_ok sample_env trashed_world"
  by (simp add: service_ok_def storage_ok_def trash_ok_def purge_ok_def series_known_def purged_ids_def
      open_series_def reminders_ok_def reminder_rows_wf_def rule_state_def rule_ok_def cycles_ok_def due_ok_def
      open_ok_def open_delivery_def fresh_def used_ids_def sample_env_def inj_def trashed_world_def sample_defs
      shape_simps live_note_def due_at_def minutes_def seconds_def)

lemma trashed_world_purge:
  "case purge_trash sample_env (days 31) 30 100 trashed_world of (k, w') \<Rightarrow> k = 1
    \<and> w_notes w' = [(purge_note (days 31) (sample_note\<lparr>n_deleted_at := Some 0\<rparr>))\<lparr>n_version := 2\<rparr>]
    \<and> w_deliveries w' = [sample_delivery\<lparr>d_state := Cancelled, d_result_at := Some 0\<rparr>]"
  by (simp add: purge_trash_def purge_candidates_def expired_def purge_rows_def purge_note_def purge_event_def
      save_note_def update_where_def drop_snapshots_def new_uuid_def trashed_world_def sample_defs days_def
      seconds_def Let_def)

theorem purge_keeps_contracts_witness:
  "\<exists>w'. purge_trash sample_env (days 31) 30 100 trashed_world = (1, w') \<and> service_ok sample_env w'
    \<and> map n_title (w_notes w') = [''[purged]'']"
proof -
  obtain w' where w': "purge_trash sample_env (days 31) 30 100 trashed_world = (1, w')"
    "w_notes w' = [(purge_note (days 31) (sample_note\<lparr>n_deleted_at := Some 0\<rparr>))\<lparr>n_version := 2\<rparr>]"
    "w_deliveries w' = [sample_delivery\<lparr>d_state := Cancelled, d_result_at := Some 0\<rparr>]"
    using trashed_world_purge by (auto split: prod.splits)
  have "\<forall>d \<in> set (w_deliveries w'). delivery_shape d" by (simp add: w'(3) sample_defs shape_simps)
  from purge_keeps_contracts [OF trashed_world_ok w'(1) this] w'(1,2) show ?thesis by (simp add: purge_note_def)
qed

theorem purge_trash_scrubs_witness:
  "\<exists>w'. purge_trash sample_env (days 31) 30 100 trashed_world = (1, w')
    \<and> map n_title (w_notes w') = [''[purged]''] \<and> 1 \<notin> fst ` set (w_note_tags w')"
proof -
  obtain w' where w': "purge_trash sample_env (days 31) 30 100 trashed_world = (1, w')"
    "w_notes w' = [(purge_note (days 31) (sample_note\<lparr>n_deleted_at := Some 0\<rparr>))\<lparr>n_version := 2\<rparr>]"
    using trashed_world_purge by (auto split: prod.splits)
  have ok: "reminders_ok trashed_world" using trashed_world_ok by (simp add: service_ok_def)
  obtain ns where ns: "1 = length ns" "set ns \<subseteq> {n \<in> set (w_notes trashed_world). expired (days 31 - days 30) n}"
    "\<forall>n \<in> set ns. n_id n \<notin> fst ` set (w_note_tags w')"
    using purge_trash_scrubs [OF ok w'(1)] by auto
  then obtain n where "ns = [n]" by (metis One_nat_def length_0_conv length_Suc_conv)
  then have "n_id n = 1" "n_id n \<notin> fst ` set (w_note_tags w')" using ns(2,3) by (auto simp: trashed_world_def sample_defs)
  then show ?thesis using w' by (simp add: purge_note_def)
qed

end
