(* ===== verification/System.thy ===== *)
theory System
  imports Api Purge Outbox ReminderProperties
begin

section \<open>The service as a system of transactions\<close>

text \<open>
  API processes, reminder workers, the publisher and the maintenance job work on one database. A
  step of the service is one committed transaction, in any order and with any arguments, under
  any locks of the others; a worker that dies between two transactions just takes no further
  step. A run collects the deliveries whose email left the authorization boundary.
\<close>

subsection \<open>Runs that spend tokens\<close>

inductive run :: "('w \<Rightarrow> 'i list \<Rightarrow> 'w \<Rightarrow> bool) \<Rightarrow> 'w \<Rightarrow> 'i list \<Rightarrow> 'w \<Rightarrow> bool" for step where
  run_start: "run step w [] w"
| run_step: "run step u s v \<Longrightarrow> step v s' w \<Longrightarrow> run step u (s @ s') w"

lemma run_single: "step u s w \<Longrightarrow> run step u s w"
  using run_step [of step u "[]" u s w] run_start [of step u] by simp

locale spending =
  fixes step :: "'w \<Rightarrow> 'i list \<Rightarrow> 'w \<Rightarrow> bool" and inv :: "'w \<Rightarrow> bool" and spent :: "'w \<Rightarrow> 'i set"
  assumes inv_step: "inv v \<Longrightarrow> step v s w \<Longrightarrow> inv w"
    and spent_grows: "inv v \<Longrightarrow> step v s w \<Longrightarrow> spent v \<subseteq> spent w"
    and spent_once: "inv v \<Longrightarrow> step v s w \<Longrightarrow> distinct s \<and> set s \<inter> spent v = {} \<and> set s \<subseteq> spent w"
begin

lemma run_inv: "run step u s w \<Longrightarrow> inv u \<Longrightarrow> inv w"
  by (induction rule: run.induct) (auto intro: inv_step)

lemma run_grows: "run step u s w \<Longrightarrow> inv u \<Longrightarrow> spent u \<subseteq> spent w"
proof (induction rule: run.induct)
  case (run_step u s v s' w)
  then show ?case using spent_grows [OF run_inv [OF run_step(1)] run_step(2)] by blast
qed simp

lemma run_once: "run step u s w \<Longrightarrow> inv u \<Longrightarrow> distinct s \<and> set s \<inter> spent u = {} \<and> set s \<subseteq> spent w"
proof (induction rule: run.induct)
  case (run_step u s v s' w)
  have v: "inv v" by (rule run_inv [OF run_step(1,4)])
  show ?case
    using run_step spent_once [OF v run_step(2)] spent_grows [OF v run_step(2)] run_grows [OF run_step(1,4)]
    by auto
qed simp

end

subsection \<open>The steps\<close>

definition publish_tx ::
  "env \<Rightarrow> (string \<Rightarrow> string \<Rightarrow> bool) \<Rightarrow> (uuid \<Rightarrow> bool) \<Rightarrow> world \<Rightarrow> world" where
  "publish_tx env accepts locked w = snd (publish_outbox env accepts locked w)"

inductive service_step :: "env \<Rightarrow> world \<Rightarrow> uuid list \<Rightarrow> world \<Rightarrow> bool" for env where
  request: "serve env msg c w = (r, w') \<Longrightarrow> service_step env w [] w'"
| claim: "claim_due_batch env locked now (reminder_grace_seconds env) (reminder_claim_seconds env) 100
      (begin_tx env w) = (r, w') \<Longrightarrow> service_step env w [] w'"
| authorize: "authorize_delivery env i token now (reminder_grace_seconds env) (begin_tx env w) = Inr (m, w') \<Longrightarrow>
      service_step env w (case m of None \<Rightarrow> [] | Some e \<Rightarrow> [i]) w'"
| outcome: "record_outcome env i (fst (send_outcome send e)) (snd (send_outcome send e)) (begin_tx env w) = Inr w' \<Longrightarrow>
      service_step env w [] w'"
| publish: "service_step env w [] (publish_tx env accepts locked w)"
| maintenance: "maintain env locked w = Inr (k, w') \<Longrightarrow> service_step env w [] w'"
| purge: "purge_trash env now 30 10000 (begin_tx env w) = (k, w') \<Longrightarrow>
      \<forall>d \<in> set (w_deliveries w'). delivery_shape d \<Longrightarrow> service_step env w [] w'"
| time: "ticks w \<le> k \<Longrightarrow> draws w \<le> j \<Longrightarrow> service_step env w [] (w\<lparr>ticks := k, draws := j\<rparr>)"

subsection \<open>The jobs leave the API's tables alone\<close>

lemma set_delivery_same [simp]: "same_storage w (set_delivery i f v) = same_storage w v"
  by (simp add: same_storage_def set_delivery_def)

lemma notification_event_same [simp]: "same_storage w (notification_event env i now sid v) = same_storage w v"
  by (simp add: same_storage_def notification_event_def new_uuid_def Let_def)

lemma job_fields_same [simp]:
  "same_storage w (v\<lparr>w_notifications := nf\<rparr>) = same_storage w v" "same_storage w (v\<lparr>draws := k\<rparr>) = same_storage w v"
  "same_storage w (v\<lparr>ticks := k\<rparr>) = same_storage w v" "same_storage w (v\<lparr>w_outbox := ev\<rparr>) = same_storage w v"
  "same_storage w (v\<lparr>draws := k, w_notifications := nf\<rparr>) = same_storage w v"
  "same_storage w (v\<lparr>w_notifications := nf, w_outbox := ev\<rparr>) = same_storage w v"
  by (simp_all add: same_storage_def)

lemma claim_one_same:
  "claim_one env now g l d (c, w) = (c', w') \<Longrightarrow> same_storage w w'"
  by (auto simp: claim_one_def new_uuid_def split: if_splits)

lemma claim_batch_same:
  assumes "claim_due_batch env locked now g l lim w = (r, w')"
  shows "same_storage w w'"
proof -
  have "same_storage w w'" if "fold (claim_one env now g l) rows (c, w) = (c', w')" for rows c c' w w'
    using that
  proof (induction rows arbitrary: c w)
    case (Cons d rows)
    obtain c1 w1 where one: "claim_one env now g l d (c, w) = (c1, w1)" by fastforce
    with Cons show ?case using same_storage_trans [OF claim_one_same [OF one]] by simp
  qed simp
  then show ?thesis using assms by (auto simp: claim_due_batch_def Let_def split: prod.splits)
qed

lemma authorize_same: "authorize_delivery env i token now g w = Inr (m, w') \<Longrightarrow> same_storage w w'"
  by (auto simp: authorize_delivery_def new_uuid_def Let_def split: option.splits if_splits)

lemma record_failure_same: "record_visible_email_failure env d now u w = Inr w' \<Longrightarrow> same_storage w w'"
  by (auto simp: record_visible_email_failure_def split: option.splits)

lemma record_outcome_same:
  assumes "record_outcome env i c u w = Inr w'"
  shows "same_storage w w'"
  using assms record_failure_same [of env _ _ u "set_delivery i f (w\<lparr>ticks := t\<rparr>)" for i f t]
  by (auto simp: record_outcome_def utcnow_def Let_def split: option.splits if_splits
      dest!: record_failure_same intro: same_storage_trans [rotated])

lemma maintain_cases:
  assumes "maintain env locked w = Inr (k, w')"
  obtains u p q where "classify_unknown env locked (clock env (ticks w)) 60 100
      (begin_tx env (w\<lparr>ticks := Suc (ticks w)\<rparr>)) = Inr (k, u)"
    "w' = u\<lparr>w_notifications := filter p (w_notifications u), w_outbox := filter q (w_outbox u)\<rparr>"
  using assms by (auto simp: maintain_def utcnow_def Let_def)

lemma maintain_same:
  assumes "maintain env locked w = Inr (k, w')"
  shows "same_storage w w'"
proof -
  have loop: "same_storage w w'"
    if "fold_ok (\<lambda>d w. record_visible_email_failure env d now True (set_delivery (d_id d) (give_up now) w)) rows w = Inr w'"
    for rows w w' now
    using that
  proof (induction rows arbitrary: w)
    case (Cons d rows)
    then obtain u where u: "record_visible_email_failure env d now True (set_delivery (d_id d) (give_up now) w) = Inr u"
      "fold_ok (\<lambda>d w. record_visible_email_failure env d now True (set_delivery (d_id d) (give_up now) w)) rows u = Inr w'"
      by auto
    show ?case
      using same_storage_trans [OF _ same_storage_trans [OF record_failure_same [OF u(1)] Cons.IH [OF u(2)]]] by simp
  qed simp
  let ?b = "begin_tx env (w\<lparr>ticks := Suc (ticks w)\<rparr>)"
  obtain u p q where u: "classify_unknown env locked (clock env (ticks w)) 60 100 ?b = Inr (k, u)"
    and w': "w' = u\<lparr>w_notifications := filter p (w_notifications u), w_outbox := filter q (w_outbox u)\<rparr>"
    using assms by (rule maintain_cases)
  have "same_storage ?b u" using u loop by (auto simp: classify_unknown_def Let_def)
  moreover have "same_storage w ?b" by (simp add: same_storage_def begin_tx_def)
  moreover have "same_storage u w'" unfolding w' by simp
  ultimately show ?thesis by (blast intro: same_storage_trans)
qed

lemma publish_batch_world:
  "\<exists>rows. snd (publish_batch accepts locked now limit w) = w\<lparr>w_outbox := rows\<rparr> \<and> map ev_id rows = map ev_id (w_outbox w)"
proof -
  have "\<exists>rows. snd (fold (publish_one accepts now) es (k, w)) = w\<lparr>w_outbox := rows\<rparr> \<and> map ev_id rows = map ev_id (w_outbox w)"
    for es k w
  proof (induction es arbitrary: k w)
    case Nil
    show ?case by (simp add: exI [of _ "w_outbox w"])
  next
    case (Cons e es)
    let ?rows = "update_where (\<lambda>x. ev_id x = ev_id e) (attempt_event accepts now) (w_outbox w)"
    obtain k1 where k1: "publish_one accepts now e (k, w) = (k1, w\<lparr>w_outbox := ?rows\<rparr>)"
      by (simp add: publish_one_def)
    obtain rows where "snd (fold (publish_one accepts now) es (k1, w\<lparr>w_outbox := ?rows\<rparr>)) = w\<lparr>w_outbox := rows\<rparr>"
      "map ev_id rows = map ev_id ?rows"
      using Cons.IH [of k1 "w\<lparr>w_outbox := ?rows\<rparr>"] by auto
    then show ?case using k1 by (intro exI [of _ rows]) simp
  qed
  then show ?thesis by (simp add: publish_batch_def)
qed

subsection \<open>Every step keeps the contracts\<close>

lemma reminder_frame:
  assumes "w_notes w' = w_notes w" "w_rules w' = w_rules w" "w_deliveries w' = w_deliveries w" "used_ids w' \<subseteq> used_ids w"
    and "draws w \<le> draws w'"
  shows "reminder_safe env w w'"
  by (rule reminder_safe_frame) (use assms in \<open>auto simp: grows_def\<close>)

lemma service_job:
  assumes "service_ok env w" "reminder_safe env w w'" "same_storage w w'"
  shows "service_ok env w' \<and> attempted_ids w \<subseteq> attempted_ids w' \<and> purged_notes w \<subseteq> purged_notes w'"
  using assms storage_step [OF assms(3)]
  by (simp add: service_ok_def reminder_safe_def purged_notes_def same_storage_def)

lemma begin_tx_service: "service_ok env w \<Longrightarrow> service_ok env (begin_tx env w)"
  using begin_tx_ok begin_tx_storage by (simp add: service_ok_def)

lemma begin_tx_sets [simp]: "attempted_ids (begin_tx env w) = attempted_ids w" "purged_notes (begin_tx env w) = purged_notes w"
  by (simp_all add: attempted_ids_def purged_notes_def row_simps)

lemma maintain_safe:
  assumes "maintain env locked w = Inr (k, w')"
  shows "reminder_safe env w w'"
proof -
  let ?b = "begin_tx env (w\<lparr>ticks := Suc (ticks w)\<rparr>)"
  obtain u p q where u: "classify_unknown env locked (clock env (ticks w)) 60 100 ?b = Inr (k, u)"
    and w': "w' = u\<lparr>w_notifications := filter p (w_notifications u), w_outbox := filter q (w_outbox u)\<rparr>"
    using assms by (rule maintain_cases)
  have "reminder_safe env w ?b"
    by (rule reminder_frame) (simp_all add: begin_tx_def used_ids_def)
  moreover have "reminder_safe env u w'" unfolding w' by (rule reminder_frame) (auto simp: used_ids_def)
  ultimately show ?thesis by (blast intro: reminder_safe_trans classify_unknown_safe [OF u])
qed

lemma publish_safe: "reminder_safe env w (publish_tx env accepts locked w)" "same_storage w (publish_tx env accepts locked w)"
proof -
  let ?b = "(begin_tx env w)\<lparr>ticks := Suc (ticks (begin_tx env w))\<rparr>"
  obtain rows where p: "publish_tx env accepts locked w = ?b\<lparr>w_outbox := rows\<rparr>"
      "map ev_id rows = map ev_id (w_outbox ?b)"
    using publish_batch_world [of accepts locked "clock env (ticks (begin_tx env w))" 100 ?b]
    by (auto simp: publish_tx_def publish_outbox_def utcnow_def Let_def)
  from arg_cong [OF p(2), of set] have "ev_id ` set rows = ev_id ` set (w_outbox w)" by (simp add: begin_tx_def)
  then show "reminder_safe env w (publish_tx env accepts locked w)"
    unfolding p(1) by (intro reminder_frame) (simp_all add: row_simps used_ids_def begin_tx_def)
  show "same_storage w (publish_tx env accepts locked w)" unfolding p(1) by simp
qed

lemma step_keeps:
  assumes "service_step env w s w'" "service_ok env w"
  shows "service_ok env w' \<and> attempted_ids w \<subseteq> attempted_ids w' \<and> purged_notes w \<subseteq> purged_notes w'"
  using assms(1)
proof cases
  case (request msg c r)
  from served_keeps [OF assms(2) request(2)] show ?thesis using history_attempted by blast
next
  case (claim locked now r)
  obtain c k where r: "r = (c, k)" by fastforce
  have "reminder_safe env (begin_tx env w) w'" using claim(2) unfolding r by (rule claim_batch_safe)
  from service_job [OF begin_tx_service [OF assms(2)] this claim_batch_same [OF claim(2)]] show ?thesis by simp
next
  case (authorize i token now m)
  from service_job [OF begin_tx_service [OF assms(2)] authorize_safe [OF authorize(2)] authorize_same [OF authorize(2)]]
  show ?thesis by simp
next
  case (outcome i send e)
  have "snd (send_outcome send e) \<Longrightarrow> fst (send_outcome send e) \<noteq> None"
    by (auto simp: send_outcome_def split: if_splits option.splits)
  from service_job [OF begin_tx_service [OF assms(2)] record_outcome_safe [OF outcome(2) this] record_outcome_same [OF outcome(2)]]
  show ?thesis by simp
next
  case (publish accepts locked)
  then show ?thesis using service_job [OF assms(2) publish_safe] by simp
next
  case (maintenance locked k)
  from service_job [OF assms(2) maintain_safe [OF maintenance(2)] maintain_same [OF maintenance(2)]] show ?thesis by simp
next
  case (purge now k)
  from purge_step_keeps [OF begin_tx_service [OF assms(2)] purge(2,3)] show ?thesis by simp
next
  case (time k j)
  have "reminder_safe env w w'" unfolding time(2) by (rule reminder_frame) (simp_all add: time used_ids_def)
  from service_job [OF assms(2) this] show ?thesis unfolding time(2) by (simp add: same_storage_def)
qed

lemma step_once:
  assumes "service_step env w s w'" "service_ok env w"
  shows "distinct s \<and> set s \<inter> attempted_ids w = {} \<and> set s \<subseteq> attempted_ids w'"
  using assms(1)
proof cases
  case (authorize i token now m)
  have "reminders_ok (begin_tx env w)" using begin_tx_service [OF assms(2)] by (simp add: service_ok_def)
  with authorize_attempts [of env i token now _ "begin_tx env w" _ w'] authorize show ?thesis
    by (auto split: option.splits)
qed auto

interpretation mail: spending "service_step env" "service_ok env" attempted_ids for env
  by unfold_locales (use step_keeps step_once in \<open>blast+\<close>)

subsection \<open>Runs of the service\<close>

text \<open>
  C1: however API requests, workers, the publisher and the maintenance interleave and whichever
  of them stop half-way, the email of a delivery leaves the authorization boundary at most once,
  never for a delivery attempted before, and each one that left is on record as attempted; the
  reminder invariant and the storage contract hold all along.
\<close>

theorem email_at_most_once:
  assumes "service_ok env w0" "run (service_step env) w0 mails w"
  shows "distinct mails \<and> set mails \<inter> attempted_ids w0 = {} \<and> set mails \<subseteq> attempted_ids w \<and> service_ok env w"
  using mail.run_once [OF assms(2,1)] mail.run_inv [OF assms(2,1)] by blast

lemma claimed_service_ok: "service_ok sample_env claimed_world"
proof -
  have "same_storage sample_world claimed_world" by (simp add: same_storage_def claimed_world_def)
  then show ?thesis
    using claimed_world_ok claimed_world_fresh sample_service_ok storage_step by (auto simp: service_ok_def)
qed

lemma claimed_run: "\<exists>w. run (service_step sample_env) claimed_world [3] w"
proof -
  have "\<exists>w e. authorize_delivery sample_env 3 7 (minutes 110) (reminder_grace_seconds sample_env)
      (begin_tx sample_env claimed_world) = Inr (Some e, w)"
    by (simp add: deliver_evaluation)
  then obtain w e where "authorize_delivery sample_env 3 7 (minutes 110) (reminder_grace_seconds sample_env)
      (begin_tx sample_env claimed_world) = Inr (Some e, w)" by blast
  from run_single [of "service_step sample_env", OF service_step.authorize [OF this]] show ?thesis by auto
qed

theorem email_at_most_once_witness:
  "\<exists>w. run (service_step sample_env) claimed_world [3] w \<and> 3 \<in> attempted_ids w \<and> 3 \<notin> attempted_ids claimed_world"
  using claimed_run email_at_most_once [OF claimed_service_ok] by fastforce


definition purged_sample :: world where
  "purged_sample = trashed_world\<lparr>w_notes := [sample_note\<lparr>n_deleted_at := Some 0, n_purged_at := Some 5\<rparr>]\<rparr>"


end
