(* ===== verification/EndToEnd.thy ===== *)
theory EndToEnd
  imports System Realtime
begin

section \<open>From the scan to the mailbox\<close>

text \<open>
  Components in sequence: what a scan claims, a worker that takes the task in time delivers.
\<close>

subsection \<open>A due reminder is sent\<close>

lemma find_row: "distinct (map pk rows) \<Longrightarrow> r \<in> set rows \<Longrightarrow> pk r = i \<Longrightarrow> find (\<lambda>x. pk x = i) rows = Some r"
  by (induction rows) (auto simp: image_iff)

lemma find_delivery: "reminders_ok w \<Longrightarrow> d \<in> set (w_deliveries w) \<Longrightarrow> find (\<lambda>x. d_id x = d_id d) (w_deliveries w) = Some d"
  using delivery_row.find_pk [OF reminders_ids] by simp

lemma context_exists:
  assumes "reminders_ok w" "d \<in> set (w_deliveries w)"
  obtains r n where "delivery_context w (d_id d) = Some (d, r, n)" "rule_ok n r (dels (r_id r) (w_deliveries w))"
    "d \<in> set (dels (r_id r) (w_deliveries w))" "n \<in> set (w_notes w)"
proof -
  have wf: "reminder_rows_wf w" using assms(1) by (simp add: reminders_ok_def)
  obtain r where r: "r \<in> set (w_rules w)" "r_id r = d_reminder_rule_id d"
    using wf assms(2) unfolding reminder_rows_wf_def image_iff by auto
  obtain n where n: "n \<in> set (w_notes w)" "n_id n = r_note_id r"
    using wf r(1) unfolding reminder_rows_wf_def image_iff by auto
  have "find (\<lambda>x. r_id x = d_reminder_rule_id d) (w_rules w) = Some r"
    using wf r by (intro find_row) (simp_all add: reminder_rows_wf_def)
  moreover have "find (\<lambda>x. n_id x = r_note_id r) (w_notes w) = Some n"
    using wf n by (intro find_row) (simp_all add: reminder_rows_wf_def)
  ultimately have c: "delivery_context w (d_id d) = Some (d, r, n)"
    using find_delivery [OF assms] by (simp add: delivery_context_def)
  have rule: "rule_ok n r (dels (r_id r) (w_deliveries w))"
  proof -
    have "rule_state w n r" using assms(1) r(1) n(1) n(2) [symmetric] by (simp add: reminders_ok_def)
    then show ?thesis by (simp add: rule_state_def)
  qed
  have "d \<in> set (dels (r_id r) (w_deliveries w))" using assms(2) r(2) by (simp add: dels_def)
  then show thesis by (rule that [OF c rule _ n(1)])
qed

text \<open>A delivery claimed under a token, within its grace period: the boundary opens.\<close>

lemma claimed_is_authorized:
  assumes ok: "reminders_ok w" "series_known w" and d: "d \<in> set (w_deliveries w)" "d_state d = Claimed"
      "d_claim_token d = Some token"
    and due: "d_due_at d \<le> now" "now - seconds grace \<le> d_due_at d"
  shows "\<exists>e w'. authorize_delivery env (d_id d) token now grace w = Inr (Some e, w') \<and> em_recipient e = recipient_of env w"
proof -
  obtain r n where c: "delivery_context w (d_id d) = Some (d, r, n)"
    and rule: "rule_ok n r (dels (r_id r) (w_deliveries w))" "d \<in> set (dels (r_id r) (w_deliveries w))"
    and n: "n \<in> set (w_notes w)"
    using context_exists [OF ok(1) d(1)] by blast
  have "open_delivery d" using d(2) by (simp add: open_delivery_def)
  then have live: "r_enabled r" "d_cycle_number d = r_current_cycle_number r" "live_note n"
    using rule by (auto simp: rule_ok_def open_ok_def)
  have "find (\<lambda>s. rs_id s = sid) (w_series w) \<noteq> None" if "n_series_id n = Some sid" for sid
    using ok(2) n that find_exists [of _ "w_series w" "\<lambda>s. rs_id s = sid"] by (fastforce simp: series_known_def)
  with c d live due show ?thesis
    by (auto simp: authorize_delivery_def live_note_def reminder_email_def Let_def split: prod.splits option.splits)
qed

lemma claim_batch_settings:
  assumes "claim_due_batch env locked now g l lim w = (r, w')"
  shows "w_settings w' = w_settings w"
proof -
  have "w_settings (snd (claim_one env now g l d x)) = w_settings (snd x)" for d x
    by (cases x) (simp add: claim_one_def new_uuid_def set_delivery_def)
  then have "w_settings (snd (fold (claim_one env now g l) rows x)) = w_settings (snd x)" for rows x
    by (rule fold_constant)
  from this [of "take lim (due_rows locked now w)" "([], w)"] assms show ?thesis
    by (auto simp: claim_due_batch_def Let_def split: prod.splits)
qed

lemma deliver_authorized:
  assumes ok: "reminders_ok w" "fresh env w"
    and a: "authorize_delivery env i token (clock env (ticks w)) (reminder_grace_seconds env)
       (begin_tx env (w\<lparr>ticks := Suc (ticks w)\<rparr>)) = Inr (Some e, u)"
    and e: "valid_recipient (em_recipient e)" "send e = None"
  shows "\<exists>w'. deliver env i token send w = (Inr True, w', [e])"
proof -
  obtain d where d: "d \<in> set (w_deliveries (begin_tx env u))" "d_id d = i" "d_state d = AttemptStarted"
    using authorize_row [OF a] by (auto simp: row_simps)
  have "reminder_safe env w (begin_tx env (w\<lparr>ticks := Suc (ticks w)\<rparr>))"
    by (rule reminder_frame) (simp_all add: begin_tx_def used_ids_def)
  then have "reminders_ok (begin_tx env (w\<lparr>ticks := Suc (ticks w)\<rparr>)) \<and> fresh env (begin_tx env (w\<lparr>ticks := Suc (ticks w)\<rparr>))"
    using ok by (simp add: reminder_safe_def)
  then have "reminders_ok (begin_tx env u)"
    using authorize_safe [OF a] begin_tx_ok(1) by (auto simp: reminder_safe_def)
  from find_delivery [OF this d(1)] d(2,3)
  obtain w' where "record_outcome env i None False (begin_tx env u) = Inr w'"
    by (simp add: record_outcome_def utcnow_def)
  then show ?thesis using a e by (simp add: deliver_def utcnow_def send_outcome_def)
qed


definition due_world :: world where
  "due_world = sample_world\<lparr>ticks := 6599\<rparr>"


end
