(* ===== verification/TrashRoundTrip.thy ===== *)
theory TrashRoundTrip
  imports System
begin

section \<open>Trash and restore\<close>

text \<open>
  Two guarantees that rest on the storage contract: the API never finds the members of a trash
  action torn apart, and a restore in time undoes the trash of a series portion.
\<close>

subsection \<open>No torn action\<close>

definition breach :: error where
  "breach = api_error 409 ''trash_invariant_breach'' ''Trash action membership is incomplete''"

lemma whole_action:
  assumes T: "trash_ok w" and n: "n \<in> set (action_members w a)" "n_trash_action_id n = Some a"
    and m: "m \<in> set (action_members w a)"
  shows "n_trash_action_id m = Some a"
proof -
  have "n \<in> set (w_notes w)" "m \<in> set (w_notes w)" "(a, n_id m) \<in> set (w_members w)"
    using n m by (auto simp: action_members_def)
  then show ?thesis using trash_okD(2) [OF T _ _ n(2)] by blast
qed

lemma locked_series_Inl: "locked_series i v w = Inl e \<Longrightarrow> e \<noteq> breach"
  by (auto simp: locked_series_def breach_def version_conflict_def conflict_def api_error_def split: option.splits if_splits)

text \<open>
  C12: in every state the service can reach, \<open>_restore_trash_action\<close>, through which all restores of
  recurring notes go, answers anything but \<open>trash_invariant_breach\<close>: its members are in the
  action all together or not at all.
\<close>

theorem restore_finds_actions_whole:
  assumes "service_ok env w0" "run (service_step env) w0 mails w"
  shows "restore_members env a v selected w \<noteq> Inl breach"
proof
  assume r: "restore_members env a v selected w = Inl breach"
  have T: "trash_ok w" using mail.run_inv [OF assms(2,1)] by (simp add: service_ok_def storage_okD(1))
  let ?ns = "sort_key n_id (action_members w a)"
  let ?cur = "filter (\<lambda>n. n_trash_action_id n = Some a) ?ns"
  have "length ?cur = length ?ns" if ne: "?cur \<noteq> []"
  proof -
    obtain n where n: "n \<in> set (action_members w a)" "n_trash_action_id n = Some a"
      using ne by (auto simp: filter_empty_conv)
    have "?cur = ?ns" by (rule filter_True) (use whole_action [OF T n] in simp)
    then show ?thesis by (simp only:)
  qed
  then have len: "?cur = [] \<or> length ?cur = length ?ns" by blast
  show False
  proof (cases "find (\<lambda>x. ta_id x = a) (w_actions w)")
    case None
    with r show False by (simp add: restore_members_def breach_def api_error_def)
  next
    case (Some act)
    show False
    proof (cases "locked_series (ta_series_id act) (Some v) w")
      case (Inl e)
      with r Some locked_series_Inl [OF Inl] show False by (simp add: restore_members_def)
    next
      case (Inr s)
      show False
      proof (cases "?cur = []")
        case True
        with r Some Inr show False by (simp add: restore_members_def breach_def api_error_def)
      next
        case False
        with r Some Inr len show False
          by (auto simp: restore_members_def utcnow_def save_series_row_def check_note_version_def Let_def
            breach_def conflict_def api_error_def split: option.splits if_splits)
      qed
    qed
  qed
qed

subsection \<open>Undoing a trash\<close>

lemma find_updated:
  "(\<And>x. p (f x) = p x) \<Longrightarrow> find p (update_where q f rows) = map_option (\<lambda>x. if q x then f x else x) (find p rows)"
  by (induction rows) (auto simp: update_where_def)

lemma locked_series_saved:
  assumes "locked_series i (Some v) w = Inr s" "w_series w' = w_series (save_series (rs_id s) f w)"
    and f: "\<And>s. rs_id (f s) = rs_id s" "\<And>s. rs_purged_at (f s) = rs_purged_at s"
  shows "locked_series i (Some (v + 1)) w' = Inr ((f s)\<lparr>rs_version := v + 1\<rparr>)"
proof -
  have s: "find (\<lambda>s. rs_id s = i \<and> rs_purged_at s = None) (w_series w) = Some s" "rs_version s = v"
    using assms(1) by (auto simp: locked_series_def split: option.splits if_splits)
  then show ?thesis
    unfolding locked_series_def assms(2) save_series_def using f
    by (simp add: find_updated)
qed

lemma restore_members_Inr:
  assumes "find (\<lambda>x. ta_id x = a) (w_actions w) = Some act" "locked_series (ta_series_id act) (Some v) w = Inr s"
    and "action_members w a \<noteq> []" "\<forall>n \<in> set (action_members w a). n_trash_action_id n = Some a"
    and "clock env (ticks w) - retention < ta_trashed_at act" "reminders_ok w"
  shows "\<exists>w'. restore_members env a v None w = Inr (s\<lparr>rs_updated_at := clock env (ticks w), rs_version := rs_version s + 1\<rparr>, w')
    \<and> w_notes w' = update_where (\<lambda>m. n_id m \<in> n_id ` set (action_members w a))
        (\<lambda>m. m\<lparr>n_trash_action_id := None, n_deleted_at := None, n_updated_at := clock env (ticks w),
           n_version := n_version m + 1\<rparr>) (w_notes w)"
proof -
  let ?ns = "sort_key n_id (action_members w a)"
  have cur: "filter (\<lambda>n. n_trash_action_id n = Some a) ?ns = ?ns" by (rule filter_True) (use assms(4) in simp)
  have ne: "?ns \<noteq> []" using assms(3) by (metis length_0_conv length_sort)
  have loop: "w_notes (fold (change_and_reconcile env now f) ?ns x) =
      update_where (\<lambda>m. n_id m \<in> n_id ` set (action_members w a)) (\<lambda>m. (f m)\<lparr>n_version := n_version m + 1\<rparr>) (w_notes x)"
    if "\<And>m. n_id (f m) = n_id m" for now f x
    using change_loop_notes [OF members_distinct [OF assms(6)] that] by simp
  show ?thesis
    using assms(1,2,5) cur ne
    by (simp add: restore_members_def utcnow_def save_series_row_def updated_event_def row_simps save_series_def loop
        linorder_not_le [symmetric] Let_def)
qed

text \<open>A note without the bookkeeping of its last change.\<close>

definition lasting :: "note_row \<Rightarrow> note_row" where
  "lasting n = n\<lparr>n_updated_at := 0, n_version := 0\<rparr>"

text \<open>
  C11: restoring a trash action in time undoes it: after a portion of a series was trashed, the
  restore of the action with the new version of the series succeeds within 30 days, and every
  note of the database is then as it was before the trash, but for its version and time of change.
\<close>

theorem restore_undoes_trash:
  assumes "service_ok env w" "trash_series_portion env sid p w = Inr (r, w1)"
    and "clock env (Suc (ticks w1)) - retention < clock env (Suc (ticks w))"
  shows "\<exists>s w2. restore_members env (uuid4 env (draws w)) (po_series_version p + 1) None (begin_tx env w1) = Inr (s, w2)
    \<and> map lasting (w_notes w2) = map lasting (w_notes w) \<and> rs_version s = po_series_version p + 2"
  using assms(2)
proof (cases rule: trash_series_portion_cases)
  case (1 s boundary ns a now u v)
  let ?act = "\<lparr>ta_id = a, ta_series_id = rs_id s, ta_boundary = boundary, ta_trashed_at = now,
    ta_sealed_at = Some (clock env (ticks v))\<rparr>"
  let ?g = "\<lambda>m. m\<lparr>n_deleted_at := Some now, n_trash_action_id := Some a, n_updated_at := now,
    n_version := n_version m + 1\<rparr>"
  let ?b = "begin_tx env w1"
  let ?I = "n_id ` set ns"
  have S: "storage_ok w" and ok: "reminders_ok w" "fresh env w" using assms(1) by (simp_all add: service_ok_def)
  have dist: "distinct (map n_id ns)" unfolding 1(3) by (rule selected_distinct [OF ok(1)])
  have new: "a \<notin> ta_id ` set (w_actions w)" unfolding 1(5) by (rule fresh_action [OF ok(2)])
  then have old: "update_where (\<lambda>x. ta_id x = a) h (w_actions w) = w_actions w" for h
    by (intro update_where_id) auto
  have acts: "w_actions ?b = w_actions w @ [?act]"
    using old by (simp add: 1(9) updated_event_def row_simps begin_tx_def 1(8) change_loop_tables 1(7)) (simp add: update_where_def)
  have u: "w_notes u = w_notes w" "w_series u = w_series w" "w_members u = w_members w @ map (\<lambda>n. (a, n_id n)) ns"
    unfolding 1(7) by (simp_all add: begin_tx_def)
  have rows: "w_notes ?b = update_where (\<lambda>m. n_id m \<in> ?I) ?g (w_notes w)"
    by (simp add: 1(9) updated_event_def row_simps begin_tx_def 1(8) change_loop_notes [OF dist] u save_series_def)
  have mem: "w_members ?b = w_members w @ map (\<lambda>n. (a, n_id n)) ns"
    by (simp add: 1(9) updated_event_def row_simps begin_tx_def 1(8) change_loop_tables u save_series_def)
  have ser: "w_series ?b = w_series (save_series (rs_id s) (\<lambda>s. s\<lparr>rs_updated_at := now\<rparr>) (begin_tx env w))"
    by (simp add: 1(9) updated_event_def row_simps begin_tx_def 1(8) change_loop_tables u save_series_def)
  have "rs_id s = sid" using 1(1) by (auto simp: locked_series_def dest!: find_Some_set split: option.splits if_splits)
  with locked_series_saved [OF 1(1) ser]
  have L: "locked_series (rs_id s) (Some (po_series_version p + 1)) ?b
      = Inr (s\<lparr>rs_updated_at := now, rs_version := po_series_version p + 1\<rparr>)" by simp
  have no: "find (\<lambda>x. ta_id x = a) (w_actions w) = None" using new by (auto simp: find_None_iff)
  have F: "find (\<lambda>x. ta_id x = a) (w_actions ?b) = Some ?act"
  proof -
    have "find q (xs @ [x]) = Some x" if "find q xs = None" "q x" for q xs and x :: trash_action
      using that by (induction xs) (auto split: if_splits)
    from this [OF no, of ?act] show ?thesis unfolding acts by simp
  qed
  have fst_members: "fst k \<noteq> a" if "k \<in> set (w_members w)" for k
    using trash_okD(3) [OF storage_okD(1) [OF S] that] new by auto
  then have "set (map snd (filter (\<lambda>(b, i). b = a) (w_members ?b))) = ?I"
    unfolding mem by (force simp: image_iff)
  then have am: "action_members ?b a = filter (\<lambda>n. n_id n \<in> ?I) (w_notes ?b)" by (simp add: action_members_def)
  have nsw: "set ns \<subseteq> {n \<in> set (w_notes w). n_deleted_at n = None}" by (auto simp: 1(3))
  have ids: "n_id ` set (action_members ?b a) = ?I"
  proof -
    have "n_id ` set (w_notes ?b) = n_id ` set (w_notes w)" by (simp add: rows)
    then have "?I \<subseteq> n_id ` set (w_notes ?b)" using nsw by auto
    moreover have "f ` {x \<in> A. f x \<in> I} = I" if "I \<subseteq> f ` A" for f :: "note_row \<Rightarrow> uuid" and A I
      using that by fast
    ultimately show ?thesis unfolding am set_filter by blast
  qed
  have "action_members ?b a \<noteq> []"
  proof
    assume "action_members ?b a = []"
    with ids 1(4) show False by simp
  qed
  moreover have "\<forall>n \<in> set (action_members ?b a). n_trash_action_id n = Some a"
  proof
    fix n assume "n \<in> set (action_members ?b a)"
    then have n: "n \<in> set (w_notes ?b)" "n_id n \<in> ?I" by (simp_all add: am)
    obtain y where "n = (if n_id y \<in> ?I then ?g y else y)" using n(1) unfolding rows by (rule updated_row)
    with n(2) have "n = ?g y" by (cases "n_id y \<in> ?I") simp_all
    then show "n_trash_action_id n = Some a" by simp
  qed
  moreover have "reminders_ok ?b"
    using trash_series_portion_keeps [OF assms(2)] ok begin_tx_ok(1) by (auto simp: handler_keeps_def)
  moreover have "clock env (ticks ?b) - retention < now" using assms(3) by (simp add: begin_tx_def 1(6))
  ultimately obtain w2 where w2: "restore_members env a (po_series_version p + 1) None ?b =
      Inr (s\<lparr>rs_updated_at := clock env (ticks ?b), rs_version := po_series_version p + 2\<rparr>, w2)"
    "w_notes w2 = update_where (\<lambda>m. n_id m \<in> ?I) (\<lambda>m. m\<lparr>n_trash_action_id := None, n_deleted_at := None,
        n_updated_at := clock env (ticks ?b), n_version := n_version m + 1\<rparr>) (w_notes ?b)"
    using restore_members_Inr [OF F, of "po_series_version p + 1" _ env] L by (auto simp: ids)
  have same: "m\<lparr>n_trash_action_id := None, n_deleted_at := None, n_updated_at := 0, n_version := 0\<rparr>
      = m\<lparr>n_updated_at := 0, n_version := 0\<rparr>"
    if m: "m \<in> set (w_notes w)" "n_id m \<in> ?I" for m
  proof -
    obtain n where n: "n \<in> set ns" "n_id m = n_id n" using m(2) by auto
    then have "m = n" using distinct_map_eqD [OF rows_distinct [OF ok(1)] m(1)] nsw by auto
    then have "n_deleted_at m = None" using n nsw by auto
    moreover have "n_trash_action_id m = None" by (rule no_action [OF S m(1) calculation])
    ultimately show ?thesis by (cases m) simp
  qed
  have "map lasting (w_notes w2) = map lasting (w_notes w)"
    unfolding w2(2) rows update_where_def by (auto simp: lasting_def same)
  with w2(1) 1(5) show ?thesis by auto
qed

definition series_world :: world where
  "series_world = sample_world\<lparr>w_notes := [sample_note\<lparr>n_series_id := Some 9, n_recurrence_key := Some 5\<rparr>],
     w_series := [series_of sample_series ''Call'' 9 0]\<rparr>"

lemma series_world_ok: "service_ok sample_env series_world"
  by (auto simp: service_ok_def storage_ok_def trash_ok_def purge_ok_def series_known_def purged_ids_def
      open_series_def reminders_ok_def reminder_rows_wf_def rule_state_def rule_ok_def cycles_ok_def due_ok_def
      open_ok_def fresh_def used_ids_def sample_env_def inj_def series_world_def series_of_def
      sample_defs shape_simps live_note_def due_at_def minutes_def seconds_def)

lemma trashed_example:
  obtains w1 where "trash_series_portion sample_env 9 \<lparr>po_series_version = 1, po_recurrence_key = None\<rparr> series_world = Inr ((), w1)"
    "ticks w1 < 100"
proof -
  have "case trash_series_portion sample_env 9 \<lparr>po_series_version = 1, po_recurrence_key = None\<rparr> series_world of
      Inl e \<Rightarrow> False | Inr (r, w1) \<Rightarrow> ticks w1 < 100"
    by (simp add: trash_series_portion_def locked_series_def portion_boundary_def min_key_def key_from_def
        series_world_def series_of_def sample_defs begin_tx_def new_uuid_def utcnow_def save_series_row_def
        change_and_reconcile_def save_def save_note_def update_where_def enabled_offsets_def save_series_def
        reconcile_reminders_def rules_of_def reconcile_rule_def current_delivery_def cancel_current_def live_note_def
        set_rule_def set_delivery_def cancel_delivery_def
        updated_event_def row_simps sample_env_def Let_def)
  then show thesis using that by (auto split: sum.splits)
qed

theorem restore_undoes_trash_witness:
  "\<exists>w1 s w2. trash_series_portion sample_env 9 \<lparr>po_series_version = 1, po_recurrence_key = None\<rparr> series_world = Inr ((), w1)
    \<and> restore_members sample_env 1000 2 None (begin_tx sample_env w1) = Inr (s, w2)
    \<and> map lasting (w_notes w2) = map lasting (w_notes series_world)"
proof -
  obtain w1 where w1: "trash_series_portion sample_env 9 \<lparr>po_series_version = 1, po_recurrence_key = None\<rparr> series_world = Inr ((), w1)"
    "ticks w1 < 100" by (rule trashed_example)
  have u: "uuid4 sample_env (draws series_world) = 1000" by (simp add: sample_env_def series_world_def sample_defs)
  have "clock sample_env (Suc (ticks w1)) - retention < clock sample_env (Suc (ticks series_world))"
    using w1(2) by (simp add: sample_env_def retention_def days_def seconds_def)
  from restore_undoes_trash [OF series_world_ok w1(1) this] w1(1) show ?thesis by (auto simp: u)
qed

theorem restore_finds_actions_whole_witness:
  "\<exists>w. run (service_step sample_env) series_world [] w \<and> length (w_notes w) = 1
    \<and> restore_members sample_env 1000 2 None w \<noteq> Inl breach"
proof -
  obtain w1 where w1: "trash_series_portion sample_env 9 \<lparr>po_series_version = 1, po_recurrence_key = None\<rparr> series_world = Inr ((), w1)"
    by (rule trashed_example)
  then have "service_step sample_env series_world [] w1"
    by (intro service_step.request [where c = "CallTrashPortion 9
          \<lparr>oj_expected_series_version = Some 1, oj_expected_version = None, oj_recurrence_key = None\<rparr>"])
      (simp add: serve_def routed_def portion_of_def checked_def with_aliases_def alias_fields_def alias_errors_def
        optional_version_def version_from_def resolve_series_version_def commits_def success_status_def)
  then have r: "run (service_step sample_env) series_world [] w1" by (rule run_single)
  have "length (w_notes w1) = 1"
    using w1 by (cases rule: trash_series_portion_cases)
      (simp add: updated_event_def row_simps save_series_def change_loop_notes series_world_def begin_tx_def sample_defs)
  with r restore_finds_actions_whole [OF series_world_ok r] show ?thesis by blast
qed

end
