(* ===== verification/Queries.thy ===== *)
theory Queries
  imports "HOL-Library.Sublist" TrashRoundTrip Listing
begin

section \<open>What the queries answer\<close>

text \<open>
  The bulk load of tags and offsets gives each note what a load of its own would; a search finds
  the text as it was typed, none of its characters being a wildcard; the pages of a list put
  together are the list; and the trash shows every trashed note once.
\<close>

subsection \<open>Responses\<close>

lemma filter_sort_key: "filter p (sort_key f xs) = sort_key f (filter p xs)"
  by (rule filter_sort)

lemma tag_rows_of:
  assumes "i \<in> set ids"
  shows "filter (\<lambda>(j, t). j = i) (tag_rows env w ids) = filter (\<lambda>(j, t). j = i) (tag_rows env w [i])"
proof -
  have F: "filter (\<lambda>(j, t). j = i) (concat (map (\<lambda>(j, k). map (\<lambda>t. (j, t)) (filter (\<lambda>t. tag_id t = k) ts))
      (filter (\<lambda>(j, k). j \<in> set A) rows))) =
    concat (map (\<lambda>(j, k). map (\<lambda>t. (j, t)) (filter (\<lambda>t. tag_id t = k) ts)) (filter (\<lambda>(j, k). j = i) rows))"
    if "i \<in> set A" for A ts and rows :: "(uuid \<times> uuid) list"
    using that by (induction rows) (auto simp: filter_map comp_def)
  have "i \<in> set [i]" by simp
  then show ?thesis unfolding tag_rows_def filter_sort_key F [OF assms] by (simp only: F)
qed

lemma offset_rows_of:
  assumes "i \<in> set ids"
  shows "filter (\<lambda>(j, m). j = i) (offset_rows w ids) = filter (\<lambda>(j, m). j = i) (offset_rows w [i])"
proof -
  have F: "filter (\<lambda>(j, m). j = i) (map (\<lambda>r. (r_note_id r, r_offset_minutes r))
      (filter (\<lambda>r. r_note_id r \<in> set A \<and> r_enabled r) rs)) =
    map (\<lambda>r. (r_note_id r, r_offset_minutes r)) (filter (\<lambda>r. r_note_id r = i \<and> r_enabled r) rs)"
    if "i \<in> set A" for A rs
    using that by (induction rs) auto
  have "i \<in> set [i]" by simp
  then show ?thesis unfolding offset_rows_def filter_sort_key F [OF assms] by (simp only: F)
qed

lemma notes_response_each: "notes_response env w ns = map (note_response_of env w) ns"
proof (cases "ns = []")
  case False
  have "filter (\<lambda>(j, t). j = n_id n) (tag_rows env w (map n_id ns)) = filter (\<lambda>(j, t). j = n_id n) (tag_rows env w [n_id n])"
    "filter (\<lambda>(j, m). j = n_id n) (offset_rows w (map n_id ns)) = filter (\<lambda>(j, m). j = n_id n) (offset_rows w [n_id n])"
    if "n \<in> set ns" for n
    using that by (intro tag_rows_of offset_rows_of; simp)+
  then show ?thesis by (simp add: note_response_of_def notes_response_def Let_def)
qed (simp add: notes_response_def)


subsection \<open>Searching\<close>

lemma wildcard_chars [simp]:
  "CHR ''%'' \<noteq> backslash" "CHR ''_'' \<noteq> backslash" "backslash \<noteq> CHR ''%''" "backslash \<noteq> CHR ''_''" "lower_char backslash = backslash"
  "lower_char (CHR ''%'') = CHR ''%''" "lower_char (CHR ''_'') = CHR ''_''"
  by (simp_all add: backslash_def lower_char_def code_point_def char_of_def bit_0)

lemma lower_char_wildcard [simp]:
  "lower_char c = backslash \<longleftrightarrow> c = backslash" "lower_char c = CHR ''%'' \<longleftrightarrow> c = CHR ''%''"
  "lower_char c = CHR ''_'' \<longleftrightarrow> c = CHR ''_''"
proof -
  have "lower_char c = c" if "code_point (lower_char c) < 97"
  proof -
    have "\<not> (65 \<le> code_point c \<and> code_point c \<le> 90 \<or> 192 \<le> code_point c \<and> code_point c \<le> 222 \<and> code_point c \<noteq> 215)"
      using that by (auto simp: code_lower_char split: if_splits)
    then show ?thesis by (simp only: lower_char_def if_False)
  qed
  moreover have "code_point backslash < 97" "code_point (CHR ''%'') < 97" "code_point (CHR ''_'') < 97"
    by (simp_all add: backslash_def code_point_def)
  ultimately have "lower_char c = c" if "lower_char c \<in> {backslash, CHR ''%'', CHR ''_''}"
    using that by auto
  then show "lower_char c = backslash \<longleftrightarrow> c = backslash" "lower_char c = CHR ''%'' \<longleftrightarrow> c = CHR ''%''"
    "lower_char c = CHR ''_'' \<longleftrightarrow> c = CHR ''_''"
    by auto
qed

lemma escape_Cons:
  "escape_like (c # cs) = (if c \<in> {backslash, CHR ''%'', CHR ''_''} then [backslash, c] else [c]) @ escape_like cs"
  by (auto simp: escape_like_def replace_char_def)

lemma escape_Nil [simp]: "escape_like [] = []"
  by (simp add: escape_like_def replace_char_def)

lemma read_escaped: "read_pattern (lower (escape_like s) @ ps) = map Literal (lower s) @ read_pattern ps"
  by (induction s) (auto simp: escape_Cons lower_def)

lemma match_literals: "match_items (map Literal s @ ps) t \<longleftrightarrow> (\<exists>u. t = s @ u \<and> match_items ps u)"
  by (induction s arbitrary: t) (auto split: list.splits)

lemma match_any: "match_items (AnySeq # ps) t \<longleftrightarrow> (\<exists>u v. t = u @ v \<and> match_items ps v)"
proof (induction t)
  case (Cons c t)
  have "(\<exists>u v. c # t = u @ v \<and> match_items ps v) \<longleftrightarrow> match_items ps (c # t) \<or> (\<exists>u v. t = u @ v \<and> match_items ps v)"
    by (metis append_Cons append_Nil list.exhaust list.inject)
  with Cons show ?case by simp
qed simp

lemma like_contains: "like (''%'' @ escape_like s @ ''%'') t \<longleftrightarrow> sublist (lower s) (lower t)"
proof -
  have "read_pattern (lower (''%'' @ escape_like s @ ''%'')) = AnySeq # map Literal (lower s) @ [AnySeq]"
    using read_escaped [of s "lower ''%''"] by (simp add: lower_def)
  then show ?thesis
    by (auto simp: like_def match_any match_literals sublist_def)
qed

text \<open>Having all the tags of the filter, each named any number of times, is having them.\<close>

definition tags_of :: "world \<Rightarrow> uuid \<Rightarrow> uuid set" where
  "tags_of w i = {k. (i, k) \<in> set (w_note_tags w)}"

lemma has_all_tags_iff: "has_all_tags w ts n \<longleftrightarrow> set ts \<subseteq> tags_of w (n_id n)"
proof -
  let ?found = "set (map snd (filter (\<lambda>(i, k). i = n_id n \<and> k \<in> set ts) (w_note_tags w)))"
  have found: "?found = tags_of w (n_id n) \<inter> set ts" by (force simp: tags_of_def)
  then have "card ?found = card (set ts) \<longleftrightarrow> ?found = set ts"
    by (metis List.finite_set card_subset_eq inf_le2)
  then show ?thesis unfolding has_all_tags_def length_remdups_card_conv found by blast
qed

definition wanted ::
  "world \<Rightarrow> string option \<Rightarrow> uuid list \<Rightarrow> bool option \<Rightarrow> datetime option \<Rightarrow> datetime option \<Rightarrow> bool \<Rightarrow> note_row \<Rightarrow> bool" where
  "wanted w q tags active from to trash n \<longleftrightarrow>
     n_superseded_at n = None \<and> n_purged_at n = None \<and> (n_deleted_at n \<noteq> None) = trash
     \<and> (case active of None \<Rightarrow> True | Some b \<Rightarrow> n_active n = b)
     \<and> (case Option.bind from dt_instant of None \<Rightarrow> True | Some t \<Rightarrow> t \<le> n_starts_at n)
     \<and> (case Option.bind to dt_instant of None \<Rightarrow> True | Some t \<Rightarrow> n_starts_at n < t)
     \<and> (case q of None \<Rightarrow> True | Some q \<Rightarrow> sublist (lower (strip q)) (search_text n))
     \<and> set tags \<subseteq> tags_of w (n_id n)"

lemma lower_idem [simp]: "lower (lower s) = lower s"
  by (simp add: lower_def comp_def)

lemma aware_query_cases: "aware_query v f = Inr r \<longleftrightarrow> r = Option.bind v dt_instant \<and> (v \<noteq> None \<longrightarrow> r \<noteq> None)"
  by (auto simp: aware_query_def split: option.splits)

lemma notes_filter_wanted:
  assumes "notes_filter w \<lparr>ft_q = q, ft_tag_ids = ts, ft_active = a, ft_from = Option.bind from dt_instant,
    ft_to = Option.bind to dt_instant, ft_trash = b\<rparr> = Inr p"
  shows "p n \<longleftrightarrow> wanted w q ts a from to b n"
proof -
  have tags: "(ts \<noteq> [] \<longrightarrow> has_all_tags w ts n) \<longleftrightarrow> set ts \<subseteq> tags_of w (n_id n)"
    by (cases ts) (simp_all add: has_all_tags_iff)
  have contains: "like (''%'' @ escape_like (lower s) @ ''%'') (search_text n) \<longleftrightarrow> sublist (lower s) (search_text n)" for s
    unfolding like_contains by (simp add: search_text_def)
  show ?thesis
  proof (cases q)
    case None
    with assms tags show ?thesis by (cases b; cases ts) (auto simp: notes_filter_def Let_def wanted_def)
  next
    case (Some s)
    with assms have p: "p = (\<lambda>n. (n_superseded_at n = None \<and> n_purged_at n = None
        \<and> (if b then n_deleted_at n \<noteq> None \<and> n_purged_at n = None else n_deleted_at n = None)
        \<and> (case a of None \<Rightarrow> True | Some b \<Rightarrow> n_active n = b)
        \<and> (case Option.bind from dt_instant of None \<Rightarrow> True | Some t \<Rightarrow> t \<le> n_starts_at n)
        \<and> (case Option.bind to dt_instant of None \<Rightarrow> True | Some t \<Rightarrow> n_starts_at n < t))
      \<and> like (''%'' @ escape_like (lower (strip s)) @ ''%'') (search_text n) \<and> (ts \<noteq> [] \<longrightarrow> has_all_tags w ts n))"
      unfolding notes_filter_def Let_def by (simp only: note_filter.simps option.case if_split_asm split: if_splits) auto
    show ?thesis unfolding p wanted_def Some tags contains by (cases b) auto
  qed
qed

lemma list_notes_result:
  assumes "list_notes env q ts a from to b col dir p k w = Inr r"
  shows "total r = length (filter (wanted w q ts a from to b) (w_notes w))"
    "items r = map (note_response_of env w)
       (take k (drop ((p - 1) * k) (sort_notes col dir (filter (wanted w q ts a from to b) (w_notes w)))))"
proof -
  obtain f t where ft: "aware_query from ''starts_from'' = Inr f" "aware_query to ''starts_to'' = Inr t"
    using assms by (auto simp: list_notes_def split: sum.splits)
  then have ft': "f = Option.bind from dt_instant" "t = Option.bind to dt_instant" by (simp_all add: aware_query_cases)
  obtain c where c: "notes_filter w \<lparr>ft_q = q, ft_tag_ids = ts, ft_active = a, ft_from = f, ft_to = t, ft_trash = b\<rparr> = Inr c"
    using assms ft by (auto simp: list_notes_def split: sum.splits if_splits)
  have "c = wanted w q ts a from to b"
    using notes_filter_wanted [OF c [unfolded ft']] by blast
  with assms ft c show "total r = length (filter (wanted w q ts a from to b) (w_notes w))"
    "items r = map (note_response_of env w)
       (take k (drop ((p - 1) * k) (sort_notes col dir (filter (wanted w q ts a from to b) (w_notes w)))))"
    by (auto simp: list_notes_def notes_response_each paginate_def Let_def split: if_splits)
qed

text \<open>
  C25: an answer of \<open>list_notes\<close> holds exactly the notes asked for: those whose title and body
  contain the stripped search text, letter by letter and in any case, \<^verbatim>\<open>%\<close>, \<^verbatim>\<open>_\<close> and the
  escape character included, which carry all the tags of the filter and meet its other conditions. Its total
  counts them, and its items are the page of them in the order asked for.
\<close>

theorem list_notes_answers:
  assumes "list_notes env q ts a from to b col dir p k w = Inr r"
  shows "total r = length (filter (wanted w q ts a from to b) (w_notes w))
    \<and> items r = map (note_response_of env w)
       (take k (drop ((p - 1) * k) (sort_notes col dir (filter (wanted w q ts a from to b) (w_notes w)))))"
  by (intro conjI list_notes_result [OF assms])

theorem list_notes_answers_witness:
  "\<exists>r. list_notes sample_env (Some ''  CALL '') [] None None None False ByStart Asc 1 20 sample_world = Inr r
     \<and> total r = 1 \<and> length (items r) = 1"
proof -
  have "\<exists>r. list_notes sample_env (Some ''  CALL '') [] None None None False ByStart Asc 1 20 sample_world = Inr r"
    by (simp add: list_notes_def aware_query_def notes_filter_def strip_def is_space_def code_point_def Let_def)
  then obtain r where r: "list_notes sample_env (Some ''  CALL '') [] None None None False ByStart Asc 1 20 sample_world = Inr r" ..
  have "wanted sample_world (Some ''  CALL '') [] None None None False sample_note"
    by (simp add: wanted_def sample_defs strip_def is_space_def code_point_def search_text_def lower_def lower_char_def
        char_of_def bit_0)
  with list_notes_answers [OF r] r show ?thesis
    by (simp add: sort_notes_def sample_world_def empty_world_def)
qed

lemma list_notes_page:
  assumes "list_notes env q ts a from to b col dir p k w = Inr r"
  shows "\<exists>r'. list_notes env q ts a from to b col dir p' k w = Inr r'"
  using assms by (auto simp: list_notes_def Let_def split: sum.splits if_splits)

lemma paginate_concat: "concat (map (\<lambda>p. take k (drop ((p - 1) * k) xs)) [1..<Suc m]) = take (m * k) xs"
proof (induction m)
  case (Suc m)
  have "[1..<Suc (Suc m)] = [1..<Suc m] @ [Suc m]" by simp
  with Suc show ?case by (simp add: take_add add.commute [of k])
qed simp

text \<open>
  C26: the pages of a list, put together, are the whole list: once they hold the total, every note
  asked for is in them and none is twice.
\<close>

theorem pages_cover_list:
  assumes "list_notes env q ts a from to b col dir 1 k w = Inr r" "total r \<le> m * k"
  shows "concat (map (\<lambda>p. case list_notes env q ts a from to b col dir p k w of Inl e \<Rightarrow> [] | Inr r \<Rightarrow> items r) [1..<Suc m])
    = map (note_response_of env w) (sort_notes col dir (filter (wanted w q ts a from to b) (w_notes w)))"
proof -
  let ?all = "sort_notes col dir (filter (wanted w q ts a from to b) (w_notes w))"
  have page: "(case list_notes env q ts a from to b col dir p k w of Inl e \<Rightarrow> [] | Inr r \<Rightarrow> items r)
      = take k (drop ((p - 1) * k) (map (note_response_of env w) ?all))" for p
    using list_notes_page [OF assms(1), of p] list_notes_result(2) [of env q ts a "from" to b col dir p k w]
    by (auto simp: take_map drop_map)
  have "length ?all \<le> m * k"
    using assms(2) list_notes_result(1) [OF assms(1)] by (simp add: sort_notes_def Let_def split: direction.split)
  then show ?thesis unfolding page paginate_concat by simp
qed

theorem pages_cover_list_witness:
  "concat (map (\<lambda>p. case list_notes sample_env None [] None None None False ByUpdate Desc p 1 sample_world of
      Inl e \<Rightarrow> [] | Inr r \<Rightarrow> items r) [1..<Suc 1])
    = map (note_response_of sample_env sample_world) [sample_note]"
proof -
  have "\<exists>r. list_notes sample_env None [] None None None False ByUpdate Desc 1 1 sample_world = Inr r \<and> total r = 1"
    by (simp add: list_notes_def aware_query_def notes_filter_def sample_defs Let_def)
  then obtain r where r: "list_notes sample_env None [] None None None False ByUpdate Desc 1 1 sample_world = Inr r" "total r = 1"
    by blast
  have "filter (wanted sample_world None [] None None None False) (w_notes sample_world) = [sample_note]"
    by (simp add: wanted_def sample_defs)
  with pages_cover_list [OF r(1), of 1] r(2) show ?thesis by (simp add: sort_notes_def)
qed

subsection \<open>The trash\<close>

text \<open>The notes a row of the trash stands for.\<close>

definition stands_for :: "world \<Rightarrow> note_row \<Rightarrow> trash_row \<Rightarrow> bool" where
  "stands_for w n r = (case r of
     ActionRow a \<Rightarrow> n \<in> set (action_members w (ta_id a)) | LegacyRow m \<Rightarrow> m = n | NoteRow m \<Rightarrow> m = n)"

lemma count_one:
  "distinct xs \<Longrightarrow> length (filter (\<lambda>x. P x \<and> x = a) xs) = (if a \<in> set xs \<and> P a then 1 else 0)"
  by (induction xs) auto

lemma count_keyed:
  "distinct (map f xs) \<Longrightarrow> length (filter (\<lambda>x. f x = k \<and> P x) xs) = (if \<exists>x \<in> set xs. f x = k \<and> P x then 1 else 0)"
proof (induction xs)
  case (Cons x xs)
  have "filter (\<lambda>x. f x = k \<and> P x) xs = []" if "f x = k"
    using Cons.prems that by (auto simp: filter_empty_conv image_iff)
  with Cons show ?case by auto
qed simp

lemma trashed_member:
  assumes T: "trash_ok w" and n: "n \<in> set (w_notes w)" "n_trash_action_id n = Some a"
  shows "trashed n" "was_member w n"
    "\<exists>x \<in> set (w_actions w). ta_id x = a \<and> open_action w x"
proof -
  note A = trash_okD(1) [OF T n]
  then obtain x where x: "(a, n_id n) \<in> set (w_members w)" "x \<in> set (w_actions w)" "ta_id x = a"
      "n_deleted_at n = Some (ta_trashed_at x)" "ta_sealed_at x \<noteq> None"
    by (auto simp: in_action_def)
  show "trashed n" using A x(4) by (simp add: trashed_def)
  show "was_member w n" using x(1) by (force simp: was_member_def)
  have "n \<in> set (action_members w a)" using x(1) n(1) by (force simp: action_members_def)
  then show "\<exists>x \<in> set (w_actions w). ta_id x = a \<and> open_action w x"
    using x n(2) by (auto simp: open_action_def)
qed

text \<open>A row of an action stands for the notes that are in the action now.\<close>

lemma stands_for_action:
  assumes T: "trash_ok w" and n: "n \<in> set (w_notes w)" and a: "a \<in> set (w_actions w)"
  shows "stands_for w n (ActionRow a) \<and> open_action w a \<longleftrightarrow> n_trash_action_id n = Some (ta_id a) \<and> open_action w a"
proof -
  have "n_trash_action_id n = Some (ta_id a)" if m: "n \<in> set (action_members w (ta_id a))" and o: "open_action w a"
  proof -
    obtain x where "x \<in> set (action_members w (ta_id a))" "n_trash_action_id x = Some (ta_id a)"
      using o by (auto simp: open_action_def)
    from whole_action [OF T this m] show ?thesis .
  qed
  moreover have "n \<in> set (action_members w (ta_id a))" if "n_trash_action_id n = Some (ta_id a)"
    using trash_okD(1) [OF T n that] n by (force simp: in_action_def action_members_def)
  ultimately show ?thesis by (auto simp: stands_for_def)
qed

text \<open>
  C16: the trash shows every trashed note in exactly one of its rows, the row of the trash action
  it is in or a row of its own, and no row stands for a note that is not in the trash.
\<close>

theorem trash_shows_each_once:
  assumes "service_ok env w0" "run (service_step env) w0 mails w" "n \<in> set (w_notes w)"
  shows "length (filter (stands_for w n) (trash_rows w)) = (if trashed n then 1 else 0)"
proof -
  have S: "service_ok env w" using mail.run_inv [OF assms(2,1)] .
  then have T: "trash_ok w" and "distinct (map n_id (w_notes w))"
    by (auto simp: service_ok_def storage_okD(1) intro: rows_distinct)
  then have dist: "distinct (w_notes w)" by (simp add: distinct_map)
  note n = assms(3)
  have actions: "length (filter (stands_for w n) (map ActionRow (filter (open_action w) (w_actions w))))
      = (if n_trash_action_id n = None then 0 else 1)"
  proof -
    have "filter (\<lambda>a. stands_for w n (ActionRow a) \<and> open_action w a) (w_actions w)
        = filter (\<lambda>a. n_trash_action_id n = Some (ta_id a) \<and> open_action w a) (w_actions w)"
      by (rule filter_cong [OF refl]) (rule stands_for_action [OF T n])
    then have "length (filter (stands_for w n) (map ActionRow (filter (open_action w) (w_actions w))))
        = length (filter (\<lambda>a. n_trash_action_id n = Some (ta_id a) \<and> open_action w a) (w_actions w))"
      by (simp add: filter_map comp_def conj_commute)
    also have "\<dots> = (if n_trash_action_id n = None then 0 else 1)"
    proof (cases "n_trash_action_id n")
      case (Some i)
      have "length (filter (\<lambda>a. ta_id a = i \<and> open_action w a) (w_actions w)) = 1"
        using trashed_member(3) [OF T n Some] count_keyed [OF trash_okD(4) [OF T]] by simp
      then show ?thesis by (simp add: Some eq_commute)
    qed simp
    finally show ?thesis .
  qed
  have own: "length (filter (stands_for w n) (map C (filter P (w_notes w)))) = (if P n then 1 else 0)"
    if C: "\<And>m. stands_for w n (C m) \<longleftrightarrow> m = n" for C P
    using count_one [OF dist, of P n] n by (simp add: filter_map comp_def C)
  have row: "stands_for w n (LegacyRow m) \<longleftrightarrow> m = n" "stands_for w n (NoteRow m) \<longleftrightarrow> m = n" for m
    by (simp_all add: stands_for_def)
  have "length (filter (stands_for w n) (trash_rows w)) =
      (if n_trash_action_id n = None then 0 else 1) + (if legacy_row w n then 1 else 0) + (if ordinary_row w n then 1 else 0)"
    unfolding trash_rows_def filter_sort_key length_sort filter_append length_append actions own [of LegacyRow, OF row(1)] own [of NoteRow, OF row(2)]
    by simp
  moreover have "trashed n" "was_member w n" if "n_trash_action_id n \<noteq> None"
    using that trashed_member(1,2) [OF T n] by blast+
  ultimately show ?thesis by (auto simp: legacy_row_def ordinary_row_def)
qed

theorem trash_shows_each_once_witness:
  "length (filter (stands_for trashed_world (sample_note\<lparr>n_deleted_at := Some 0\<rparr>)) (trash_rows trashed_world)) = 1"
  using trash_shows_each_once [OF trashed_world_ok run_start, of "sample_note\<lparr>n_deleted_at := Some 0\<rparr>"]
  by (simp add: trashed_def trashed_world_def sample_defs)

subsection \<open>Upcoming notes\<close>

lemma fold_min_le: "fold min xs (z :: int) \<le> z \<and> (\<forall>x \<in> set xs. fold min xs z \<le> x)"
proof (induction xs arbitrary: z)
  case (Cons x xs)
  from Cons [of "min x z"] show ?case by auto
qed simp

text \<open>
  C28: the answer of \<open>upcoming\<close> stays right until the moment it gives as the next transition:
  before it, no note passes from the coming ones to the past ones, and the day of the answer has not ended.
\<close>

theorem upcoming_stable:
  assumes "upcoming env p k w = Inr (r, w')" "up_server_now r \<le> t" "t < up_next_transition_at r"
  shows "\<exists>tz tomorrow week_end. us_timezone (fst (profile_settings env w)) = tz
      \<and> midnight_after env tz (local_date (to_local env tz (up_server_now r))) 1 = Inr tomorrow
      \<and> t < tomorrow \<and> t < week_end
      \<and> up_past r = note_group env w' (\<lambda>n. visible n \<and> n_active n \<and> n_starts_at n < t) p k
      \<and> up_today r = note_group env w' (\<lambda>n. visible n \<and> n_active n \<and> t \<le> n_starts_at n \<and> n_starts_at n < tomorrow) p k
      \<and> up_week r = note_group env w' (\<lambda>n. visible n \<and> n_active n \<and> tomorrow \<le> n_starts_at n \<and> n_starts_at n < week_end) p k"
proof -
  obtain row u where u: "profile_settings env w = (row, u)" by fastforce
  let ?now = "clock env (ticks u)" and ?v = "u\<lparr>ticks := Suc (ticks u)\<rparr>" and ?tz = "us_timezone row"
  let ?d = "local_date (to_local env ?tz ?now)"
  let ?base = "\<lambda>n. visible n \<and> n_active n"
  let ?starts = "map n_starts_at (filter (\<lambda>n. ?base n \<and> ?now \<le> n_starts_at n) (w_notes ?v))"
  obtain m e where m: "midnight_after env ?tz ?d 1 = Inr m" "midnight_after env ?tz ?d (7 - weekday ?d) = Inr e"
    using assms(1) u by (auto simp: upcoming_def utcnow_def Let_def split: sum.splits)
  have r: "w' = ?v" "up_server_now r = ?now" "up_next_transition_at r = fold min ?starts (min m e)"
    "up_past r = note_group env ?v (\<lambda>n. ?base n \<and> n_starts_at n < ?now) p k"
    "up_today r = note_group env ?v (\<lambda>n. ?base n \<and> ?now \<le> n_starts_at n \<and> n_starts_at n < m) p k"
    "up_week r = note_group env ?v (\<lambda>n. ?base n \<and> m \<le> n_starts_at n \<and> n_starts_at n < e) p k"
    using assms(1) u m by (auto simp: upcoming_def utcnow_def Let_def)
  note F = fold_min_le [of ?starts "min m e"]
  have t: "t < m" "t < e" using F assms(3) unfolding r(3) by linarith+
  have later: "t < n_starts_at n" if "n \<in> set (w_notes ?v)" "?base n" "?now \<le> n_starts_at n" for n
    using F that assms(3) unfolding r(3) by fastforce
  have same: "note_group env ?v (\<lambda>n. ?base n \<and> P n) p k = note_group env ?v (\<lambda>n. ?base n \<and> Q n) p k"
    if "\<And>n. n \<in> set (w_notes ?v) \<Longrightarrow> ?base n \<Longrightarrow> P n = Q n" for P Q
  proof -
    have "filter (\<lambda>n. ?base n \<and> P n) (w_notes ?v) = filter (\<lambda>n. ?base n \<and> Q n) (w_notes ?v)"
      by (rule filter_cong) (use that in auto)
    then show ?thesis unfolding note_group_def by (simp only:)
  qed
  have past: "up_past r = note_group env w' (\<lambda>n. ?base n \<and> n_starts_at n < t) p k"
    unfolding r(1,4) by (rule same) (use later assms(2) r(2) in fastforce)
  have today: "up_today r = note_group env w' (\<lambda>n. ?base n \<and> t \<le> n_starts_at n \<and> n_starts_at n < m) p k"
    unfolding r(1,5) by (rule same) (use later assms(2) r(2) in fastforce)
  have "us_timezone (fst (profile_settings env w)) = ?tz" by (simp add: u)
  with m(1) t past today r(6) show ?thesis unfolding r(1,2) by (simp only: conj_assoc) blast
qed

lemma sample_day: "utc_datetime 1000000 = Some (Local (Date 1970 1 1) 1000000)"
  by (simp add: utc_datetime_def utc_date_def days_def seconds_def)

lemma upcoming_example:
  "case upcoming sample_env 1 20 sample_world of Inl e \<Rightarrow> False | Inr (r, w') \<Rightarrow>
     up_server_now r = 1000000 \<and> 2000000 < up_next_transition_at r \<and> total (up_today r) = 1"
  by (simp add: upcoming_def profile_settings_def utcnow_def midnight_after_def note_group_def visible_def
      sample_defs sample_env_def weekday_def utc_local_def utc_zone_def profile_id_def sample_day days_in_month_def
      local_micros_def days_def minutes_def seconds_def days_before_year_def days_before_month_def Let_def)

theorem upcoming_stable_witness:
  "\<exists>r w'. upcoming sample_env 1 20 sample_world = Inr (r, w')
     \<and> up_past r = note_group sample_env w' (\<lambda>n. visible n \<and> n_active n \<and> n_starts_at n < 2000000) 1 20"
proof -
  obtain r w' where r: "upcoming sample_env 1 20 sample_world = Inr (r, w')"
    "up_server_now r \<le> 2000000" "2000000 < up_next_transition_at r"
    using upcoming_example by (auto split: sum.splits)
  from upcoming_stable [OF this] r(1) show ?thesis by blast
qed

end
