(* ===== verification/SplitResult.thy ===== *)
theory SplitResult
  imports "HOL-Library.Multiset" TrashRoundTrip
begin

section \<open>What a split leaves behind\<close>

text \<open>
  The functional result of \<open>split_series\<close> on the notes: the successor has exactly one note per
  occurrence of the new schedule, the remaining future notes of the old series are superseded,
  and every other note is as it was.
\<close>

subsection \<open>Placing the occurrences\<close>

text \<open>A note of the successor at an occurrence.\<close>

definition placed :: "series_split \<Rightarrow> string \<Rightarrow> uuid \<Rightarrow> occurrence \<Rightarrow> note_row \<Rightarrow> bool" where
  "placed p title sid occ n \<longleftrightarrow> n_series_id n = Some sid \<and> n_recurrence_key n = Some (instant_of occ)
     \<and> n_starts_at n = instant_of occ \<and> n_title n = title \<and> n_body n = nw_body p \<and> n_active n = nw_active p
     \<and> n_deleted_at n = None \<and> n_superseded_at n = None \<and> n_series_trashed_at n = None \<and> n_purged_at n = None"

definition of_series :: "uuid \<Rightarrow> note_row \<Rightarrow> bool" where
  "of_series sid n \<longleftrightarrow> n_series_id n = Some sid"

lemma update_one_mset:
  assumes "distinct (map n_id rows)" "n \<in> set rows" "\<not> P n" "P (f n)"
  shows "mset (filter P (update_where (\<lambda>m. n_id m = n_id n) f rows)) = add_mset (f n) (mset (filter P rows))"
  using assms(1,2)
proof (induction rows)
  case (Cons m rows)
  show ?case
  proof (cases "n_id m = n_id n")
    case True
    then have "m = n" using Cons.prems by (auto simp: image_iff)
    moreover have "update_where (\<lambda>m. n_id m = n_id n) f rows = rows"
      using Cons.prems(1) True by (intro update_where_id) (auto simp: image_iff)
    ultimately show ?thesis using assms(3,4) by (simp add: update_where_def)
  next
    case False
    then have "n \<in> set rows" using Cons.prems(2) by auto
    with Cons False show ?thesis by (simp add: update_where_def)
  qed
qed simp

text \<open>The notes a schedule finds among the reusable ones.\<close>

definition found :: "note_row list \<Rightarrow> occurrence \<Rightarrow> note_row list" where
  "found reusable occ = (case find (\<lambda>n. n_recurrence_key n = Some (instant_of occ)) reusable of None \<Rightarrow> [] | Some n \<Rightarrow> [n])"

definition untaken :: "uuid \<Rightarrow> note_row list \<Rightarrow> uuid list \<Rightarrow> world \<Rightarrow> bool" where
  "untaken sid reusable kept w \<longleftrightarrow> distinct (map n_id reusable)
     \<and> (\<forall>n \<in> set reusable. n_purged_at n = None \<and> \<not> of_series sid n \<and> (n_id n \<in> set kept \<or> n \<in> set (w_notes w)))"

lemma place_occurrence_result:
  assumes ok: "reminders_ok w" "fresh env w" and U: "untaken sid reusable kept w"
    and new: "\<And>n. n \<in> set (found reusable occ) \<Longrightarrow> n_id n \<notin> set kept"
    and r: "place_occurrence env p title sid now reusable occ (kept, w) = (kept', w')"
  shows "kept' = kept @ map n_id (found reusable occ)"
    and "\<exists>n. placed p title sid occ n \<and> mset (filter (of_series sid) (w_notes w')) = add_mset n (mset (filter (of_series sid) (w_notes w)))
      \<and> (\<forall>m \<in> set (found reusable occ). n_id n = n_id m)"
    and "untaken sid reusable kept' w'"
    and "\<forall>m \<in> set (w_notes w). n_id m \<in> set (map n_id (found reusable occ)) \<or> m \<in> set (w_notes w')"
    and "\<forall>m \<in> set (w_notes w'). m \<in> set (w_notes w) \<or> of_series sid m"
proof -
  have dist: "distinct (map n_id (w_notes w))" by (rule rows_distinct [OF ok(1)])
  have "kept' = kept @ map n_id (found reusable occ)
    \<and> (\<exists>n. placed p title sid occ n \<and> mset (filter (of_series sid) (w_notes w')) = add_mset n (mset (filter (of_series sid) (w_notes w)))
        \<and> (\<forall>m \<in> set (found reusable occ). n_id n = n_id m))
    \<and> untaken sid reusable kept' w'
    \<and> (\<forall>m \<in> set (w_notes w). n_id m \<in> set (map n_id (found reusable occ)) \<or> m \<in> set (w_notes w'))
    \<and> (\<forall>m \<in> set (w_notes w'). m \<in> set (w_notes w) \<or> of_series sid m)"
    using r
  proof (cases rule: place_occurrence_cases)
    case (created n)
    have f: "found reusable occ = []" by (simp add: found_def created(1))
    have rows: "w_notes w' = w_notes w @ [n]" by (simp add: created(4))
    have p: "placed p title sid occ n" "of_series sid n"
      by (simp_all add: created(3) new_note_def placed_def of_series_def)
    show ?thesis using U p by (auto simp: f rows created(2) untaken_def)
  next
    case (taken n0 n n')
    let ?f = "\<lambda>m. (taken_over p title sid now (instant_of occ) m)\<lparr>n_version := n_version m + 1\<rparr>"
    have n0: "n0 \<in> set reusable" "n_recurrence_key n0 = Some (instant_of occ)"
      using find_Some_set [OF taken(1)] by auto
    have f: "found reusable occ = [n0]" by (simp add: found_def taken(1))
    have "n0 \<in> set (w_notes w)" using U n0(1) new f by (auto simp: untaken_def)
    then have n: "n = n0" "n \<in> set (w_notes w)" using current_rowD [OF _ refl dist] by (simp_all add: taken(2))
    have S: "\<not> of_series sid n" "n_purged_at n = None" using U n0(1) n(1) by (auto simp: untaken_def)
    have rows: "w_notes w' = update_where (\<lambda>m. n_id m = n_id n) ?f (w_notes w)"
      by (simp add: taken(5) save_note_def)
    have p: "placed p title sid occ (?f n)" "of_series sid (?f n)"
      using n0(2) S(2) by (simp_all add: n(1) taken_over_def placed_def of_series_def)
    have other: "m \<in> set (w_notes w')" if "m \<in> set (w_notes w)" "n_id m \<noteq> n_id n" for m
      using that by (force simp: rows set_update_where)
    have "untaken sid reusable kept' w'"
      using U other by (auto simp: untaken_def taken(3) n(1))
    moreover have "\<forall>m \<in> set (w_notes w'). m \<in> set (w_notes w) \<or> of_series sid m"
      by (auto simp: rows set_update_where of_series_def taken_over_def)
    moreover have "mset (filter (of_series sid) (w_notes w')) = add_mset (?f n) (mset (filter (of_series sid) (w_notes w)))"
      unfolding rows by (rule update_one_mset [where f = ?f, OF dist n(2) S(1) p(2)])
    ultimately show ?thesis using p(1) other by (auto simp: f taken(3) n(1) taken_over_def)
  qed
  then show "kept' = kept @ map n_id (found reusable occ)"
    and "\<exists>n. placed p title sid occ n \<and> mset (filter (of_series sid) (w_notes w')) = add_mset n (mset (filter (of_series sid) (w_notes w)))
      \<and> (\<forall>m \<in> set (found reusable occ). n_id n = n_id m)"
    and "untaken sid reusable kept' w'"
    and "\<forall>m \<in> set (w_notes w). n_id m \<in> set (map n_id (found reusable occ)) \<or> m \<in> set (w_notes w')"
    and "\<forall>m \<in> set (w_notes w'). m \<in> set (w_notes w) \<or> of_series sid m"
    by blast+
qed

lemma foundD: "n \<in> set (found reusable occ) \<Longrightarrow> n \<in> set reusable \<and> n_recurrence_key n = Some (instant_of occ)"
  using find_Some_set [of "\<lambda>n. n_recurrence_key n = Some (instant_of occ)" reusable]
  by (cases "find (\<lambda>n. n_recurrence_key n = Some (instant_of occ)) reusable") (auto simp: found_def)

lemma place_loop_result:
  assumes "reminders_ok w" "fresh env w" "reusable_rows reusable w" "untaken sid reusable kept w"
    and "distinct (map instant_of occs)" "\<And>occ n. occ \<in> set occs \<Longrightarrow> n \<in> set (found reusable occ) \<Longrightarrow> n_id n \<notin> set kept"
    and "fold (place_occurrence env p title sid now reusable) occs (kept, w) = (kept', w')"
  shows "kept' = kept @ map n_id (concat (map (found reusable) occs))
    \<and> (\<exists>ps. list_all2 (placed p title sid) occs ps
        \<and> mset (filter (of_series sid) (w_notes w')) = mset (filter (of_series sid) (w_notes w)) + mset ps
        \<and> list_all2 (\<lambda>occ n. \<forall>m \<in> set (found reusable occ). n_id n = n_id m) occs ps)
    \<and> (\<forall>m \<in> set (w_notes w). n_id m \<in> n_id ` set (concat (map (found reusable) occs)) \<or> m \<in> set (w_notes w'))
    \<and> (\<forall>m \<in> set (w_notes w'). m \<in> set (w_notes w) \<or> of_series sid m)"
  using assms
proof (induction occs arbitrary: kept w)
  case Nil
  then show ?case by simp
next
  case (Cons occ occs)
  obtain kept1 w1 where s: "place_occurrence env p title sid now reusable occ (kept, w) = (kept1, w1)" by fastforce
  note K = place_occurrence_keeps [OF Cons.prems(1-3) s]
  have now_new: "n_id n \<notin> set kept" if "n \<in> set (found reusable occ)" for n
    by (rule Cons.prems(6) [OF _ that]) simp
  note R = place_occurrence_result [OF Cons.prems(1,2,4) now_new s]
  have ok: "reminders_ok w1" "fresh env w1" "reusable_rows reusable w1"
    using K Cons.prems(1,2) by (auto simp: handler_keeps_def)
  have ids: "distinct (map n_id reusable)" using Cons.prems(4) by (simp add: untaken_def)
  have new: "n_id n \<notin> set kept1" if "o' \<in> set occs" "n \<in> set (found reusable o')" for o' n
  proof
    assume "n_id n \<in> set kept1"
    moreover have "n_id n \<notin> set kept" by (rule Cons.prems(6) [OF _ that(2)]) (use that(1) in simp)
    ultimately obtain m where m: "m \<in> set (found reusable occ)" "n_id n = n_id m" by (auto simp: R(1))
    have "n = m" using distinct_map_eqD [OF ids] foundD [OF that(2)] foundD [OF m(1)] m(2) by blast
    then have "instant_of o' = instant_of occ" using foundD [OF that(2)] foundD [OF m(1)] by simp
    with that(1) Cons.prems(5) show False by (auto simp: image_iff)
  qed
  have "kept' = kept1 @ map n_id (concat (map (found reusable) occs))
    \<and> (\<exists>ps. list_all2 (placed p title sid) occs ps
        \<and> mset (filter (of_series sid) (w_notes w')) = mset (filter (of_series sid) (w_notes w1)) + mset ps
        \<and> list_all2 (\<lambda>occ n. \<forall>m \<in> set (found reusable occ). n_id n = n_id m) occs ps)
    \<and> (\<forall>m \<in> set (w_notes w1). n_id m \<in> n_id ` set (concat (map (found reusable) occs)) \<or> m \<in> set (w_notes w'))
    \<and> (\<forall>m \<in> set (w_notes w'). m \<in> set (w_notes w1) \<or> of_series sid m)"
    by (rule Cons.IH [OF ok R(3) _ new]) (use Cons.prems(5,7) s in auto)
  then obtain ps where kept': "kept' = kept1 @ map n_id (concat (map (found reusable) occs))"
    and ps: "list_all2 (placed p title sid) occs ps"
      "mset (filter (of_series sid) (w_notes w')) = mset (filter (of_series sid) (w_notes w1)) + mset ps"
      "list_all2 (\<lambda>occ n. \<forall>m \<in> set (found reusable occ). n_id n = n_id m) occs ps"
    and rest: "\<forall>m \<in> set (w_notes w1). n_id m \<in> n_id ` set (concat (map (found reusable) occs)) \<or> m \<in> set (w_notes w')"
      "\<forall>m \<in> set (w_notes w'). m \<in> set (w_notes w1) \<or> of_series sid m" by blast
  obtain n where n: "placed p title sid occ n"
      "mset (filter (of_series sid) (w_notes w1)) = add_mset n (mset (filter (of_series sid) (w_notes w)))"
      "\<forall>m \<in> set (found reusable occ). n_id n = n_id m" using R(2) by blast
  have "list_all2 (placed p title sid) (occ # occs) (n # ps)"
    "mset (filter (of_series sid) (w_notes w')) = mset (filter (of_series sid) (w_notes w)) + mset (n # ps)"
    "list_all2 (\<lambda>occ n. \<forall>m \<in> set (found reusable occ). n_id n = n_id m) (occ # occs) (n # ps)"
    using n ps by simp_all
  then have "\<exists>ps. list_all2 (placed p title sid) (occ # occs) ps
      \<and> mset (filter (of_series sid) (w_notes w')) = mset (filter (of_series sid) (w_notes w)) + mset ps
      \<and> list_all2 (\<lambda>occ n. \<forall>m \<in> set (found reusable occ). n_id n = n_id m) (occ # occs) ps" by blast
  moreover have "kept' = kept @ map n_id (concat (map (found reusable) (occ # occs)))" by (simp add: kept' R(1))
  moreover have "n_id m \<in> n_id ` set (concat (map (found reusable) (occ # occs))) \<or> m \<in> set (w_notes w')"
    if "m \<in> set (w_notes w)" for m
    using R(4) that rest(1) by (auto simp: image_Un)
  moreover have "m \<in> set (w_notes w) \<or> of_series sid m" if "m \<in> set (w_notes w')" for m
    using rest(2) that R(5) by blast
  ultimately show ?case by blast
qed

subsection \<open>The whole split\<close>

text \<open>\<^verbatim>\<open>uq_note_series_recurrence_key\<close>, and a zone in which the same time of day is not the same instant on two days.\<close>

definition unique_keys :: "world \<Rightarrow> bool" where
  "unique_keys w \<longleftrightarrow> (\<forall>m \<in> set (w_notes w). \<forall>n \<in> set (w_notes w). n_recurrence_key m \<noteq> None
     \<longrightarrow> n_series_id m = n_series_id n \<longrightarrow> n_recurrence_key m = n_recurrence_key n \<longrightarrow> m = n)"

definition faithful_zone :: "env \<Rightarrow> string \<Rightarrow> bool" where
  "faithful_zone env tz \<longleftrightarrow> (\<forall>z t. gettz env tz = Some z \<longrightarrow>
     inj_on (\<lambda>d. zone_instant z (Local d t)) {d. valid_date d \<and> zone_exists z (Local d t)})"

definition replaced :: "uuid \<Rightarrow> instant \<Rightarrow> note_row \<Rightarrow> bool" where
  "replaced sid key n \<longleftrightarrow> n_series_id n = Some sid \<and> key_from key n \<and> n_superseded_at n = None \<and> n_purged_at n = None"

lemma distinct_instants:
  assumes "expand_payload env limit p = Inr occs" "valid_date (local_date (sf_local_start p))" "faithful_zone env (sf_timezone p)"
  shows "distinct (map instant_of occs)"
proof -
  let ?l = "sf_local_start p"
  obtain z where z: "gettz env (sf_timezone p) = Some z"
    "occs = map (occurrence_at z (local_time ?l)) (sorted_list_of_set (existing_dates z (sf_frequency p) ?l (sf_end_date p)))"
    using expand_occurrences_dates [OF _ assms(1) [unfolded expand_payload_def]] assms(2) by (auto simp: naive_def)
  let ?D = "existing_dates z (sf_frequency p) ?l (sf_end_date p)"
  have fin: "finite ?D"
    by (rule finite_subset [OF _ finite_dates_upto [of "sf_end_date p"]]) (auto simp: existing_dates_def series_dates_def)
  have "inj_on (\<lambda>d. zone_instant z (Local d (local_time ?l))) {d. valid_date d \<and> zone_exists z (Local d (local_time ?l))}"
    using assms(3) z(1) by (simp add: faithful_zone_def)
  then have "inj_on (\<lambda>d. zone_instant z (Local d (local_time ?l))) ?D"
    by (rule inj_on_subset) (auto simp: existing_dates_def series_dates_def)
  then show ?thesis
    unfolding z(2) by (simp add: occurrence_at_def comp_def distinct_map fin)
qed

lemma filter_update_other:
  "(\<And>r. r \<in> set rows \<Longrightarrow> q r \<Longrightarrow> \<not> P r \<and> \<not> P (g r)) \<Longrightarrow> filter P (update_where q g rows) = filter P rows"
  by (induction rows) (auto simp: update_where_def)

text \<open>
  C21: after a split the successor series has one note per occurrence of the new schedule, at its
  instant and with the fields of the request, and no other; of the replaced notes, the open ones of the old
  series from the boundary on, those with the key of an occurrence have become its note and
  the others are deleted and superseded; every other note is as it was.
\<close>

theorem split_series_result:
  assumes "service_ok env w" "split_series env sid p w = Inr (r, w')"
    and "valid_date (local_date (sf_local_start p))" "unique_keys w" "faithful_zone env (sf_timezone p)"
  shows "\<exists>occs ps. expand_payload env (min (max_series_occurrences env) 10000) p = Inr occs
    \<and> mset (filter (of_series (uuid4 env (draws w))) (w_notes w')) = mset ps
    \<and> list_all2 (placed p (strip (nw_title p)) (uuid4 env (draws w))) occs ps
    \<and> (\<forall>n \<in> set (w_notes w). if \<not> replaced sid (sp_recurrence_key p) n then n \<in> set (w_notes w')
        else if n_recurrence_key n \<in> (Some \<circ> instant_of) ` set occs then \<exists>m \<in> set ps. n_id m = n_id n \<and> n_recurrence_key m = n_recurrence_key n
        else n\<lparr>n_deleted_at := Some (clock env (Suc (ticks w))), n_superseded_at := Some (clock env (Suc (ticks w))),
          n_updated_at := clock env (Suc (ticks w)), n_version := n_version n + 1\<rparr> \<in> set (w_notes w'))"
  using assms(2)
proof (cases rule: split_series_cases)
  case (1 pl b u v kept x last_day)
  let ?now = "clock env (Suc (ticks w))" and ?succ = "uuid4 env (draws w)"
  let ?reusable = "filter (\<lambda>n. n_purged_at n = None) (pl_affected pl)"
  let ?rest = "filter (\<lambda>n. n_purged_at n = None \<and> n_id n \<notin> set kept) (pl_affected pl)"
  let ?g = "\<lambda>n. n\<lparr>n_deleted_at := Some ?now, n_superseded_at := Some ?now, n_updated_at := ?now, n_version := n_version n + 1\<rparr>"
  let ?S = "of_series ?succ"
  have S: "storage_ok w" and ok: "reminders_ok w" "fresh env w" using assms(1) by (simp_all add: service_ok_def)
  have b: "w_notes b = w_notes w" "w_series b = w_series w" unfolding 1(1) by (simp_all add: begin_tx_def)
  have old: "rs_id (pl_old pl) = sid"
    using split_checksD(1) [OF 1(2)] by (auto simp: locked_series_def dest!: find_Some_set split: option.splits if_splits)
  have key: "pl_key pl = sp_recurrence_key p" by (rule split_checksD(2) [OF 1(2)])
  have reus: "n \<in> set ?reusable \<longleftrightarrow> n \<in> set (w_notes w) \<and> replaced sid (sp_recurrence_key p) n" for n
    unfolding split_checksD(3) [OF 1(2)] affected_notes_def b old key by (auto simp: replaced_def)
  have ids: "distinct (map n_id ?reusable)"
    unfolding split_checksD(3) [OF 1(2)] affected_notes_def b
    by (intro distinct_map_filter selected_distinct [OF ok(1)])
  have dist: "distinct (map n_id (w_notes w))" by (rule rows_distinct [OF ok(1)])
  have none: "\<not> ?S n" if "n \<in> set (w_notes w)" for n
    using fresh_series_id [OF ok(2)] storage_okD(3) [OF S] that by (auto simp: series_known_def of_series_def)
  have u: "handler_keeps env w u" "w_notes u = w_notes w" by (rule split_start_keeps [OF 1(1,3)], simp)+
  then have ok_u: "reminders_ok u" "fresh env u" using ok by (auto simp: handler_keeps_def)
  have rows: "reusable_rows ?reusable u" using reus by (force simp: reusable_rows_def u(2))
  have unt: "untaken ?succ ?reusable [] u"
    using ids reus none by (auto simp: untaken_def u(2) replaced_def)
  have gen: "expand_payload env (min (max_series_occurrences env) 10000) p = Inr (pl_generated pl)"
    by (rule split_checksD(4) [OF 1(2)])
  have keys: "distinct (map instant_of (pl_generated pl))" by (rule distinct_instants [OF gen assms(3,5)])
  let ?found = "concat (map (found ?reusable) (pl_generated pl))"
  have title: "pl_title pl = strip (nw_title p)" by (rule split_checksD(6) [OF 1(2)])
  from place_loop_result [OF ok_u rows unt keys _ 1(4)]
  obtain ps where kept: "kept = map n_id ?found"
    and ps: "list_all2 (placed p (strip (nw_title p)) ?succ) (pl_generated pl) ps"
      "mset (filter ?S (w_notes v)) = mset (filter ?S (w_notes u)) + mset ps"
      "list_all2 (\<lambda>occ n. \<forall>m \<in> set (found ?reusable occ). n_id n = n_id m) (pl_generated pl) ps"
    and v: "\<forall>m \<in> set (w_notes u). n_id m \<in> n_id ` set ?found \<or> m \<in> set (w_notes v)"
    unfolding title by auto
  have "filter ?S (w_notes u) = []" using none by (simp add: u(2) filter_empty_conv)
  then have mv: "mset (filter ?S (w_notes v)) = mset ps" using ps(2) by simp
  have found_row: "n \<in> set (w_notes w) \<and> replaced sid (sp_recurrence_key p) n
      \<and> n_recurrence_key n \<in> (Some \<circ> instant_of) ` set (pl_generated pl)" if f: "n \<in> set ?found" for n
  proof -
    obtain occ where "occ \<in> set (pl_generated pl)" "n \<in> set (found ?reusable occ)"
      using f by auto
    with foundD [OF this(2)] reus show ?thesis by auto
  qed
  have same_row: "m = n" if "m \<in> set (w_notes w)" "n \<in> set (w_notes w)" "n_id m = n_id n" for m n
    using distinct_map_eqD [OF dist that(1,2)] that(3) by blast
  have dist_v: "distinct (map n_id (w_notes v))"
    using place_loop_keeps [OF ok_u rows 1(4)] ok_u by (auto simp: handler_keeps_def intro: rows_distinct)
  have rest: "n \<in> set ?rest \<longleftrightarrow> n \<in> set ?reusable \<and> n_id n \<notin> n_id ` set ?found" for n
    by (auto simp: kept)
  have rest_v: "n \<in> set (w_notes v)" if "n \<in> set ?rest" for n
    using v that reus rest by (auto simp: u(2))
  have dist_rest: "distinct (map n_id ?rest)"
    unfolding split_checksD(3) [OF 1(2)] affected_notes_def b
    by (intro distinct_map_filter selected_distinct [OF ok(1)])
  have notes_x: "w_notes w' = update_where (\<lambda>m. n_id m \<in> n_id ` set ?rest) ?g (w_notes v)"
  proof -
    have "w_notes w' = w_notes x" using 1(6) by (auto simp: updated_event_def row_simps)
    then show ?thesis unfolding 1(5) supersede_note_def [abs_def] by (simp add: change_loop_notes [OF dist_rest])
  qed
  have "filter ?S (w_notes w') = filter ?S (w_notes v)"
    unfolding notes_x
  proof (rule filter_update_other)
    fix m assume m: "m \<in> set (w_notes v)" "n_id m \<in> n_id ` set ?rest"
    then obtain n where n: "n \<in> set ?rest" "n_id m = n_id n" by blast
    then have "m = n" using distinct_map_eqD [OF dist_v m(1)] rest_v by blast
    then have "\<not> ?S m" using none n(1) rest reus by blast
    then show "\<not> ?S m \<and> \<not> ?S (?g m)" by (simp add: of_series_def)
  qed
  then have A: "mset (filter ?S (w_notes w')) = mset ps" using mv by simp
  have kept_row: "n \<in> set (w_notes w')" if "n \<in> set (w_notes v)" "n_id n \<notin> n_id ` set ?rest" for n
    using that unfolding notes_x by (force simp: set_update_where)
  have B: "n \<in> set (w_notes w')" if n: "n \<in> set (w_notes w)" "\<not> replaced sid (sp_recurrence_key p) n" for n
  proof (rule kept_row)
    have "n_id n \<notin> n_id ` set ?found" using found_row same_row [OF n(1)] n(2) by blast
    then show "n \<in> set (w_notes v)" using v n(1) by (auto simp: u(2))
    show "n_id n \<notin> n_id ` set ?rest" using rest reus same_row [OF n(1)] n(2) by blast
  qed
  have C: "\<exists>m \<in> set ps. n_id m = n_id n \<and> n_recurrence_key m = n_recurrence_key n"
    if n: "n \<in> set (w_notes w)" "replaced sid (sp_recurrence_key p) n" "occ \<in> set (pl_generated pl)"
      "n_recurrence_key n = Some (instant_of occ)" for n occ
  proof -
    have "n \<in> set ?reusable" using n(1,2) reus by blast
    then obtain m where m: "find (\<lambda>n. n_recurrence_key n = Some (instant_of occ)) ?reusable = Some m"
      using find_exists [of n ?reusable "\<lambda>n. n_recurrence_key n = Some (instant_of occ)"] n(4) by blast
    then have "m \<in> set ?reusable" "n_recurrence_key m = n_recurrence_key n" using find_Some_set [OF m] n(4) by simp_all
    then have "m = n" using assms(4) n reus unfolding unique_keys_def replaced_def by (metis option.distinct(1))
    then have f: "found ?reusable occ = [n]" using m by (simp add: found_def)
    obtain i where i: "i < length (pl_generated pl)" "pl_generated pl ! i = occ" using n(3) by (auto simp: in_set_conv_nth)
    have len: "length ps = length (pl_generated pl)" using ps(1) by (simp add: list_all2_lengthD)
    have "placed p (strip (nw_title p)) ?succ occ (ps ! i)" "n_id (ps ! i) = n_id n"
      using list_all2_nthD [OF ps(1) i(1)] list_all2_nthD [OF ps(3) i(1)] i(2) f by auto
    then show ?thesis using n(4) i(1) len by (auto simp: placed_def intro!: bexI [of _ "ps ! i"])
  qed
  have D: "?g n \<in> set (w_notes w')"
    if n: "n \<in> set (w_notes w)" "replaced sid (sp_recurrence_key p) n"
      "n_recurrence_key n \<notin> (Some \<circ> instant_of) ` set (pl_generated pl)" for n
  proof -
    have "n_id n \<notin> n_id ` set ?found" using found_row same_row [OF n(1)] n(3) by blast
    then have "n \<in> set ?rest" using rest reus n(1,2) by blast
    then show ?thesis using rest_v unfolding notes_x by (force simp: set_update_where)
  qed
  have "\<forall>n \<in> set (w_notes w). if \<not> replaced sid (sp_recurrence_key p) n then n \<in> set (w_notes w')
        else if n_recurrence_key n \<in> (Some \<circ> instant_of) ` set (pl_generated pl)
        then \<exists>m \<in> set ps. n_id m = n_id n \<and> n_recurrence_key m = n_recurrence_key n
        else ?g n \<in> set (w_notes w')"
    using B C D by auto
  with gen A ps(1) show ?thesis by blast
qed

subsection \<open>An instance\<close>

definition sample_split :: series_split where
  "sample_split = \<lparr>nw_title = ''Walk'', nw_body = [], nw_starts_at = 86400000000, nw_starts_offset = 0,
     nw_active = True, nw_tag_ids = [], nw_offsets = [10], sf_local_start = Local (Date 1970 1 2) 0,
     sf_timezone = ''UTC'', sf_frequency = Daily, sf_end_date = Date 1970 1 2,
     sp_recurrence_key = 5, sp_series_version = 1, sp_expected_occurrence_version = 1\<rparr>"

lemma sample_faithful: "faithful_zone sample_env ''UTC''"
  unfolding faithful_zone_def
proof (intro allI impI inj_onI)
  fix z t d e assume "gettz sample_env ''UTC'' = Some z"
    and de: "d \<in> {d. valid_date d \<and> zone_exists z (Local d t)}" "e \<in> {d. valid_date d \<and> zone_exists z (Local d t)}"
      "zone_instant z (Local d t) = zone_instant z (Local e t)"
  then have "z = utc_zone" by (simp add: sample_env_def)
  with de(3) have "toordinal d = toordinal e" by (simp add: utc_zone_def local_micros_def days_def seconds_def)
  with de(1,2) show "d = e" using toordinal_eq_iff by blast
qed

lemma sample_split_expansion: "expand_payload sample_env 10000 sample_split = Inr [Occurrence (Local (Date 1970 1 2) 0) 86400000000]"
  by (simp add: expand_payload_def sample_split_def sample_env_def expand_occurrences_def naive_def
      expand_loop.simps evaluate_expansion local_micros_def days_def seconds_def days_before_year_def
      days_before_month_def)

lemma sample_split_runs:
  obtains r w' where "split_series sample_env 9 sample_split series_world = Inr (r, w')"
proof -
  have f: "frequency_from_rrule (normalized_rrule Daily) = Inr Daily"
    by (simp add: frequency_from_rrule_def normalized_rrule_def upper_def lower_def lower_char_def
      split_first_def removeprefix_def startswith_def code_point_def char_of_def bit_0 Let_def)
  have day: "utc_datetime 5 = Some (Local (Date 1970 1 1) 5)"
    by (simp add: utc_datetime_def utc_date_def days_def seconds_def)
  have t: "strip ''Walk'' = ''Walk''" by (simp add: strip_def is_space_def code_point_def)
  let ?b = "(begin_tx sample_env series_world)\<lparr>ticks := Suc (ticks (begin_tx sample_env series_world))\<rparr>"
  let ?n = "sample_note\<lparr>n_series_id := Some 9, n_recurrence_key := Some 5\<rparr>"
  have p: "sp_recurrence_key sample_split = 5" "sp_series_version sample_split = 1"
      "sp_expected_occurrence_version sample_split = 1" "nw_starts_at sample_split = 86400000000"
      "nw_tag_ids sample_split = []" "nw_title sample_split = ''Walk''" "sf_frequency sample_split = Daily"
    by (simp_all add: sample_split_def)
  have e: "max_series_occurrences sample_env = 10000" "clock sample_env k = 1000000 * (1 + int k)" for k
    by (simp_all add: sample_env_def)
  have b: "w_notes ?b = [?n]" "w_series ?b = [series_of sample_series ''Call'' 9 0]"
    by (simp_all add: begin_tx_def series_world_def sample_world_def)
  let ?s = "series_of sample_series ''Call'' 9 0"
  have L: "locked_series 9 None ?b = Inr ?s"
    by (simp add: locked_series_def b) (simp add: series_of_def)
  have s: "rs_id ?s = 9" "rs_split_boundary ?s = None" "rs_version ?s = 1" "rs_predecessor_id ?s = None" "rs_lineage_id ?s = 9"
    by (simp_all add: series_of_def)
  have succ: "successor_of ?b 9 = None" by (simp add: successor_of_def b s)
  have aff: "affected_notes ?b 9 5 = [?n]" by (simp add: affected_notes_def b key_from_def sample_note_def)
  have col: "colliding_notes ?b ?s 5 ks = []" for ks by (simp add: colliding_notes_def b sample_note_def)
  have n: "n_version ?n = 1" "n_starts_at ?n = 7200000000" "n_trash_action_id ?n = None" "n_series_trashed_at ?n = None"
    "n_series_id ?n = Some 9" "n_recurrence_key ?n = Some 5" "n_superseded_at ?n = None" "n_purged_at ?n = None"
    by (simp_all add: sample_note_def minutes_def seconds_def)
  have now: "clock sample_env (ticks (begin_tx sample_env series_world)) = 2000000"
    by (simp add: e begin_tx_def series_world_def sample_world_def empty_world_def)
  have last: "prev_day (local_date (to_local sample_env (rs_timezone ?s) 5)) = Some (Date 1969 12 31)"
    by (simp add: sample_env_def utc_local_def day days_in_month_def)
  have checks: "split_checks sample_env 9 sample_split 2000000 ?b
      = Inr \<lparr>pl_old = ?s, pl_key = 5, pl_affected = [?n],
          pl_generated = [Occurrence (Local (Date 1970 1 2) 0) 86400000000], pl_title = ''Walk''\<rparr>"
    unfolding split_checks_def L
    using sample_split_expansion
    by (simp only: try_then_simps s succ p b aff col n e) (simp add: b n aff col validate_tags_def p t sample_split_expansion)
  have "case split_series sample_env 9 sample_split series_world of Inl e \<Rightarrow> False | Inr x \<Rightarrow> True"
    unfolding split_series_def utcnow_def Let_def prod.case now checks try_then_simps
    by (simp add: new_uuid_def successor_series_def series_response_data_def f raised_def p last Let_def split: prod.splits)
  then show thesis using that by (auto split: sum.splits)
qed

theorem split_series_result_witness:
  "\<exists>r w' ps. split_series sample_env 9 sample_split series_world = Inr (r, w')
    \<and> mset (filter (of_series 1000) (w_notes w')) = mset ps \<and> map n_starts_at ps = [86400000000]
    \<and> map n_title ps = [''Walk'']
    \<and> sample_note\<lparr>n_series_id := Some 9, n_recurrence_key := Some 5, n_deleted_at := Some 2000000,
        n_superseded_at := Some 2000000, n_updated_at := 2000000, n_version := 2\<rparr> \<in> set (w_notes w')"
proof -
  obtain r w' where r: "split_series sample_env 9 sample_split series_world = Inr (r, w')"
    by (rule sample_split_runs)
  have v: "valid_date (local_date (sf_local_start sample_split))" by (simp add: sample_split_def days_in_month_def)
  have k: "unique_keys series_world" by (simp add: unique_keys_def series_world_def)
  have z: "faithful_zone sample_env (sf_timezone sample_split)" using sample_faithful by (simp add: sample_split_def)
  have e: "uuid4 sample_env (draws series_world) = 1000" "clock sample_env (Suc (ticks series_world)) = 2000000"
    "min (max_series_occurrences sample_env) 10000 = 10000"
    by (simp_all add: sample_env_def series_world_def sample_world_def empty_world_def)
  have t: "strip (nw_title sample_split) = ''Walk''" by (simp add: sample_split_def strip_def is_space_def code_point_def)
  let ?n = "sample_note\<lparr>n_series_id := Some 9, n_recurrence_key := Some 5\<rparr>"
  have n: "?n \<in> set (w_notes series_world)" "replaced 9 (sp_recurrence_key sample_split) ?n"
    "n_recurrence_key ?n \<notin> (Some \<circ> instant_of) ` set [Occurrence (Local (Date 1970 1 2) 0) 86400000000]"
    by (simp_all add: series_world_def replaced_def key_from_def sample_split_def sample_note_def)
  from split_series_result [OF series_world_ok r v k z]
  obtain ps where ps: "mset (filter (of_series 1000) (w_notes w')) = mset ps"
      "list_all2 (placed sample_split ''Walk'' 1000) [Occurrence (Local (Date 1970 1 2) 0) 86400000000] ps"
      "\<forall>n \<in> set (w_notes series_world). if \<not> replaced 9 (sp_recurrence_key sample_split) n then n \<in> set (w_notes w')
        else if n_recurrence_key n \<in> (Some \<circ> instant_of) ` set [Occurrence (Local (Date 1970 1 2) 0) 86400000000]
          then \<exists>m \<in> set ps. n_id m = n_id n \<and> n_recurrence_key m = n_recurrence_key n
        else n\<lparr>n_deleted_at := Some 2000000, n_superseded_at := Some 2000000, n_updated_at := 2000000,
          n_version := n_version n + 1\<rparr> \<in> set (w_notes w')"
    unfolding e t sample_split_expansion sum.inject by blast
  have "?n\<lparr>n_deleted_at := Some 2000000, n_superseded_at := Some 2000000, n_updated_at := 2000000, n_version := n_version ?n + 1\<rparr>
      \<in> set (w_notes w')"
    using bspec [OF ps(3) n(1)] n(2,3) by (simp only: simp_thms if_True if_False)
  then have "sample_note\<lparr>n_series_id := Some 9, n_recurrence_key := Some 5, n_deleted_at := Some 2000000,
        n_superseded_at := Some 2000000, n_updated_at := 2000000, n_version := 2\<rparr> \<in> set (w_notes w')"
    by (simp add: sample_note_def)
  moreover have "map n_starts_at ps = [86400000000]" "map n_title ps = [''Walk'']"
    using ps(2) by (auto simp: list_all2_Cons1 placed_def)
  ultimately show ?thesis using r ps(1) by (intro exI [of _ r] exI [of _ w'] exI [of _ ps] conjI)
qed

end
