(* ===== verification/Migration.thy ===== *)
theory Migration
  imports Models
begin

section \<open>Migration 0004: backfill and repairs (migrations/versions/0004_storage_contract.py)\<close>

text \<open>
  The data changes of the migration, one definition per UPDATE or DELETE in the order of
  \<open>upgrade\<close>, and what they make true of the tables before the constraints are added. \<open>clk\<close> gives the readings of \<^verbatim>\<open>clock_timestamp()\<close>.
\<close>

subsection \<open>Deliveries before the migration\<close>

text \<open>The row with the column \<open>error\<close>, which the migration drops, and \<open>updated_at\<close>, which it reads.\<close>

record legacy_delivery = reminder_delivery +
  ld_error :: "string option"
  ld_updated_at :: "instant option"

definition derive_error_code :: "legacy_delivery \<Rightarrow> legacy_delivery" where
  "derive_error_code d = d\<lparr>d_error_code :=
     (if d_state d = Failed \<and> ld_error d \<noteq> None then Some ''delivery_failed_legacy''
      else if d_state d = Unknown \<and> ld_error d \<noteq> None then Some ''delivery_outcome_unknown_legacy''
      else None)\<rparr>"

definition clear_pending :: "legacy_delivery \<Rightarrow> legacy_delivery" where
  "clear_pending d = d\<lparr>d_claim_token := None, d_claim_expires_at := None, d_authorized_at := None,
     d_recipient_snapshot := None, d_content_snapshot := None, d_result_at := None, d_error_code := None\<rparr>"

definition unclaimed :: "legacy_delivery \<Rightarrow> bool" where
  "unclaimed d \<longleftrightarrow> d_state d = Claimed \<and> (d_claim_token d = None \<or> d_claim_expires_at d = None)"

definition release_claim :: "legacy_delivery \<Rightarrow> legacy_delivery" where
  "release_claim d = (clear_pending d)\<lparr>d_state := Pending\<rparr>"

definition coalesce :: "'a option list \<Rightarrow> 'a option" where
  "coalesce xs = (case dropWhile (\<lambda>x. x = None) xs of [] \<Rightarrow> None | x # _ \<Rightarrow> x)"

definition clear_settled :: "(uuid \<Rightarrow> instant) \<Rightarrow> legacy_delivery \<Rightarrow> legacy_delivery" where
  "clear_settled clk d = d\<lparr>d_claim_token := None, d_claim_expires_at := None, d_authorized_at := None,
     d_recipient_snapshot := None, d_content_snapshot := None,
     d_result_at := coalesce [d_result_at d, ld_updated_at d, Some (clk (d_id d))], d_error_code := None\<rparr>"

definition backfill_deliveries :: "(uuid \<Rightarrow> instant) \<Rightarrow> legacy_delivery list \<Rightarrow> legacy_delivery list" where
  "backfill_deliveries clk ds =
     (let ds = map derive_error_code ds;
          ds = update_where (\<lambda>d. d_state d = Pending) clear_pending ds;
          ds = update_where unclaimed release_claim ds;
          ds = update_where (\<lambda>d. d_state d \<in> {Missed, Cancelled}) (clear_settled clk) ds;
          ds = update_where (\<lambda>d. d_state d = Failed \<and> d_error_code d = None)
                 (\<lambda>d. d\<lparr>d_error_code := Some ''delivery_failed_legacy''\<rparr>) ds
      in update_where (\<lambda>d. d_state d = Unknown \<and> d_error_code d = None)
           (\<lambda>d. d\<lparr>d_error_code := Some ''delivery_outcome_unknown_legacy''\<rparr>) ds)"

text \<open>Adding the two constraints fails unless every row satisfies them.\<close>

definition add_delivery_checks :: "legacy_delivery list \<Rightarrow> string + reminder_delivery list" where
  "add_delivery_checks ds =
     (let ds = map reminder_delivery.truncate ds
      in if \<not> list_all delivery_error_allowed ds then Inl ''ck_delivery_error_code_allowlist''
         else if \<not> list_all delivery_shape ds then Inl ''ck_delivery_state_shape'' else Inr ds)"

text \<open>What the migration takes for granted of the rows it does not rewrite.\<close>

definition well_recorded :: "legacy_delivery \<Rightarrow> bool" where
  "well_recorded d = (case d_state d of
       Pending \<Rightarrow> True | Missed \<Rightarrow> True | Cancelled \<Rightarrow> True
     | Claimed \<Rightarrow> unclaimed d \<or> d_authorized_at d = None \<and> d_recipient_snapshot d = None
         \<and> d_content_snapshot d = None \<and> d_result_at d = None
     | AttemptStarted \<Rightarrow> d_claim_token d \<noteq> None \<and> d_claim_expires_at d = None \<and> d_authorized_at d \<noteq> None
         \<and> d_recipient_snapshot d \<noteq> None \<and> d_content_snapshot d \<noteq> None \<and> d_result_at d = None
     | _ \<Rightarrow> d_claim_token d \<noteq> None \<and> d_claim_expires_at d = None \<and> d_authorized_at d \<noteq> None
         \<and> (d_recipient_snapshot d = None \<longleftrightarrow> d_content_snapshot d = None) \<and> d_result_at d \<noteq> None)"

definition backfill_row :: "(uuid \<Rightarrow> instant) \<Rightarrow> legacy_delivery \<Rightarrow> legacy_delivery" where
  "backfill_row clk d =
     (if d_state d = Pending then clear_pending d
      else if unclaimed d then release_claim d
      else if d_state d \<in> {Missed, Cancelled} then clear_settled clk d
      else d\<lparr>d_error_code := (if d_state d = Failed then Some ''delivery_failed_legacy''
        else if d_state d = Unknown then Some ''delivery_outcome_unknown_legacy'' else None)\<rparr>)"

lemma coalesce_result [simp]: "coalesce [a, b, Some c] \<noteq> None"
  by (simp add: coalesce_def)

lemma derived [simp]:
  "d_state (derive_error_code d) = d_state d" "unclaimed (derive_error_code d) = unclaimed d"
  "clear_pending (derive_error_code d) = clear_pending d" "release_claim (derive_error_code d) = release_claim d"
  "clear_settled clk (derive_error_code d) = clear_settled clk d"
  by (simp_all add: derive_error_code_def unclaimed_def clear_pending_def release_claim_def clear_settled_def)

lemma cleared [simp]:
  "d_state (clear_pending d) = d_state d" "d_state (clear_settled clk d) = d_state d" "d_state (release_claim d) = Pending"
  by (simp_all add: clear_pending_def release_claim_def clear_settled_def)

lemma unclaimed_state: "d_state d \<noteq> Claimed \<Longrightarrow> \<not> unclaimed d"
  by (simp add: unclaimed_def)

lemma backfill_rows: "backfill_deliveries clk ds = map (backfill_row clk) ds"
proof -
  let ?steps = "\<lambda>d. (let d = derive_error_code d;
      d = (if d_state d = Pending then clear_pending d else d);
      d = (if unclaimed d then release_claim d else d);
      d = (if d_state d \<in> {Missed, Cancelled} then clear_settled clk d else d);
      d = (if d_state d = Failed \<and> d_error_code d = None then d\<lparr>d_error_code := Some ''delivery_failed_legacy''\<rparr> else d)
    in if d_state d = Unknown \<and> d_error_code d = None
       then d\<lparr>d_error_code := Some ''delivery_outcome_unknown_legacy''\<rparr> else d)"
  have "?steps d = backfill_row clk d" for d
    by (cases "d_state d")
      (simp_all add: backfill_row_def unclaimed_state, simp_all add: derive_error_code_def Let_def)
  then have "map ?steps ds = map (backfill_row clk) ds" by simp
  moreover have "backfill_deliveries clk ds = map ?steps ds"
    unfolding backfill_deliveries_def update_where_def Let_def map_map comp_def ..
  ultimately show ?thesis by simp
qed

lemma backfill_row_checks:
  "delivery_error_allowed (reminder_delivery.truncate (backfill_row clk d))"
  "delivery_shape (reminder_delivery.truncate (backfill_row clk d)) \<longleftrightarrow> well_recorded d"
proof -
  note D = backfill_row_def clear_pending_def release_claim_def unclaimed_def clear_settled_def
    well_recorded_def delivery_error_allowed_def reminder_delivery.truncate_def
  show "delivery_error_allowed (reminder_delivery.truncate (backfill_row clk d))"
    by (simp add: D)
  show "delivery_shape (reminder_delivery.truncate (backfill_row clk d)) \<longleftrightarrow> well_recorded d"
    by (cases "d_state d") (auto simp: D shape_simps)
qed

text \<open>
  C33: after the backfill the two CHECK constraints of migration 0004 can be added exactly when the
  rows it does not rewrite, those claimed or attempted, were well recorded; pending, missed and
  cancelled rows and claims without token or expiry are always put right.
\<close>

theorem delivery_checks_added:
  "(\<exists>rows. add_delivery_checks (backfill_deliveries clk ds) = Inr rows) \<longleftrightarrow> list_all well_recorded ds"
  unfolding add_delivery_checks_def backfill_rows
  by (simp add: list_all_iff backfill_row_checks)

subsection \<open>Events before the migration\<close>

record legacy_event = outbox_event +
  le_last_error :: "string option"

definition backfill_events :: "legacy_event list \<Rightarrow> legacy_event list" where
  "backfill_events es = update_where (\<lambda>e. le_last_error e \<noteq> None)
     (\<lambda>e. e\<lparr>ev_error_code := Some ''outbox_publish_failed_legacy''\<rparr>) (map (\<lambda>e. e\<lparr>ev_error_code := None\<rparr>) es)"

definition add_outbox_checks :: "legacy_event list \<Rightarrow> string + outbox_event list" where
  "add_outbox_checks es =
     (let es = map outbox_event.truncate es
      in if \<not> list_all outbox_error_allowed es then Inl ''ck_outbox_error_code_allowlist''
         else if \<not> list_all outbox_shape es then Inl ''ck_outbox_state_shape'' else Inr es)"

text \<open>Unlike the deliveries, the events are not put right: a published one must be clean.\<close>

lemma outbox_checks_added:
  "(\<exists>rows. add_outbox_checks (backfill_events es) = Inr rows) \<longleftrightarrow>
     list_all (\<lambda>e. ev_published_at e \<noteq> None \<longrightarrow> ev_next_attempt_at e = None \<and> le_last_error e = None) es"
proof -
  define f :: "legacy_event \<Rightarrow> outbox_event" where "f e = outbox_event.truncate (if le_last_error e \<noteq> None
      then e\<lparr>ev_error_code := Some ''outbox_publish_failed_legacy''\<rparr> else e\<lparr>ev_error_code := None\<rparr>)" for e
  have rows: "map outbox_event.truncate (backfill_events es) = map f es"
    by (auto simp: backfill_events_def update_where_def f_def)
  have "outbox_error_allowed (f e)" for e by (simp add: outbox_error_allowed_def outbox_event.truncate_def f_def)
  moreover have "outbox_shape (f e) \<longleftrightarrow> (ev_published_at e \<noteq> None \<longrightarrow> ev_next_attempt_at e = None \<and> le_last_error e = None)" for e
    by (auto simp: outbox_shape_def outbox_event.truncate_def f_def)
  ultimately show ?thesis unfolding add_outbox_checks_def rows by (auto simp: list_all_iff)
qed

subsection \<open>Repairs\<close>

definition repair_ghost :: "note_row \<Rightarrow> note_row" where
  "repair_ghost n = n\<lparr>n_deleted_at := n_superseded_at n\<rparr>"

definition repair_notes :: "world \<Rightarrow> world" where
  "repair_notes w = w\<lparr>w_notes := update_where (\<lambda>n. n_superseded_at n \<noteq> None \<and> n_purged_at n = None \<and> n_deleted_at n = None)
     repair_ghost (w_notes w)\<rparr>"

definition of_hidden_note :: "world \<Rightarrow> reminder_delivery \<Rightarrow> bool" where
  "of_hidden_note w d \<longleftrightarrow> (\<exists>r \<in> set (w_rules w). \<exists>n \<in> set (w_notes w). d_reminder_rule_id d = r_id r \<and> r_note_id r = n_id n
     \<and> (n_superseded_at n \<noteq> None \<or> n_purged_at n \<noteq> None))"

definition repair_deliveries :: "(uuid \<Rightarrow> instant) \<Rightarrow> world \<Rightarrow> world" where
  "repair_deliveries clk w = w\<lparr>w_deliveries := update_where
     (\<lambda>d. of_hidden_note w d \<and> (d_state d = Pending \<or> d_state d = Claimed))
     (\<lambda>d. d\<lparr>d_state := Cancelled, d_claim_token := None, d_claim_expires_at := None,
        d_result_at := Some (clk (d_id d)), d_error_code := None\<rparr>) (w_deliveries w)\<rparr>"

definition at_key :: "occurrence_exception \<Rightarrow> note_row \<Rightarrow> bool" where
  "at_key x n \<longleftrightarrow> n_series_id n = Some (oe_series_id x) \<and> n_recurrence_key n = Some (oe_recurrence_key x)"

definition drop_superseded_exceptions :: "world \<Rightarrow> world" where
  "drop_superseded_exceptions w = w\<lparr>w_exceptions := filter (\<lambda>x. \<not> (\<exists>n \<in> set (w_notes w). at_key x n
     \<and> n_superseded_at n \<noteq> None \<and> n_purged_at n = None)) (w_exceptions w)\<rparr>"

definition cancel_purged_exceptions :: "world \<Rightarrow> world" where
  "cancel_purged_exceptions w = w\<lparr>w_exceptions := update_where
     (\<lambda>x. \<exists>n \<in> set (w_notes w). at_key x n \<and> n_purged_at n \<noteq> None)
     (\<lambda>x. x\<lparr>oe_cancelled := True, oe_overridden_fields := []\<rparr>) (w_exceptions w)\<rparr>"

definition repair :: "(uuid \<Rightarrow> instant) \<Rightarrow> world \<Rightarrow> world" where
  "repair clk w = cancel_purged_exceptions (drop_superseded_exceptions (repair_deliveries clk (repair_notes w)))"

lemma repaired_tables:
  "w_notes (repair clk w) = w_notes (repair_notes w)" "w_rules (repair clk w) = w_rules w"
  "w_deliveries (repair clk w) = w_deliveries (repair_deliveries clk (repair_notes w))"
  by (simp_all add: repair_def cancel_purged_exceptions_def drop_superseded_exceptions_def repair_deliveries_def repair_notes_def)

lemma at_key_repaired: "at_key x (repair_ghost n) = at_key x n"
  by (simp add: at_key_def repair_ghost_def)

lemma ghost_hidden:
  "n_superseded_at (repair_ghost n) = n_superseded_at n" "n_purged_at (repair_ghost n) = n_purged_at n"
  "n_id (repair_ghost n) = n_id n" "n_deleted_at (repair_ghost n) = n_superseded_at n"
  by (simp_all add: repair_ghost_def)

lemma of_hidden_note_cong:
  "w_notes u = w_notes v \<Longrightarrow> w_rules u = w_rules v \<Longrightarrow> of_hidden_note u d = of_hidden_note v d"
  by (simp add: of_hidden_note_def)

lemma repaired_deliveries:
  assumes "d \<in> set (w_deliveries (repair clk w))" "list_all delivery_shape (w_deliveries w)"
  shows "delivery_shape d" "of_hidden_note (repair clk w) d \<Longrightarrow> \<not> open_delivery d"
proof -
  let ?u = "repair_notes w"
  have hid: "of_hidden_note (repair clk w) d = of_hidden_note ?u d"
    by (rule of_hidden_note_cong) (simp_all add: repaired_tables, simp add: repair_notes_def)
  obtain e where e: "e \<in> set (w_deliveries w)" "d = (if of_hidden_note ?u e \<and> (d_state e = Pending \<or> d_state e = Claimed)
      then e\<lparr>d_state := Cancelled, d_claim_token := None, d_claim_expires_at := None,
        d_result_at := Some (clk (d_id e)), d_error_code := None\<rparr> else e)"
    using assms(1) by (auto simp: repaired_tables repair_deliveries_def repair_notes_def update_where_def)
  have s: "delivery_shape e" using assms(2) e(1) by (simp add: list_all_iff)
  show "delivery_shape d" using s by (cases "d_state e") (auto simp: e(2) shape_simps)
  have rule: "of_hidden_note ?u d = of_hidden_note ?u e" by (simp add: e(2) of_hidden_note_def)
  show "\<not> open_delivery d" if "of_hidden_note (repair clk w) d"
    using that e(2) unfolding hid rule by (cases "d_state e") (auto simp: open_delivery_def)
qed

lemma repaired_exception:
  assumes x: "x \<in> set (w_exceptions (repair clk w))" and n: "n \<in> set (w_notes (repair clk w))" "at_key x n"
  shows "if n_purged_at n \<noteq> None then oe_cancelled x \<and> oe_overridden_fields x = [] else n_superseded_at n = None"
proof -
  let ?rows = "w_notes (repair_notes w)"
  have tabs: "w_exceptions (repair_deliveries clk (repair_notes w)) = w_exceptions w"
    "w_notes (repair_deliveries clk (repair_notes w)) = ?rows"
    by (simp_all add: repair_deliveries_def repair_notes_def)
  let ?gone = "\<lambda>x. \<exists>n \<in> set ?rows. at_key x n \<and> n_superseded_at n \<noteq> None \<and> n_purged_at n = None"
  let ?purged = "\<lambda>x. \<exists>n \<in> set ?rows. at_key x n \<and> n_purged_at n \<noteq> None"
  have "x \<in> set (update_where ?purged (\<lambda>x. x\<lparr>oe_cancelled := True, oe_overridden_fields := []\<rparr>)
      (filter (\<lambda>x. \<not> ?gone x) (w_exceptions w)))"
    using x by (simp add: repair_def cancel_purged_exceptions_def drop_superseded_exceptions_def tabs del: bex_simps)
  then obtain y where y: "y \<in> set (filter (\<lambda>x. \<not> ?gone x) (w_exceptions w))"
    "x = (if ?purged y then y\<lparr>oe_cancelled := True, oe_overridden_fields := []\<rparr> else y)"
    by (rule updated_row)
  have kept: "\<not> ?gone y" using y(1) by (simp only: set_filter mem_Collect_eq simp_thms)
  have "at_key x = at_key y" unfolding y(2) at_key_def by (cases "?purged y") simp_all
  moreover have "n \<in> set ?rows" using n(1) by (simp add: repaired_tables)
  ultimately have at: "n \<in> set ?rows" "at_key y n" using n(2) by simp_all
  show ?thesis
  proof (cases "n_purged_at n = None")
    case True
    with at kept have "n_superseded_at n = None" by blast
    with True show ?thesis by simp
  next
    case False
    with at have "?purged y" by blast
    with False y(2) show ?thesis by simp
  qed
qed

text \<open>
  C34: after the repairs of migration 0004 every superseded note that is not purged is deleted, the reminders
  of superseded and purged notes are no longer open, no exception is left at the key of a
  superseded note and those of purged notes are empty cancellations; the constraint on the deliveries still holds.
\<close>

theorem repair_establishes:
  assumes "list_all delivery_shape (w_deliveries w)"
  shows "(\<forall>n \<in> set (w_notes (repair clk w)). n_superseded_at n \<noteq> None \<longrightarrow> n_purged_at n = None \<longrightarrow> n_deleted_at n \<noteq> None)
    \<and> (\<forall>d \<in> set (w_deliveries (repair clk w)). delivery_shape d \<and> (of_hidden_note (repair clk w) d \<longrightarrow> \<not> open_delivery d))
    \<and> (\<forall>x \<in> set (w_exceptions (repair clk w)). \<forall>n \<in> set (w_notes (repair clk w)). at_key x n \<longrightarrow>
        (if n_purged_at n \<noteq> None then oe_cancelled x \<and> oe_overridden_fields x = [] else n_superseded_at n = None))"
proof (intro conjI ballI impI)
  fix n assume n: "n \<in> set (w_notes (repair clk w))" "n_superseded_at n \<noteq> None" "n_purged_at n = None"
  have "n \<in> set (update_where (\<lambda>n. n_superseded_at n \<noteq> None \<and> n_purged_at n = None \<and> n_deleted_at n = None) repair_ghost (w_notes w))"
    using n(1) by (simp add: repaired_tables repair_notes_def)
  then obtain m where "n = (if n_superseded_at m \<noteq> None \<and> n_purged_at m = None \<and> n_deleted_at m = None then repair_ghost m else m)"
    by (rule updated_row)
  with n(2,3) show "n_deleted_at n \<noteq> None" by (auto simp: ghost_hidden split: if_splits)
qed (use repaired_deliveries [OF _ assms] repaired_exception in blast)+

definition ghost_world :: world where
  "ghost_world = empty_world\<lparr>
     w_notes := [\<lparr>n_id = 1, n_title = ''Call'', n_body = [], n_starts_at = 10, n_active = True, n_deleted_at = None,
       n_superseded_at = Some 40, n_series_trashed_at = None, n_purged_at = None, n_series_id = Some 9,
       n_recurrence_key = Some 5, n_trash_action_id = None, n_created_at = 0, n_updated_at = 40, n_version = 2\<rparr>],
     w_rules := [\<lparr>r_id = 2, r_note_id = 1, r_offset_minutes = 10, r_enabled = True, r_current_cycle_number = 1\<rparr>],
     w_deliveries := [\<lparr>d_id = 3, d_reminder_rule_id = 2, d_cycle_number = 1, d_due_at = 0, d_state = Pending,
       d_claim_token = None, d_claim_expires_at = None, d_authorized_at = None, d_recipient_snapshot = None,
       d_content_snapshot = None, d_result_at = None, d_error_code = None\<rparr>]\<rparr>"

theorem repair_establishes_witness:
  "list_all (\<lambda>d. delivery_shape d \<and> \<not> open_delivery d) (w_deliveries (repair (\<lambda>i. 100) ghost_world))
    \<and> length (w_deliveries (repair (\<lambda>i. 100) ghost_world)) = 1"
proof -
  have "list_all delivery_shape (w_deliveries ghost_world)"
    by (simp add: ghost_world_def shape_simps)
  note R = repair_establishes [OF this, of "\<lambda>i. 100"]
  have "of_hidden_note (repair (\<lambda>i. 100) ghost_world) d" if "d \<in> set (w_deliveries (repair (\<lambda>i. 100) ghost_world))" for d
    using that
    by (simp add: repaired_tables of_hidden_note_def repair_deliveries_def repair_notes_def repair_ghost_def
        ghost_world_def empty_world_def update_where_def)
  with R have "list_all (\<lambda>d. delivery_shape d \<and> \<not> open_delivery d) (w_deliveries (repair (\<lambda>i. 100) ghost_world))"
    unfolding list_all_iff by blast
  moreover have "length (w_deliveries (repair (\<lambda>i. 100) ghost_world)) = 1"
    by (simp add: repaired_tables repair_deliveries_def repair_notes_def ghost_world_def)
  ultimately show ?thesis ..
qed

end
