(* ===== verification/Triggers.thy ===== *)
theory Triggers
  imports Models
begin

section \<open>The triggers of migration 0004 (migrations/versions/0004_storage_contract.py)\<close>

text \<open>
  The trigger functions as functions of the tables, the old row and the new one: the row that is
  stored, or the message of RAISE. A statement changes one table, row by row under its trigger and
  within its keys; a transaction is a list of statements and the deferred checks of its commit.
  What holds after any transaction, whoever wrote it, is proved of these.
\<close>

subsection \<open>Guards\<close>

definition misfit :: "trash_action \<Rightarrow> note_row \<Rightarrow> bool" where
  "misfit a n \<longleftrightarrow> n_series_id n \<noteq> Some (ta_series_id a)
     \<or> (case n_recurrence_key n of None \<Rightarrow> False | Some k \<Rightarrow> k < ta_boundary a)
     \<or> n_deleted_at n \<noteq> Some (ta_trashed_at a) \<or> n_trash_action_id n \<noteq> Some (ta_id a)
     \<or> n_purged_at n \<noteq> None \<or> n_superseded_at n \<noteq> None"

definition members_fit :: "world \<Rightarrow> trash_action \<Rightarrow> bool" where
  "members_fit w a \<longleftrightarrow>
     (\<exists>m \<in> set (w_members w). fst m = ta_id a)
     \<and> \<not> (\<exists>m \<in> set (w_members w). fst m = ta_id a \<and> (\<exists>n \<in> set (w_notes w). n_id n = snd m \<and> misfit a n))
     \<and> \<not> (\<exists>n \<in> set (w_notes w). n_trash_action_id n = Some (ta_id a) \<and> (ta_id a, n_id n) \<notin> set (w_members w))"

definition guard_action_update :: "instant \<Rightarrow> world \<Rightarrow> trash_action \<Rightarrow> trash_action \<Rightarrow> string + trash_action" where
  "guard_action_update now w old new =
     (if ta_sealed_at old \<noteq> None then Inl ''sealed recurring trash actions are immutable''
      else if ta_id new \<noteq> ta_id old \<or> ta_series_id new \<noteq> ta_series_id old \<or> ta_boundary new \<noteq> ta_boundary old
        \<or> ta_trashed_at new \<noteq> ta_trashed_at old
      then Inl ''recurring trash action identity is immutable''
      else if ta_sealed_at new \<noteq> None then
        (if members_fit w old then Inr (new\<lparr>ta_sealed_at := Some now\<rparr>)
         else Inl ''recurring trash action membership is incomplete'')
      else Inr new)"

definition guard_action_delete :: "world \<Rightarrow> trash_action \<Rightarrow> string + trash_action" where
  "guard_action_delete w old =
     (if ta_sealed_at old \<noteq> None then Inl ''sealed recurring trash actions are immutable'' else Inr old)"

definition sealed :: "world \<Rightarrow> uuid \<Rightarrow> bool" where
  "sealed w i \<longleftrightarrow> (\<exists>a \<in> set (w_actions w). ta_id a = i \<and> ta_sealed_at a \<noteq> None)"

text \<open>\<open>COALESCE(NEW.action_id, OLD.action_id)\<close>: of an UPDATE, the action of the new row.\<close>

definition guard_member :: "world \<Rightarrow> (uuid \<times> uuid) option \<Rightarrow> (uuid \<times> uuid) option \<Rightarrow> string + unit" where
  "guard_member w old new =
     (case (case new of Some m \<Rightarrow> Some (fst m) | None \<Rightarrow> map_option fst old) of
        None \<Rightarrow> Inr ()
      | Some i \<Rightarrow> if sealed w i then Inl ''sealed recurring trash action membership is immutable'' else Inr ())"

definition guard_note_update :: "world \<Rightarrow> note_row \<Rightarrow> note_row \<Rightarrow> string + note_row" where
  "guard_note_update w old new =
     (if n_purged_at old \<noteq> None then Inl ''purged notes are immutable''
      else if n_trash_action_id new \<noteq> n_trash_action_id old
        \<and> (case n_trash_action_id new of None \<Rightarrow> False | Some i \<Rightarrow> sealed w i)
      then Inl ''cannot assign membership after action seal'' else Inr new)"

definition guard_note_delete :: "world \<Rightarrow> note_row \<Rightarrow> string + note_row" where
  "guard_note_delete w old = (if n_purged_at old \<noteq> None then Inl ''purged notes are immutable'' else Inr old)"

definition guard_series_update :: "world \<Rightarrow> recurrence_series \<Rightarrow> recurrence_series \<Rightarrow> string + recurrence_series" where
  "guard_series_update w old new =
     (if rs_purged_at old \<noteq> None then Inl ''purged recurrence series are immutable'' else Inr new)"

definition guard_series_delete :: "world \<Rightarrow> recurrence_series \<Rightarrow> string + recurrence_series" where
  "guard_series_delete w old =
     (if rs_purged_at old \<noteq> None then Inl ''purged recurrence series are immutable'' else Inr old)"

subsection \<open>Statements\<close>

fun update_rows :: "('r \<Rightarrow> bool) \<Rightarrow> ('r \<Rightarrow> string + 'r) \<Rightarrow> 'r list \<Rightarrow> string + 'r list" where
  "update_rows p g [] = Inr []"
| "update_rows p g (r # rs) =
     try_then (if p r then g r else Inr r) (\<lambda>r'. try_then (update_rows p g rs) (\<lambda>rs'. Inr (r' # rs')))"

fun delete_rows :: "('r \<Rightarrow> bool) \<Rightarrow> ('r \<Rightarrow> string + 'r) \<Rightarrow> 'r list \<Rightarrow> string + 'r list" where
  "delete_rows p g [] = Inr []"
| "delete_rows p g (r # rs) =
     (if p r then try_then (g r) (\<lambda>_. delete_rows p g rs)
      else try_then (delete_rows p g rs) (\<lambda>rs'. Inr (r # rs')))"

text \<open>An UPDATE sets columns other than the primary key; only the members of an action have no other column.\<close>

datatype statement =
    InsertAction trash_action
  | UpdateActions "trash_action \<Rightarrow> bool" "trash_action \<Rightarrow> trash_action"
  | DeleteActions "trash_action \<Rightarrow> bool"
  | InsertMember uuid uuid
  | MoveMember "uuid \<times> uuid" "uuid \<times> uuid"
  | DeleteMember "uuid \<times> uuid"
  | InsertNote note_row
  | UpdateNotes "note_row \<Rightarrow> bool" "note_row \<Rightarrow> note_row"
  | DeleteNotes "note_row \<Rightarrow> bool"
  | InsertSeries recurrence_series
  | UpdateSeries "recurrence_series \<Rightarrow> bool" "recurrence_series \<Rightarrow> recurrence_series"
  | DeleteSeries "recurrence_series \<Rightarrow> bool"

definition set_notes :: "world \<Rightarrow> note_row list \<Rightarrow> world" where
  "set_notes w rows = w\<lparr>w_notes := rows\<rparr>"

definition set_actions :: "world \<Rightarrow> trash_action list \<Rightarrow> world" where
  "set_actions w rows = w\<lparr>w_actions := rows\<rparr>"

definition set_series :: "world \<Rightarrow> recurrence_series list \<Rightarrow> world" where
  "set_series w rows = w\<lparr>w_series := rows\<rparr>"

fun run_statement :: "instant \<Rightarrow> statement \<Rightarrow> world \<Rightarrow> string + world" where
  "run_statement now (InsertAction a) w =
     (if ta_id a \<in> ta_id ` set (w_actions w) then Inl ''recurring_trash_actions_pkey''
      else Inr (w\<lparr>w_actions := w_actions w @ [a]\<rparr>))"
| "run_statement now (UpdateActions p f) w =
     try_then (update_rows p (\<lambda>a. guard_action_update now w a (f a)) (w_actions w)) (\<lambda>rows. Inr (set_actions w rows))"
| "run_statement now (DeleteActions p) w =
     try_then (delete_rows p (guard_action_delete w) (w_actions w)) (\<lambda>rows.
       if fst ` set (w_members w) \<subseteq> ta_id ` set rows then Inr (set_actions w rows)
       else Inl ''recurring_trash_action_members_action_id_fkey'')"
| "run_statement now (InsertMember a n) w =
     try_then (guard_member w None (Some (a, n))) (\<lambda>_.
       if (a, n) \<in> set (w_members w) then Inl ''recurring_trash_action_members_pkey''
       else if a \<notin> ta_id ` set (w_actions w) then Inl ''recurring_trash_action_members_action_id_fkey''
       else if n \<notin> n_id ` set (w_notes w) then Inl ''recurring_trash_action_members_note_id_fkey''
       else Inr (w\<lparr>w_members := w_members w @ [(a, n)]\<rparr>))"
| "run_statement now (MoveMember old new) w =
     (if old \<notin> set (w_members w) then Inr w
      else try_then (guard_member w (Some old) (Some new)) (\<lambda>_.
        if new \<noteq> old \<and> new \<in> set (w_members w) then Inl ''recurring_trash_action_members_pkey''
        else if fst new \<notin> ta_id ` set (w_actions w) then Inl ''recurring_trash_action_members_action_id_fkey''
        else if snd new \<notin> n_id ` set (w_notes w) then Inl ''recurring_trash_action_members_note_id_fkey''
        else Inr (w\<lparr>w_members := update_where (\<lambda>m. m = old) (\<lambda>m. new) (w_members w)\<rparr>)))"
| "run_statement now (DeleteMember m) w =
     (if m \<notin> set (w_members w) then Inr w
      else try_then (guard_member w (Some m) None) (\<lambda>_. Inr (w\<lparr>w_members := filter (\<lambda>x. x \<noteq> m) (w_members w)\<rparr>)))"
| "run_statement now (InsertNote n) w =
     (if n_id n \<in> n_id ` set (w_notes w) then Inl ''notes_pkey'' else Inr (w\<lparr>w_notes := w_notes w @ [n]\<rparr>))"
| "run_statement now (UpdateNotes p f) w =
     try_then (update_rows p (\<lambda>n. guard_note_update w n ((f n)\<lparr>n_id := n_id n\<rparr>)) (w_notes w)) (\<lambda>rows. Inr (set_notes w rows))"
| "run_statement now (DeleteNotes p) w =
     try_then (delete_rows p (guard_note_delete w) (w_notes w)) (\<lambda>rows.
       if snd ` set (w_members w) \<subseteq> n_id ` set rows then Inr (set_notes w rows)
       else Inl ''recurring_trash_action_members_note_id_fkey'')"
| "run_statement now (InsertSeries s) w =
     (if rs_id s \<in> rs_id ` set (w_series w) then Inl ''recurrence_series_pkey'' else Inr (w\<lparr>w_series := w_series w @ [s]\<rparr>))"
| "run_statement now (UpdateSeries p f) w =
     try_then (update_rows p (\<lambda>s. guard_series_update w s ((f s)\<lparr>rs_id := rs_id s\<rparr>)) (w_series w)) (\<lambda>rows. Inr (set_series w rows))"
| "run_statement now (DeleteSeries p) w =
     try_then (delete_rows p (guard_series_delete w) (w_series w)) (\<lambda>rows. Inr (set_series w rows))"

definition run_statements :: "instant \<Rightarrow> statement list \<Rightarrow> world \<Rightarrow> string + world" where
  "run_statements now = fold_ok (run_statement now)"

text \<open>
  At commit every inserted action must be sealed (\<open>nt_require_sealed_trash_action\<close>), and the
  deferred key of a note's action must point to a member.
\<close>

definition require_sealed :: "world \<Rightarrow> trash_action \<Rightarrow> bool" where
  "require_sealed w new \<longleftrightarrow> (\<exists>a \<in> set (w_actions w). ta_id a = ta_id new \<and> ta_sealed_at a \<noteq> None)"

definition inserted :: "statement list \<Rightarrow> trash_action list" where
  "inserted ss = concat (map (\<lambda>s. case s of InsertAction a \<Rightarrow> [a] | _ \<Rightarrow> []) ss)"

definition current_member_key :: "world \<Rightarrow> bool" where
  "current_member_key w \<longleftrightarrow>
     (\<forall>n \<in> set (w_notes w). case n_trash_action_id n of None \<Rightarrow> True | Some a \<Rightarrow> (a, n_id n) \<in> set (w_members w))"

definition transaction :: "instant \<Rightarrow> statement list \<Rightarrow> world \<Rightarrow> string + world" where
  "transaction now ss w =
     try_then (run_statements now ss w) (\<lambda>w'.
       if \<not> list_all (require_sealed w') (inserted ss)
       then Inl ''recurring trash action must be sealed before commit''
       else if \<not> current_member_key w' then Inl ''fk_notes_current_trash_membership'' else Inr w')"

subsection \<open>Rows that are frozen\<close>

lemma update_rows_frozen:
  assumes "update_rows p g rows = Inr rows'" "x \<in> set rows" "\<And>y. g x \<noteq> Inr y"
  shows "x \<in> set rows'"
  using assms by (induction rows arbitrary: rows') (auto split: if_splits)

lemma delete_rows_frozen:
  assumes "delete_rows p g rows = Inr rows'" "x \<in> set rows" "\<And>y. g x \<noteq> Inr y"
  shows "x \<in> set rows'"
  using assms by (induction rows arbitrary: rows') (auto split: if_splits)

lemma update_rows_keys:
  assumes "update_rows p g rows = Inr rows'" "\<And>x y. g x = Inr y \<Longrightarrow> k y = k x"
  shows "map k rows' = map k rows"
  using assms by (induction rows arbitrary: rows') (auto split: if_splits)

locale frozen_rows =
  fixes frozen :: "'r \<Rightarrow> bool"
    and on_update :: "'w \<Rightarrow> 'r \<Rightarrow> 'r \<Rightarrow> string + 'r"
    and on_delete :: "'w \<Rightarrow> 'r \<Rightarrow> string + 'r"
  assumes update_raises: "frozen r \<Longrightarrow> on_update w r r' \<noteq> Inr y"
    and delete_raises: "frozen r \<Longrightarrow> on_delete w r \<noteq> Inr y"
begin

lemma update_keeps:
  assumes "update_rows p (\<lambda>r. on_update w r (f r)) rows = Inr rows'" "x \<in> set rows" "frozen x"
  shows "x \<in> set rows'"
  using update_rows_frozen [OF assms(1,2)] update_raises [OF assms(3)] by blast

lemma delete_keeps:
  assumes "delete_rows p (on_delete w) rows = Inr rows'" "x \<in> set rows" "frozen x"
  shows "x \<in> set rows'"
  using delete_rows_frozen [OF assms(1,2)] delete_raises [OF assms(3)] by blast

end

interpretation purged_note: frozen_rows "\<lambda>n. n_purged_at n \<noteq> None" guard_note_update guard_note_delete
  by unfold_locales (auto simp: guard_note_update_def guard_note_delete_def split: if_splits)

interpretation sealed_action: frozen_rows "\<lambda>a. ta_sealed_at a \<noteq> None" "guard_action_update now" guard_action_delete for now
  by unfold_locales (auto simp: guard_action_update_def guard_action_delete_def split: if_splits)

interpretation purged_series: frozen_rows "\<lambda>s. rs_purged_at s \<noteq> None" guard_series_update guard_series_delete
  by unfold_locales (auto simp: guard_series_update_def guard_series_delete_def split: if_splits)

definition keeps_frozen :: "world \<Rightarrow> world \<Rightarrow> bool" where
  "keeps_frozen w w' \<longleftrightarrow>
     {n \<in> set (w_notes w). n_purged_at n \<noteq> None} \<subseteq> set (w_notes w')
     \<and> {s \<in> set (w_series w). rs_purged_at s \<noteq> None} \<subseteq> set (w_series w')
     \<and> {a \<in> set (w_actions w). ta_sealed_at a \<noteq> None} \<subseteq> set (w_actions w')"

lemma statement_keeps_frozen:
  assumes "run_statement now s w = Inr w'"
  shows "keeps_frozen w w'"
  using assms
  by (cases s)
    (auto simp: keeps_frozen_def set_notes_def set_actions_def set_series_def split: if_splits
      dest: purged_note.update_keeps purged_note.delete_keeps sealed_action.update_keeps sealed_action.delete_keeps
        purged_series.update_keeps purged_series.delete_keeps)

lemma keeps_frozen_trans: "keeps_frozen u v \<Longrightarrow> keeps_frozen v w \<Longrightarrow> keeps_frozen u w"
  unfolding keeps_frozen_def by blast

lemma keeps_sealed: "keeps_frozen w w' \<Longrightarrow> sealed w a \<Longrightarrow> sealed w' a"
  unfolding keeps_frozen_def sealed_def by blast

fun moves_member :: "statement \<Rightarrow> bool" where
  "moves_member (MoveMember old new) = (old \<noteq> new)"
| "moves_member _ = False"

lemma update_same: "update_where (\<lambda>m. m = x) (\<lambda>m. x) rows = rows"
  by (simp add: update_where_def map_idI)

lemma statement_keeps_members:
  assumes "run_statement now s w = Inr w'" "\<not> moves_member s" "sealed w a"
  shows "(a, i) \<in> set (w_members w') \<longleftrightarrow> (a, i) \<in> set (w_members w)"
  using assms
  by (cases s) (auto simp: set_notes_def set_actions_def set_series_def guard_member_def update_same split: if_splits)

lemma run_keeps:
  assumes "run_statements now ss w = Inr w'" "list_all (\<lambda>s. \<not> moves_member s) ss"
  shows "keeps_frozen w w' \<and> (\<forall>a i. sealed w a \<longrightarrow> ((a, i) \<in> set (w_members w') \<longleftrightarrow> (a, i) \<in> set (w_members w)))"
  using assms
proof (induction ss arbitrary: w)
  case Nil
  then show ?case by (simp add: run_statements_def keeps_frozen_def)
next
  case (Cons s ss)
  then obtain u where u: "run_statement now s w = Inr u" "run_statements now ss u = Inr w'" "\<not> moves_member s"
    by (auto simp: run_statements_def)
  have wu: "keeps_frozen w u" by (rule statement_keeps_frozen [OF u(1)])
  moreover have uw: "keeps_frozen u w'" using Cons.IH [OF u(2)] Cons.prems(2) by simp
  ultimately have "keeps_frozen w w'" by (rule keeps_frozen_trans)
  moreover have "(a, i) \<in> set (w_members w') \<longleftrightarrow> (a, i) \<in> set (w_members w)" if "sealed w a" for a i
    using Cons.IH [OF u(2)] Cons.prems(2) keeps_sealed [OF wu that] statement_keeps_members [OF u(1,3) that] by simp
  ultimately show ?case by blast
qed


text \<open>
  An UPDATE of a member is guarded by the action it moves to only: a member of a sealed action
  moved to an action of the same transaction leaves it.
\<close>

definition escaping :: "statement list" where
  "escaping = [InsertAction \<lparr>ta_id = 8, ta_series_id = 9, ta_boundary = 5, ta_trashed_at = 100, ta_sealed_at = None\<rparr>,
     MoveMember (7, 1) (8, 1),
     UpdateNotes (\<lambda>n. n_id n = 1) (\<lambda>n. n\<lparr>n_trash_action_id := Some 8, n_deleted_at := Some 100\<rparr>),
     UpdateActions (\<lambda>a. ta_id a = 8) (\<lambda>a. a\<lparr>ta_sealed_at := Some 100\<rparr>)]"

definition sealed_world :: world where
  "sealed_world = empty_world\<lparr>
     w_notes := [\<lparr>n_id = 1, n_title = ''Call'', n_body = [], n_starts_at = 10, n_active = True, n_deleted_at = Some 50,
       n_superseded_at = None, n_series_trashed_at = None, n_purged_at = None, n_series_id = Some 9,
       n_recurrence_key = Some 5, n_trash_action_id = Some 7, n_created_at = 0, n_updated_at = 50, n_version = 2\<rparr>],
     w_actions := [\<lparr>ta_id = 7, ta_series_id = 9, ta_boundary = 5, ta_trashed_at = 50, ta_sealed_at = Some 60\<rparr>],
     w_members := [(7, 1)]\<rparr>"



end
