(* ===== verification/TriggerSafety.thy ===== *)
theory TriggerSafety
  imports Triggers TrashRoundTrip
begin

section \<open>The trash under the triggers\<close>

text \<open>
  \<open>trash_series_portion\<close> as the statements it sends: header, members, pointers of the notes,
  series, seal. None of them is refused by the triggers, the transaction commits, and the tables are those
  of the handler's model.
\<close>

definition trash_statements :: "trash_action \<Rightarrow> note_row list \<Rightarrow> statement list" where
  "trash_statements act ns =
     [InsertAction act]
     @ map (\<lambda>n. InsertMember (ta_id act) (n_id n)) ns
     @ map (\<lambda>n. UpdateNotes (\<lambda>m. n_id m = n_id n) (\<lambda>m. m\<lparr>n_deleted_at := Some (ta_trashed_at act),
         n_trash_action_id := Some (ta_id act), n_updated_at := ta_trashed_at act, n_version := n_version m + 1\<rparr>)) ns
     @ [UpdateSeries (\<lambda>s. rs_id s = ta_series_id act) (\<lambda>s. s\<lparr>rs_updated_at := ta_trashed_at act, rs_version := rs_version s + 1\<rparr>),
        UpdateActions (\<lambda>a. ta_id a = ta_id act) (\<lambda>a. a\<lparr>ta_sealed_at := Some (ta_trashed_at act)\<rparr>)]"

lemma update_rows_pass:
  "(\<And>x. x \<in> set rows \<Longrightarrow> p x \<Longrightarrow> g x = Inr (f x)) \<Longrightarrow> update_rows p g rows = Inr (update_where p f rows)"
  by (induction rows) (auto simp: update_where_def)

lemma run_Cons: "run_statement now s w = Inr u \<Longrightarrow> run_statements now (s # ss) w = run_statements now ss u"
  by (simp add: run_statements_def)

lemma run_append: "run_statements now xs w = Inr u \<Longrightarrow> run_statements now (xs @ ys) w = run_statements now ys u"
  unfolding run_statements_def by (induction xs arbitrary: w) (simp, fastforce)

lemma run_one: "run_statements now [s] w = run_statement now s w"
  by (cases "run_statement now s w") (simp_all add: run_statements_def)

lemma run_members:
  assumes "distinct (map n_id ns)" "\<And>n. n \<in> set ns \<Longrightarrow> (a, n_id n) \<notin> set (w_members w)"
    and "a \<in> ta_id ` set (w_actions w)" "\<not> sealed w a" "n_id ` set ns \<subseteq> n_id ` set (w_notes w)"
  shows "run_statements now (map (\<lambda>n. InsertMember a (n_id n)) ns) w
    = Inr (w\<lparr>w_members := w_members w @ map (\<lambda>n. (a, n_id n)) ns\<rparr>)"
  using assms
proof (induction ns arbitrary: w)
  case (Cons n ns)
  let ?w = "w\<lparr>w_members := w_members w @ [(a, n_id n)]\<rparr>"
  have "run_statement now (InsertMember a (n_id n)) w = Inr ?w"
    using Cons.prems by (auto simp: guard_member_def)
  moreover have "run_statements now (map (\<lambda>n. InsertMember a (n_id n)) ns) ?w
      = Inr (?w\<lparr>w_members := w_members ?w @ map (\<lambda>n. (a, n_id n)) ns\<rparr>)"
  proof (rule Cons.IH)
    fix m assume "m \<in> set ns"
    then show "(a, n_id m) \<notin> set (w_members ?w)" using Cons.prems(1,2) by (auto simp: image_iff)
  qed (use Cons.prems in \<open>auto simp: sealed_def\<close>)
  ultimately show ?case by (simp add: run_Cons)
qed (simp add: run_statements_def)

lemma run_pointers:
  assumes "distinct (map n_id ns)" "\<And>m. m \<in> set (w_notes w) \<Longrightarrow> n_id m \<in> n_id ` set ns \<Longrightarrow> n_purged_at m = None"
    and "\<not> sealed w a" and f: "\<And>m. n_id (f m) = n_id m" "\<And>m. n_trash_action_id (f m) = Some a"
  shows "run_statements now (map (\<lambda>n. UpdateNotes (\<lambda>m. n_id m = n_id n) f) ns) w
    = Inr (w\<lparr>w_notes := update_where (\<lambda>m. n_id m \<in> n_id ` set ns) f (w_notes w)\<rparr>)"
  using assms(1-3)
proof (induction ns arbitrary: w)
  case (Cons n ns)
  let ?w = "w\<lparr>w_notes := update_where (\<lambda>m. n_id m = n_id n) f (w_notes w)\<rparr>"
  have keep: "(f m)\<lparr>n_id := n_id m\<rparr> = f m" for m by (metis f(1) note_row.surjective note_row.update_convs(1) note_row.select_convs(1))
  have "update_rows (\<lambda>m. n_id m = n_id n) (\<lambda>m. guard_note_update w m ((f m)\<lparr>n_id := n_id m\<rparr>)) (w_notes w)
      = Inr (update_where (\<lambda>m. n_id m = n_id n) f (w_notes w))"
    by (rule update_rows_pass) (use Cons.prems f in \<open>simp add: guard_note_update_def keep\<close>)
  then have "run_statement now (UpdateNotes (\<lambda>m. n_id m = n_id n) f) w = Inr ?w"
    by (simp add: set_notes_def)
  moreover have "run_statements now (map (\<lambda>n. UpdateNotes (\<lambda>m. n_id m = n_id n) f) ns) ?w
      = Inr (?w\<lparr>w_notes := update_where (\<lambda>m. n_id m \<in> n_id ` set ns) f (w_notes ?w)\<rparr>)"
  proof (rule Cons.IH)
    fix m assume m: "m \<in> set (w_notes ?w)" "n_id m \<in> n_id ` set ns"
    have "n_id m \<noteq> n_id n" using m(2) Cons.prems(1) by auto
    moreover obtain y where "y \<in> set (w_notes w)" "m = (if n_id y = n_id n then f y else y)"
      using m(1) by (auto simp: set_update_where)
    ultimately have "m \<in> set (w_notes w)" using f(1) by (auto split: if_splits)
    then show "n_purged_at m = None" using Cons.prems(2) m(2) by auto
  qed (use Cons.prems in \<open>auto simp: sealed_def\<close>)
  moreover have "update_where (\<lambda>m. n_id m \<in> n_id ` set ns) f (update_where (\<lambda>m. n_id m = n_id n) f rows)
      = update_where (\<lambda>m. n_id m \<in> n_id ` set (n # ns)) f rows" for rows
    using Cons.prems(1) f(1) unfolding update_where_def by (induction rows) auto
  ultimately show ?case by (simp only: list.map run_Cons) simp
qed (simp add: run_statements_def update_where_def)

text \<open>At the seal, the members of the new action are the notes just marked.\<close>

lemma marked_members_fit:
  assumes dist: "distinct (map n_id rows)" and ns: "ns \<noteq> []" "set ns \<subseteq> set rows"
    and fit: "\<And>n. n \<in> set ns \<Longrightarrow> n_series_id n = Some (ta_series_id act) \<and> key_from (ta_boundary act) n
      \<and> n_superseded_at n = None \<and> n_purged_at n = None"
    and new: "\<And>n. n \<in> set rows \<Longrightarrow> n_trash_action_id n \<noteq> Some (ta_id act)" "\<And>m. m \<in> set mems \<Longrightarrow> fst m \<noteq> ta_id act"
    and u: "w_notes u = update_where (\<lambda>m. n_id m \<in> n_id ` set ns) (\<lambda>m. m\<lparr>n_deleted_at := Some (ta_trashed_at act),
         n_trash_action_id := Some (ta_id act), n_updated_at := ta_trashed_at act, n_version := n_version m + 1\<rparr>) rows"
      "w_members u = mems @ map (\<lambda>n. (ta_id act, n_id n)) ns"
  shows "members_fit u act"
proof -
  let ?f = "\<lambda>m. m\<lparr>n_deleted_at := Some (ta_trashed_at act),
         n_trash_action_id := Some (ta_id act), n_updated_at := ta_trashed_at act, n_version := n_version m + 1\<rparr>"
  have row: "\<exists>y \<in> set rows. n = (if n_id y \<in> n_id ` set ns then ?f y else y)" if "n \<in> set (w_notes u)" for n
    using that unfolding u(1) by (rule updated_row) blast
  have mem: "m \<in> set (w_members u) \<and> fst m = ta_id act \<longleftrightarrow> fst m = ta_id act \<and> snd m \<in> n_id ` set ns" for m
    using new(2) [of m] by (cases m) (auto simp: u(2))
  have "\<not> misfit act n" if n: "n \<in> set (w_notes u)" "n_id n \<in> n_id ` set ns" for n
  proof -
    obtain y where y: "y \<in> set rows" "n = (if n_id y \<in> n_id ` set ns then ?f y else y)" using row [OF n(1)] by blast
    then have hit: "n_id y \<in> n_id ` set ns" using n(2) by (auto split: if_splits)
    then obtain x where "x \<in> set ns" "n_id y = n_id x" by auto
    then have "y \<in> set ns" using distinct_map_eqD [OF dist y(1)] ns(2) by blast
    then show ?thesis using fit [of y] y(2) hit by (auto simp: misfit_def key_from_def split: option.splits)
  qed
  moreover have "n_id n \<in> n_id ` set ns" if n: "n \<in> set (w_notes u)" "n_trash_action_id n = Some (ta_id act)" for n
    using row [OF n(1)] n(2) new(1) by (auto split: if_splits)
  moreover have "\<exists>m \<in> set (w_members u). fst m = ta_id act" using ns(1) by (cases ns) (auto simp: u(2))
  ultimately show ?thesis
    unfolding members_fit_def using mem by (metis fst_conv snd_conv)
qed

text \<open>
  C17: every request that trashes a portion of a series is accepted by the triggers: run as the
  statements it sends, it is refused by none of them nor at commit, and the notes, actions,
  members and series are then those of the model.
\<close>

theorem trash_passes_triggers:
  assumes "service_ok env w" "trash_series_portion env sid p w = Inr (r, w')"
  shows "\<exists>act ns now u. transaction now (trash_statements act ns) w = Inr u \<and> ns \<noteq> [] \<and> ta_series_id act = sid
    \<and> w_notes u = w_notes w' \<and> w_actions u = w_actions w' \<and> w_members u = w_members w' \<and> w_series u = w_series w'"
  using assms(2)
proof (cases rule: trash_series_portion_cases)
  case (1 s boundary ns a now x v)
  let ?act = "\<lparr>ta_id = a, ta_series_id = rs_id s, ta_boundary = boundary, ta_trashed_at = now, ta_sealed_at = None\<rparr>"
  let ?g = "\<lambda>m. m\<lparr>n_deleted_at := Some now, n_trash_action_id := Some a, n_updated_at := now, n_version := n_version m + 1\<rparr>"
  let ?mem = "w_members w @ map (\<lambda>n. (a, n_id n)) ns"
  let ?h = "\<lambda>s. s\<lparr>rs_updated_at := now, rs_version := rs_version s + 1\<rparr>"
  let ?now = "clock env (ticks v)"
  have S: "storage_ok w" and ok: "reminders_ok w" "fresh env w" using assms(1) by (simp_all add: service_ok_def)
  note T = storage_okD(1) [OF S]
  have new: "a \<notin> ta_id ` set (w_actions w)" unfolding 1(5) by (rule fresh_action [OF ok(2)])
  have nsw: "set ns \<subseteq> set (w_notes w)" by (auto simp: 1(3))
  have dist: "distinct (map n_id (w_notes w))" "distinct (map n_id ns)"
    unfolding 1(3) by (rule rows_distinct [OF ok(1)] selected_distinct [OF ok(1)])+
  have no_member: "fst m \<noteq> a" if "m \<in> set (w_members w)" for m using trash_okD(3) [OF T that] new by auto
  have no_pointer: "n_trash_action_id n \<noteq> Some a" if "n \<in> set (w_notes w)" for n
    using trash_okD(1) [OF T that] new by (auto simp: in_action_def)
  have s: "find (\<lambda>s. rs_id s = sid \<and> rs_purged_at s = None) (w_series w) = Some s"
    using 1(1) by (auto simp: locked_series_def begin_tx_def split: option.splits if_splits)
  then have sid: "rs_id s = sid" "s \<in> set (w_series w)" "rs_purged_at s = None" by (auto dest: find_Some_set)
  let ?w1 = "w\<lparr>w_actions := w_actions w @ [?act]\<rparr>"
  let ?w2 = "?w1\<lparr>w_members := ?mem\<rparr>"
  let ?w3 = "?w2\<lparr>w_notes := update_where (\<lambda>m. n_id m \<in> n_id ` set ns) ?g (w_notes w)\<rparr>"
  let ?w4 = "?w3\<lparr>w_series := update_where (\<lambda>s. rs_id s = sid) ?h (w_series w)\<rparr>"
  let ?w5 = "?w4\<lparr>w_actions := w_actions w @ [?act\<lparr>ta_sealed_at := Some ?now\<rparr>]\<rparr>"
  have open': "\<not> sealed ?w1 a" "\<not> sealed ?w2 a" using new by (auto simp: sealed_def)
  have r1: "run_statement ?now (InsertAction ?act) w = Inr ?w1" using new by simp
  have "run_statements ?now (map (\<lambda>n. InsertMember a (n_id n)) ns) ?w1
      = Inr (?w1\<lparr>w_members := w_members ?w1 @ map (\<lambda>n. (a, n_id n)) ns\<rparr>)"
  proof (rule run_members [OF dist(2) _ _ open'(1)])
    show "(a, n_id n) \<notin> set (w_members ?w1)" for n using no_member [of "(a, n_id n)"] by auto
  qed (use nsw in auto)
  then have r2: "run_statements ?now (map (\<lambda>n. InsertMember a (n_id n)) ns) ?w1 = Inr ?w2" by simp
  have "run_statements ?now (map (\<lambda>n. UpdateNotes (\<lambda>m. n_id m = n_id n) ?g) ns) ?w2
      = Inr (?w2\<lparr>w_notes := update_where (\<lambda>m. n_id m \<in> n_id ` set ns) ?g (w_notes ?w2)\<rparr>)"
  proof (rule run_pointers [OF dist(2) _ open'(2)])
    fix m assume m: "m \<in> set (w_notes ?w2)" "n_id m \<in> n_id ` set ns"
    then obtain n where n: "n \<in> set ns" "n_id m = n_id n" by auto
    have "m \<in> set (w_notes w)" using m(1) by simp
    then have "m = n" using distinct_map_eqD [OF dist(1)] n nsw by blast
    then show "n_purged_at m = None" using n(1) by (simp add: 1(3))
  qed simp_all
  then have r3: "run_statements ?now (map (\<lambda>n. UpdateNotes (\<lambda>m. n_id m = n_id n) ?g) ns) ?w2 = Inr ?w3" by simp
  have series: "rs_purged_at x = None" if "x \<in> set (w_series w)" "rs_id x = sid" for x
    using purge_okD(5) [OF storage_okD(2) [OF S]] distinct_map_eqD that sid by metis
  have r4: "run_statement ?now (UpdateSeries (\<lambda>s. rs_id s = sid) ?h) ?w3 = Inr ?w4"
  proof -
    have keep: "(?h x)\<lparr>rs_id := rs_id x\<rparr> = ?h x" for x by simp
    have "update_rows (\<lambda>s. rs_id s = sid) (\<lambda>x. guard_series_update ?w3 x ((?h x)\<lparr>rs_id := rs_id x\<rparr>)) (w_series w)
        = Inr (update_where (\<lambda>s. rs_id s = sid) ?h (w_series w))"
      unfolding keep by (rule update_rows_pass) (simp add: guard_series_update_def series)
    then show ?thesis by (simp add: set_series_def)
  qed
  have fit: "members_fit ?w4 ?act"
    by (rule marked_members_fit [OF dist(1) 1(4) nsw, where mems = "w_members w"])
      (use no_pointer no_member in \<open>auto simp: 1(3)\<close>)
  have r5: "run_statement ?now (UpdateActions (\<lambda>x. ta_id x = a) (\<lambda>x. x\<lparr>ta_sealed_at := Some now\<rparr>)) ?w4 = Inr ?w5"
  proof -
    have "update_rows (\<lambda>x. ta_id x = a) (\<lambda>x. guard_action_update ?now ?w4 x (x\<lparr>ta_sealed_at := Some now\<rparr>)) (w_actions ?w4)
        = Inr (update_where (\<lambda>x. ta_id x = a) (\<lambda>x. x\<lparr>ta_sealed_at := Some ?now\<rparr>) (w_actions ?w4))"
    proof (rule update_rows_pass)
      fix x assume x: "x \<in> set (w_actions ?w4)" "ta_id x = a"
      then have "x = ?act" using new by auto
      then show "guard_action_update ?now ?w4 x (x\<lparr>ta_sealed_at := Some now\<rparr>) = Inr (x\<lparr>ta_sealed_at := Some ?now\<rparr>)"
        by (simp add: guard_action_update_def fit)
    qed
    moreover have "update_where (\<lambda>x. ta_id x = a) (\<lambda>x. x\<lparr>ta_sealed_at := Some ?now\<rparr>) (w_actions ?w4)
        = w_actions w @ [?act\<lparr>ta_sealed_at := Some ?now\<rparr>]"
      using update_where_id [of "w_actions w" "\<lambda>x. ta_id x = a"] new by (force simp: update_where_def)
    ultimately show ?thesis by (simp add: set_actions_def)
  qed
  have stmts: "trash_statements ?act ns = InsertAction ?act # map (\<lambda>n. InsertMember a (n_id n)) ns
      @ map (\<lambda>n. UpdateNotes (\<lambda>m. n_id m = n_id n) ?g) ns
      @ [UpdateSeries (\<lambda>s. rs_id s = sid) ?h, UpdateActions (\<lambda>x. ta_id x = a) (\<lambda>x. x\<lparr>ta_sealed_at := Some now\<rparr>)]"
    by (simp add: trash_statements_def sid)
  have run: "run_statements ?now (trash_statements ?act ns) w = Inr ?w5"
    unfolding stmts run_Cons [OF r1] run_append [OF r2] run_append [OF r3] run_Cons [OF r4] run_one r5 ..
  have "inserted (trash_statements ?act ns) = [?act]" by (simp add: stmts inserted_def comp_def)
  moreover have "require_sealed ?w5 ?act" by (simp add: require_sealed_def)
  moreover have "current_member_key ?w5"
    unfolding current_member_key_def
  proof
    fix n assume "n \<in> set (w_notes ?w5)"
    then have "n \<in> set (update_where (\<lambda>m. n_id m \<in> n_id ` set ns) ?g (w_notes w))" by simp
    then obtain y where y: "y \<in> set (w_notes w)" "n = (if n_id y \<in> n_id ` set ns then ?g y else y)"
      by (rule updated_row)
    show "case n_trash_action_id n of None \<Rightarrow> True | Some b \<Rightarrow> (b, n_id n) \<in> set (w_members ?w5)"
    proof (cases "n_id y \<in> n_id ` set ns")
      case True
      with y(2) show ?thesis by auto
    next
      case False
      with y trash_okD(1) [OF T y(1)] show ?thesis by (auto simp: in_action_def split: option.splits)
    qed
  qed
  ultimately have T5: "transaction ?now (trash_statements ?act ns) w = Inr ?w5"
    by (simp only: transaction_def run try_then_simps list_all_iff list.set ball_simps simp_thms Let_def if_True if_False)
  have x: "w_notes x = w_notes w" "w_series x = w_series w" "w_members x = ?mem" "w_actions x = w_actions w @ [?act]"
    by (simp_all add: 1(7) begin_tx_def)
  have acts: "w_actions w' = w_actions w @ [?act\<lparr>ta_sealed_at := Some ?now\<rparr>]"
    using update_where_id [of "w_actions w" "\<lambda>x. ta_id x = a"] new
    by (simp add: 1(9) updated_event_def row_simps 1(8) change_loop_tables x(4)) (force simp: update_where_def)
  have "w_notes w' = w_notes ?w5" "w_members w' = w_members ?w5" "w_series w' = w_series ?w5"
    by (simp_all add: 1(9) updated_event_def row_simps 1(8) change_loop_tables change_loop_notes [OF dist(2)] x sid save_series_def)
  with acts T5 1(4) sid(1) show ?thesis
    by (intro exI [of _ ?act] exI [of _ ns] exI [of _ ?now] exI [of _ ?w5]) simp
qed

theorem trash_passes_triggers_witness:
  "\<exists>act ns now u. transaction now (trash_statements act ns) series_world = Inr u \<and> ns \<noteq> [] \<and> ta_series_id act = 9"
proof -
  obtain w1 where "trash_series_portion sample_env 9 \<lparr>po_series_version = 1, po_recurrence_key = None\<rparr> series_world = Inr ((), w1)"
    by (rule trashed_example)
  from trash_passes_triggers [OF series_world_ok this] show ?thesis by blast
qed

end
