(* ===== verification/Schema.thy ===== *)
theory Schema
  imports Prelude
begin

section \<open>The schema: migrations 0001 to 0004 and the metadata of the models\<close>

text \<open>
  The schema operations of the migrations as a list of \<open>ddl\<close> each, run on a catalogue of tables,
  types and extensions; and the metadata the classes of app/db/models.py declare, in the same
  form. The result of the migrations is compared with the metadata: it is the same but for the
  four CHECK constraints (and the triggers) that migration 0004 alone installs.
\<close>

subsection \<open>Catalogue\<close>

datatype sql_type =
    SqlUuid | SqlString nat | SqlText | SqlJsonb | SqlTimestamptz | SqlTimestamp | SqlDate | SqlInteger | SqlBoolean
  | SqlEnum string "string list"

datatype sql_value = NoDefault | ServerDefault string | ComputedAs string

datatype table_column =
  Column (col_name: string) (col_type: sql_type) (col_nullable: bool) (col_value: sql_value)

datatype fk_action = NoAction | Restrict | Cascade

text \<open>The conditions of the CHECK constraints; the first is \<open>offset_preset\<close>, the others have the names of their predicates.\<close>

datatype check_condition =
  OffsetPreset | DeliveryErrorAllowed | DeliveryShape | OutboxErrorAllowed | OutboxShape

datatype table_constraint =
    PrimaryKey "string list"
  | UniqueKey "string option" "string list"
  | CheckKey string check_condition
  | ForeignKey "string option" "string list" string "string list" fk_action bool

datatype table_index = Index (ix_name: string) (ix_columns: "string list") (ix_trigram: bool)

record sql_table =
  tb_name :: string
  tb_columns :: "table_column list"
  tb_constraints :: "table_constraint list"
  tb_indexes :: "table_index list"

record catalogue =
  sc_tables :: "sql_table list"
  sc_types :: "string list"
  sc_extensions :: "string list"

subsection \<open>Operations\<close>

datatype ddl =
    CreateExtension string
  | CreateTable string "table_column list" "table_constraint list"
  | DropTable string
  | CreateIndex string table_index
  | CreateIndexIfMissing string table_index
  | DropIndex string string
  | DropIndexIfPresent string string
  | AddColumn string table_column
  | AddColumnIfMissing string table_column
  | DropColumn string string
  | DropColumnIfPresent string string
  | AddConstraint string table_constraint
  | DropTypeIfPresent string

definition find_table :: "string \<Rightarrow> catalogue \<Rightarrow> sql_table option" where
  "find_table t s = find (\<lambda>x. tb_name x = t) (sc_tables s)"

definition has_column :: "sql_table \<Rightarrow> string \<Rightarrow> bool" where
  "has_column t c = list_ex (\<lambda>x. col_name x = c) (tb_columns t)"

definition has_index :: "sql_table \<Rightarrow> string \<Rightarrow> bool" where
  "has_index t i = list_ex (\<lambda>x. ix_name x = i) (tb_indexes t)"

fun is_key :: "string list \<Rightarrow> table_constraint \<Rightarrow> bool" where
  "is_key cs (PrimaryKey ds) = (cs = ds)"
| "is_key cs (UniqueKey n ds) = (cs = ds)"
| "is_key cs _ = False"

text \<open>A constraint names columns of its table; a foreign key the key of a table that exists, or of its own.\<close>

fun constraint_fits :: "catalogue \<Rightarrow> sql_table \<Rightarrow> table_constraint \<Rightarrow> bool" where
  "constraint_fits s t (PrimaryKey cs) = list_all (has_column t) cs"
| "constraint_fits s t (UniqueKey n cs) = list_all (has_column t) cs"
| "constraint_fits s t (CheckKey n e) = True"
| "constraint_fits s t (ForeignKey n cs target ds a deferred) =
     (list_all (has_column t) cs \<and>
      (case (if target = tb_name t then Some t else find_table target s) of
         None \<Rightarrow> False
       | Some u \<Rightarrow> list_ex (is_key ds) (tb_constraints u)))"

fun refers_to :: "string \<Rightarrow> table_constraint \<Rightarrow> bool" where
  "refers_to target (ForeignKey n cs t ds a deferred) = (t = target)"
| "refers_to target _ = False"

definition enum_types :: "table_column list \<Rightarrow> string list" where
  "enum_types cs = concat (map (\<lambda>c. case col_type c of SqlEnum n vs \<Rightarrow> [n] | _ \<Rightarrow> []) cs)"

definition on_table :: "string \<Rightarrow> (sql_table \<Rightarrow> string + sql_table) \<Rightarrow> catalogue \<Rightarrow> string + catalogue" where
  "on_table t f s =
     (case find_table t s of
        None \<Rightarrow> Inl (''no table '' @ t)
      | Some x \<Rightarrow> try_then (f x) (\<lambda>y. Inr (s\<lparr>sc_tables := map (\<lambda>z. if tb_name z = t then y else z) (sc_tables s)\<rparr>)))"

definition create_index :: "catalogue \<Rightarrow> table_index \<Rightarrow> sql_table \<Rightarrow> string + sql_table" where
  "create_index s i t =
     (if has_index t (ix_name i) then Inl (''index exists: '' @ ix_name i)
      else if \<not> list_all (has_column t) (ix_columns i) then Inl (''no column for '' @ ix_name i)
      else if ix_trigram i \<and> ''pg_trgm'' \<notin> set (sc_extensions s) then Inl ''gin_trgm_ops does not exist''
      else Inr (t\<lparr>tb_indexes := tb_indexes t @ [i]\<rparr>))"

definition add_column :: "table_column \<Rightarrow> sql_table \<Rightarrow> string + sql_table" where
  "add_column c t = (if has_column t (col_name c) then Inl (''column exists: '' @ col_name c)
     else Inr (t\<lparr>tb_columns := tb_columns t @ [c]\<rparr>))"

definition drop_index :: "string \<Rightarrow> sql_table \<Rightarrow> string + sql_table" where
  "drop_index i t = (if has_index t i then Inr (t\<lparr>tb_indexes := filter (\<lambda>x. ix_name x \<noteq> i) (tb_indexes t)\<rparr>)
     else Inl (''no index '' @ i))"

text \<open>Dropping a column drops the indexes on it.\<close>

definition drop_column :: "string \<Rightarrow> sql_table \<Rightarrow> string + sql_table" where
  "drop_column c t = (if has_column t c
     then Inr (t\<lparr>tb_columns := filter (\<lambda>x. col_name x \<noteq> c) (tb_columns t),
            tb_indexes := filter (\<lambda>x. c \<notin> set (ix_columns x)) (tb_indexes t)\<rparr>)
     else Inl (''no column '' @ c))"

fun run_ddl :: "ddl \<Rightarrow> catalogue \<Rightarrow> string + catalogue" where
  "run_ddl (CreateExtension e) s = Inr (s\<lparr>sc_extensions := List.insert e (sc_extensions s)\<rparr>)"
| "run_ddl (CreateTable n cs ks) s =
     (let t = \<lparr>tb_name = n, tb_columns = cs, tb_constraints = ks, tb_indexes = []\<rparr>
      in if find_table n s \<noteq> None then Inl (''table exists: '' @ n)
         else if \<not> list_all (constraint_fits s t) ks then Inl (''bad constraint of '' @ n)
         else Inr (s\<lparr>sc_tables := sc_tables s @ [t], sc_types := sc_types s @ enum_types cs\<rparr>))"
| "run_ddl (DropTable n) s =
     (if find_table n s = None then Inl (''no table '' @ n)
      else if list_ex (\<lambda>t. tb_name t \<noteq> n \<and> list_ex (refers_to n) (tb_constraints t)) (sc_tables s)
      then Inl (''other objects depend on '' @ n)
      else Inr (s\<lparr>sc_tables := filter (\<lambda>t. tb_name t \<noteq> n) (sc_tables s)\<rparr>))"
| "run_ddl (CreateIndex t i) s = on_table t (create_index s i) s"
| "run_ddl (CreateIndexIfMissing t i) s =
     on_table t (\<lambda>x. if has_index x (ix_name i) then Inr x else create_index s i x) s"
| "run_ddl (DropIndex i t) s = on_table t (drop_index i) s"
| "run_ddl (DropIndexIfPresent i t) s = on_table t (\<lambda>x. if has_index x i then drop_index i x else Inr x) s"
| "run_ddl (AddColumn t c) s = on_table t (add_column c) s"
| "run_ddl (AddColumnIfMissing t c) s = on_table t (\<lambda>x. if has_column x (col_name c) then Inr x else add_column c x) s"
| "run_ddl (DropColumn t c) s = on_table t (drop_column c) s"
| "run_ddl (DropColumnIfPresent t c) s = on_table t (\<lambda>x. if has_column x c then drop_column c x else Inr x) s"
| "run_ddl (AddConstraint t k) s =
     on_table t (\<lambda>x. if constraint_fits s x k then Inr (x\<lparr>tb_constraints := tb_constraints x @ [k]\<rparr>)
       else Inl (''bad constraint of '' @ t)) s"
| "run_ddl (DropTypeIfPresent n) s = Inr (s\<lparr>sc_types := filter (\<lambda>x. x \<noteq> n) (sc_types s)\<rparr>)"

definition run_migration :: "ddl list \<Rightarrow> catalogue \<Rightarrow> string + catalogue" where
  "run_migration = fold_ok run_ddl"

definition no_schema :: catalogue where
  "no_schema = \<lparr>sc_tables = [], sc_types = [], sc_extensions = []\<rparr>"

subsection \<open>Revision 0001\<close>

definition id_column :: table_column where
  "id_column = Column ''id'' SqlUuid False NoDefault"

definition stamp_column :: "string \<Rightarrow> table_column" where
  "stamp_column n = Column n SqlTimestamptz False (ServerDefault ''now()'')"

definition version_column :: table_column where
  "version_column = Column ''version'' SqlInteger False (ServerDefault ''1'')"

definition create_outbox_events :: "ddl list" where
  "create_outbox_events =
     [CreateTable ''outbox_events''
        [id_column, Column ''event_type'' (SqlString 64) False NoDefault, Column ''entity_id'' SqlUuid True NoDefault,
         Column ''payload'' SqlJsonb False NoDefault, stamp_column ''created_at'',
         Column ''published_at'' SqlTimestamptz True NoDefault, Column ''attempts'' SqlInteger False NoDefault,
         Column ''next_attempt_at'' SqlTimestamptz True NoDefault, Column ''last_error'' SqlText True NoDefault]
        [PrimaryKey [''id'']],
      CreateIndex ''outbox_events'' (Index ''ix_outbox_unpublished'' [''published_at'', ''created_at''] False)]"

definition create_recurrence_series :: "ddl list" where
  "create_recurrence_series =
     [CreateTable ''recurrence_series''
        [id_column, Column ''lineage_id'' SqlUuid False NoDefault, Column ''predecessor_id'' SqlUuid True NoDefault,
         Column ''local_start'' SqlTimestamp False NoDefault, Column ''timezone'' (SqlString 64) False NoDefault,
         Column ''rrule'' SqlText False NoDefault, Column ''end_date'' SqlDate False NoDefault,
         Column ''split_boundary'' SqlTimestamptz True NoDefault, Column ''template_title'' (SqlString 255) False NoDefault,
         Column ''template_body'' SqlText False NoDefault, Column ''template_active'' SqlBoolean False NoDefault,
         stamp_column ''created_at'', stamp_column ''updated_at'', version_column]
        [ForeignKey None [''predecessor_id''] ''recurrence_series'' [''id''] NoAction False, PrimaryKey [''id'']],
      CreateIndex ''recurrence_series'' (Index ''ix_recurrence_series_lineage_id'' [''lineage_id''] False)]"

definition create_tags :: "ddl list" where
  "create_tags =
     [CreateTable ''tags''
        [id_column, Column ''name'' (SqlString 100) False NoDefault, Column ''normalized_name'' (SqlString 100) False NoDefault,
         Column ''color'' (SqlString 7) False NoDefault, stamp_column ''created_at'', stamp_column ''updated_at'', version_column]
        [PrimaryKey [''id''], UniqueKey None [''normalized_name'']]]"

definition create_user_settings :: "ddl list" where
  "create_user_settings =
     [CreateTable ''user_settings''
        [id_column, Column ''email'' (SqlString 320) False NoDefault, Column ''timezone'' (SqlString 64) False NoDefault,
         stamp_column ''created_at'', stamp_column ''updated_at'', version_column]
        [PrimaryKey [''id'']]]"

definition create_notes :: "ddl list" where
  "create_notes =
     [CreateTable ''notes''
        [id_column, Column ''title'' (SqlString 255) False NoDefault, Column ''body'' SqlText False NoDefault,
         Column ''search_text'' SqlText False (ComputedAs (''lower(title || '' @ [CHR 0x27, CHR '' '', CHR 0x27] @ '' || body)'')),
         Column ''starts_at'' SqlTimestamptz False NoDefault, Column ''active'' SqlBoolean False NoDefault,
         Column ''deleted_at'' SqlTimestamptz True NoDefault, Column ''series_id'' SqlUuid True NoDefault,
         Column ''recurrence_key'' SqlTimestamptz True NoDefault,
         stamp_column ''created_at'', stamp_column ''updated_at'', version_column]
        [ForeignKey None [''series_id''] ''recurrence_series'' [''id''] NoAction False, PrimaryKey [''id''],
         UniqueKey (Some ''uq_note_series_recurrence_key'') [''series_id'', ''recurrence_key'']],
      CreateIndex ''notes'' (Index ''ix_notes_deleted_at'' [''deleted_at''] False),
      CreateIndex ''notes'' (Index ''ix_notes_search_trgm'' [''search_text''] True),
      CreateIndex ''notes'' (Index ''ix_notes_starts_id'' [''starts_at'', ''id''] False),
      CreateIndex ''notes'' (Index ''ix_notes_state_starts'' [''deleted_at'', ''active'', ''starts_at''] False),
      CreateIndex ''notes'' (Index ''ix_notes_updated_id'' [''updated_at'', ''id''] False)]"

definition create_occurrence_exceptions :: "ddl list" where
  "create_occurrence_exceptions =
     [CreateTable ''occurrence_exceptions''
        [id_column, Column ''series_id'' SqlUuid False NoDefault, Column ''recurrence_key'' SqlTimestamptz False NoDefault,
         Column ''overridden_fields'' SqlJsonb False NoDefault, Column ''cancelled'' SqlBoolean False NoDefault,
         stamp_column ''created_at'', stamp_column ''updated_at'']
        [ForeignKey None [''series_id''] ''recurrence_series'' [''id''] NoAction False, PrimaryKey [''id''],
         UniqueKey (Some ''uq_exception_series_key'') [''series_id'', ''recurrence_key'']]]"

definition create_series_reminder_templates :: "ddl list" where
  "create_series_reminder_templates =
     [CreateTable ''series_reminder_templates''
        [Column ''series_id'' SqlUuid False NoDefault, Column ''offset_minutes'' SqlInteger False NoDefault]
        [CheckKey ''ck_series_reminder_offset_preset'' OffsetPreset,
         ForeignKey None [''series_id''] ''recurrence_series'' [''id''] Cascade False,
         PrimaryKey [''series_id'', ''offset_minutes'']]]"

definition create_series_tags :: "ddl list" where
  "create_series_tags =
     [CreateTable ''series_tags''
        [Column ''series_id'' SqlUuid False NoDefault, Column ''tag_id'' SqlUuid False NoDefault]
        [ForeignKey None [''series_id''] ''recurrence_series'' [''id''] Cascade False,
         ForeignKey None [''tag_id''] ''tags'' [''id''] Cascade False, PrimaryKey [''series_id'', ''tag_id'']]]"

definition create_note_tags :: "ddl list" where
  "create_note_tags =
     [CreateTable ''note_tags''
        [Column ''note_id'' SqlUuid False NoDefault, Column ''tag_id'' SqlUuid False NoDefault]
        [ForeignKey None [''note_id''] ''notes'' [''id''] Cascade False,
         ForeignKey None [''tag_id''] ''tags'' [''id''] Cascade False, PrimaryKey [''note_id'', ''tag_id'']],
      CreateIndex ''note_tags'' (Index ''ix_note_tags_tag_note'' [''tag_id'', ''note_id''] False)]"

definition create_reminder_rules :: "ddl list" where
  "create_reminder_rules =
     [CreateTable ''reminder_rules''
        [id_column, Column ''note_id'' SqlUuid False NoDefault, Column ''offset_minutes'' SqlInteger False NoDefault,
         Column ''enabled'' SqlBoolean False NoDefault, Column ''current_cycle_number'' SqlInteger False NoDefault,
         stamp_column ''created_at'', stamp_column ''updated_at'']
        [CheckKey ''ck_reminder_offset_preset'' OffsetPreset,
         ForeignKey None [''note_id''] ''notes'' [''id''] Cascade False, PrimaryKey [''id''],
         UniqueKey (Some ''uq_reminder_note_offset'') [''note_id'', ''offset_minutes'']]]"

definition delivery_states :: "string list" where
  "delivery_states = [''pending'', ''claimed'', ''attempt_started'', ''sent'', ''failed'', ''unknown'', ''missed'', ''cancelled'']"

definition create_reminder_deliveries :: "ddl list" where
  "create_reminder_deliveries =
     [CreateTable ''reminder_deliveries''
        [id_column, Column ''reminder_rule_id'' SqlUuid False NoDefault, Column ''cycle_number'' SqlInteger False NoDefault,
         Column ''due_at'' SqlTimestamptz False NoDefault, Column ''state'' (SqlEnum ''delivery_state'' delivery_states) False NoDefault,
         Column ''claim_token'' SqlUuid True NoDefault, Column ''claim_expires_at'' SqlTimestamptz True NoDefault,
         Column ''authorized_at'' SqlTimestamptz True NoDefault, Column ''recipient_snapshot'' (SqlString 320) True NoDefault,
         Column ''content_snapshot'' SqlJsonb True NoDefault, Column ''result_at'' SqlTimestamptz True NoDefault,
         Column ''error'' SqlText True NoDefault, stamp_column ''created_at'', stamp_column ''updated_at'']
        [ForeignKey None [''reminder_rule_id''] ''reminder_rules'' [''id''] NoAction False, PrimaryKey [''id''],
         UniqueKey (Some ''uq_delivery_rule_cycle'') [''reminder_rule_id'', ''cycle_number'']],
      CreateIndex ''reminder_deliveries'' (Index ''ix_delivery_claim_expiry'' [''claim_expires_at''] False),
      CreateIndex ''reminder_deliveries'' (Index ''ix_delivery_pending_due'' [''state'', ''due_at''] False)]"

definition create_notifications :: "ddl list" where
  "create_notifications =
     [CreateTable ''notifications''
        [id_column, Column ''reminder_delivery_id'' SqlUuid False NoDefault, Column ''scheduled_at'' SqlTimestamptz False NoDefault,
         stamp_column ''created_at'', Column ''title'' (SqlString 255) False NoDefault, Column ''body'' SqlText False NoDefault]
        [ForeignKey None [''reminder_delivery_id''] ''reminder_deliveries'' [''id''] NoAction False, PrimaryKey [''id''],
         UniqueKey (Some ''uq_notification_delivery'') [''reminder_delivery_id'']]]"

definition upgrade_0001 :: "ddl list" where
  "upgrade_0001 = [CreateExtension ''pg_trgm''] @ create_outbox_events @ create_recurrence_series @ create_tags
     @ create_user_settings @ create_notes @ create_occurrence_exceptions @ create_series_reminder_templates
     @ create_series_tags @ create_note_tags @ create_reminder_rules @ create_reminder_deliveries @ create_notifications"

definition downgrade_0001 :: "ddl list" where
  "downgrade_0001 =
     [DropTable ''notifications'',
      DropIndex ''ix_delivery_pending_due'' ''reminder_deliveries'', DropIndex ''ix_delivery_claim_expiry'' ''reminder_deliveries'',
      DropTable ''reminder_deliveries'', DropTable ''reminder_rules'',
      DropIndex ''ix_note_tags_tag_note'' ''note_tags'', DropTable ''note_tags'', DropTable ''series_tags'',
      DropTable ''series_reminder_templates'', DropTable ''occurrence_exceptions'',
      DropIndex ''ix_notes_updated_id'' ''notes'', DropIndex ''ix_notes_state_starts'' ''notes'',
      DropIndex ''ix_notes_starts_id'' ''notes'', DropIndex ''ix_notes_search_trgm'' ''notes'',
      DropIndex ''ix_notes_deleted_at'' ''notes'', DropTable ''notes'', DropTable ''user_settings'', DropTable ''tags'',
      DropIndex ''ix_recurrence_series_lineage_id'' ''recurrence_series'', DropTable ''recurrence_series'',
      DropIndex ''ix_outbox_unpublished'' ''outbox_events'', DropTable ''outbox_events'', DropTypeIfPresent ''delivery_state'']"

subsection \<open>Revisions 0002 to 0004\<close>

definition upgrade_0002 :: "ddl list" where
  "upgrade_0002 =
     [AddColumnIfMissing ''notes'' (Column ''superseded_at'' SqlTimestamptz True NoDefault),
      AddColumnIfMissing ''notes'' (Column ''series_trashed_at'' SqlTimestamptz True NoDefault),
      CreateIndexIfMissing ''notes'' (Index ''ix_notes_superseded_at'' [''superseded_at''] False),
      CreateIndexIfMissing ''notes'' (Index ''ix_notes_series_trashed_at'' [''series_trashed_at''] False)]"

definition downgrade_0002 :: "ddl list" where
  "downgrade_0002 =
     [DropIndexIfPresent ''ix_notes_series_trashed_at'' ''notes'', DropIndexIfPresent ''ix_notes_superseded_at'' ''notes'',
      DropColumnIfPresent ''notes'' ''series_trashed_at'', DropColumnIfPresent ''notes'' ''superseded_at'']"

definition upgrade_0003 :: "ddl list" where
  "upgrade_0003 =
     [AddColumnIfMissing ''notes'' (Column ''purged_at'' SqlTimestamptz True NoDefault),
      CreateIndexIfMissing ''notes'' (Index ''ix_notes_purged_at'' [''purged_at''] False)]"

definition downgrade_0003 :: "ddl list" where
  "downgrade_0003 = [DropIndexIfPresent ''ix_notes_purged_at'' ''notes'', DropColumnIfPresent ''notes'' ''purged_at'']"

definition create_trash_tables :: "ddl list" where
  "create_trash_tables =
     [AddColumn ''recurrence_series'' (Column ''purged_at'' SqlTimestamptz True NoDefault),
      CreateIndex ''recurrence_series'' (Index ''ix_recurrence_series_purged_at'' [''purged_at''] False),
      CreateTable ''recurring_trash_actions''
        [id_column, Column ''series_id'' SqlUuid False NoDefault, Column ''boundary_recurrence_key'' SqlTimestamptz False NoDefault,
         Column ''trashed_at'' SqlTimestamptz False (ServerDefault ''clock_timestamp()''),
         Column ''sealed_at'' SqlTimestamptz True NoDefault]
        [ForeignKey None [''series_id''] ''recurrence_series'' [''id''] Restrict False, PrimaryKey [''id'']],
      CreateIndex ''recurring_trash_actions'' (Index ''ix_recurring_trash_actions_series_id'' [''series_id''] False),
      CreateTable ''recurring_trash_action_members''
        [Column ''action_id'' SqlUuid False NoDefault, Column ''note_id'' SqlUuid False NoDefault]
        [ForeignKey None [''action_id''] ''recurring_trash_actions'' [''id''] Restrict False,
         ForeignKey None [''note_id''] ''notes'' [''id''] Restrict False, PrimaryKey [''action_id'', ''note_id'']],
      AddColumn ''notes'' (Column ''current_recurring_trash_action_id'' SqlUuid True NoDefault),
      CreateIndex ''notes'' (Index ''ix_notes_current_recurring_trash_action_id'' [''current_recurring_trash_action_id''] False),
      AddConstraint ''notes'' (ForeignKey (Some ''fk_notes_current_trash_membership'')
        [''current_recurring_trash_action_id'', ''id''] ''recurring_trash_action_members'' [''action_id'', ''note_id'']
        NoAction True)]"

definition replace_error_columns :: "ddl list" where
  "replace_error_columns =
     [AddColumn ''reminder_deliveries'' (Column ''error_code'' (SqlString 64) True NoDefault),
      DropColumn ''reminder_deliveries'' ''error'',
      AddConstraint ''reminder_deliveries'' (CheckKey ''ck_delivery_error_code_allowlist'' DeliveryErrorAllowed),
      AddConstraint ''reminder_deliveries'' (CheckKey ''ck_delivery_state_shape'' DeliveryShape),
      AddColumn ''outbox_events'' (Column ''error_code'' (SqlString 64) True NoDefault),
      DropColumn ''outbox_events'' ''last_error'',
      AddConstraint ''outbox_events'' (CheckKey ''ck_outbox_error_code_allowlist'' OutboxErrorAllowed),
      AddConstraint ''outbox_events'' (CheckKey ''ck_outbox_state_shape'' OutboxShape)]"

definition upgrade_0004 :: "ddl list" where
  "upgrade_0004 = create_trash_tables @ replace_error_columns"

definition downgrade_0004 :: "string + ddl list" where
  "downgrade_0004 = Inl ''0004_storage_contract is activation-irreversible; restore the validated pre-cutover backup''"

subsection \<open>The metadata of the models\<close>

definition plain_table :: "string \<Rightarrow> table_column list \<Rightarrow> table_constraint list \<Rightarrow> table_index list \<Rightarrow> sql_table" where
  "plain_table n cs ks is = \<lparr>tb_name = n, tb_columns = cs, tb_constraints = ks, tb_indexes = is\<rparr>"

definition mapped_column :: "string \<Rightarrow> sql_type \<Rightarrow> table_column" where
  "mapped_column n ty = Column n ty False NoDefault"

definition optional_column :: "string \<Rightarrow> sql_type \<Rightarrow> table_column" where
  "optional_column n ty = Column n ty True NoDefault"

text \<open>\<open>index=True\<close> and a \<open>ForeignKey\<close> in the column.\<close>

definition column_index :: "string \<Rightarrow> string \<Rightarrow> table_index" where
  "column_index t c = Index (''ix_'' @ t @ ''_'' @ c) [c] False"

definition references :: "string \<Rightarrow> string \<Rightarrow> fk_action \<Rightarrow> table_constraint" where
  "references c t a = ForeignKey None [c] t [''id''] a False"

definition timestamp_mixin :: "table_column list" where
  "timestamp_mixin = [stamp_column ''created_at'', stamp_column ''updated_at'']"

definition version_mixin :: "table_column list" where
  "version_mixin = [version_column]"

definition user_settings_table :: sql_table where
  "user_settings_table = plain_table ''user_settings''
     (timestamp_mixin @ version_mixin @ [id_column, mapped_column ''email'' (SqlString 320), mapped_column ''timezone'' (SqlString 64)])
     [PrimaryKey [''id'']] []"

definition tags_table :: sql_table where
  "tags_table = plain_table ''tags''
     (timestamp_mixin @ version_mixin @ [id_column, mapped_column ''name'' (SqlString 100),
        mapped_column ''normalized_name'' (SqlString 100), mapped_column ''color'' (SqlString 7)])
     [PrimaryKey [''id''], UniqueKey None [''normalized_name'']] []"

definition recurrence_series_table :: sql_table where
  "recurrence_series_table = plain_table ''recurrence_series''
     (timestamp_mixin @ version_mixin @ [id_column, mapped_column ''lineage_id'' SqlUuid, optional_column ''predecessor_id'' SqlUuid,
        mapped_column ''local_start'' SqlTimestamp, mapped_column ''timezone'' (SqlString 64), mapped_column ''rrule'' SqlText,
        mapped_column ''end_date'' SqlDate, optional_column ''split_boundary'' SqlTimestamptz,
        mapped_column ''template_title'' (SqlString 255), mapped_column ''template_body'' SqlText,
        mapped_column ''template_active'' SqlBoolean, optional_column ''purged_at'' SqlTimestamptz])
     [PrimaryKey [''id''], references ''predecessor_id'' ''recurrence_series'' NoAction]
     [column_index ''recurrence_series'' ''lineage_id'', column_index ''recurrence_series'' ''purged_at'']"

definition notes_table :: sql_table where
  "notes_table = plain_table ''notes''
     (timestamp_mixin @ version_mixin @ [id_column, mapped_column ''title'' (SqlString 255), mapped_column ''body'' SqlText,
        Column ''search_text'' SqlText False (ComputedAs (''lower(title || '' @ [CHR 0x27, CHR '' '', CHR 0x27] @ '' || body)'')),
        mapped_column ''starts_at'' SqlTimestamptz, mapped_column ''active'' SqlBoolean,
        optional_column ''deleted_at'' SqlTimestamptz, optional_column ''superseded_at'' SqlTimestamptz,
        optional_column ''series_trashed_at'' SqlTimestamptz, optional_column ''purged_at'' SqlTimestamptz,
        optional_column ''series_id'' SqlUuid, optional_column ''recurrence_key'' SqlTimestamptz,
        optional_column ''current_recurring_trash_action_id'' SqlUuid])
     [PrimaryKey [''id''], UniqueKey (Some ''uq_note_series_recurrence_key'') [''series_id'', ''recurrence_key''],
      ForeignKey (Some ''fk_notes_current_trash_membership'') [''current_recurring_trash_action_id'', ''id'']
        ''recurring_trash_action_members'' [''action_id'', ''note_id''] NoAction True,
      references ''series_id'' ''recurrence_series'' NoAction]
     [Index ''ix_notes_starts_id'' [''starts_at'', ''id''] False, Index ''ix_notes_updated_id'' [''updated_at'', ''id''] False,
      Index ''ix_notes_state_starts'' [''deleted_at'', ''active'', ''starts_at''] False,
      Index ''ix_notes_deleted_at'' [''deleted_at''] False, Index ''ix_notes_purged_at'' [''purged_at''] False,
      Index ''ix_notes_search_trgm'' [''search_text''] True, column_index ''notes'' ''superseded_at'',
      column_index ''notes'' ''series_trashed_at'', column_index ''notes'' ''current_recurring_trash_action_id'']"

definition trash_actions_table :: sql_table where
  "trash_actions_table = plain_table ''recurring_trash_actions''
     [id_column, mapped_column ''series_id'' SqlUuid, mapped_column ''boundary_recurrence_key'' SqlTimestamptz,
      Column ''trashed_at'' SqlTimestamptz False (ServerDefault ''clock_timestamp()''), optional_column ''sealed_at'' SqlTimestamptz]
     [PrimaryKey [''id''], references ''series_id'' ''recurrence_series'' Restrict]
     [column_index ''recurring_trash_actions'' ''series_id'']"

definition trash_members_table :: sql_table where
  "trash_members_table = plain_table ''recurring_trash_action_members''
     [mapped_column ''action_id'' SqlUuid, mapped_column ''note_id'' SqlUuid]
     [PrimaryKey [''action_id'', ''note_id''], references ''action_id'' ''recurring_trash_actions'' Restrict,
      references ''note_id'' ''notes'' Restrict] []"

definition note_tags_table :: sql_table where
  "note_tags_table = plain_table ''note_tags'' [mapped_column ''note_id'' SqlUuid, mapped_column ''tag_id'' SqlUuid]
     [PrimaryKey [''note_id'', ''tag_id''], references ''note_id'' ''notes'' Cascade, references ''tag_id'' ''tags'' Cascade]
     [Index ''ix_note_tags_tag_note'' [''tag_id'', ''note_id''] False]"

definition series_tags_table :: sql_table where
  "series_tags_table = plain_table ''series_tags'' [mapped_column ''series_id'' SqlUuid, mapped_column ''tag_id'' SqlUuid]
     [PrimaryKey [''series_id'', ''tag_id''], references ''series_id'' ''recurrence_series'' Cascade,
      references ''tag_id'' ''tags'' Cascade] []"

definition occurrence_exceptions_table :: sql_table where
  "occurrence_exceptions_table = plain_table ''occurrence_exceptions''
     (timestamp_mixin @ [id_column, mapped_column ''series_id'' SqlUuid, mapped_column ''recurrence_key'' SqlTimestamptz,
        mapped_column ''overridden_fields'' SqlJsonb, mapped_column ''cancelled'' SqlBoolean])
     [PrimaryKey [''id''], UniqueKey (Some ''uq_exception_series_key'') [''series_id'', ''recurrence_key''],
      references ''series_id'' ''recurrence_series'' NoAction] []"

definition reminder_rules_table :: sql_table where
  "reminder_rules_table = plain_table ''reminder_rules''
     (timestamp_mixin @ [id_column, mapped_column ''note_id'' SqlUuid, mapped_column ''offset_minutes'' SqlInteger,
        mapped_column ''enabled'' SqlBoolean, mapped_column ''current_cycle_number'' SqlInteger])
     [PrimaryKey [''id''], UniqueKey (Some ''uq_reminder_note_offset'') [''note_id'', ''offset_minutes''],
      CheckKey ''ck_reminder_offset_preset'' OffsetPreset, references ''note_id'' ''notes'' Cascade] []"

definition series_reminder_templates_table :: sql_table where
  "series_reminder_templates_table = plain_table ''series_reminder_templates''
     [mapped_column ''series_id'' SqlUuid, mapped_column ''offset_minutes'' SqlInteger]
     [PrimaryKey [''series_id'', ''offset_minutes''], CheckKey ''ck_series_reminder_offset_preset'' OffsetPreset,
      references ''series_id'' ''recurrence_series'' Cascade] []"

definition reminder_deliveries_table :: sql_table where
  "reminder_deliveries_table = plain_table ''reminder_deliveries''
     (timestamp_mixin @ [id_column, mapped_column ''reminder_rule_id'' SqlUuid, mapped_column ''cycle_number'' SqlInteger,
        mapped_column ''due_at'' SqlTimestamptz, mapped_column ''state'' (SqlEnum ''delivery_state'' delivery_states),
        optional_column ''claim_token'' SqlUuid, optional_column ''claim_expires_at'' SqlTimestamptz,
        optional_column ''authorized_at'' SqlTimestamptz, optional_column ''recipient_snapshot'' (SqlString 320),
        optional_column ''content_snapshot'' SqlJsonb, optional_column ''result_at'' SqlTimestamptz,
        optional_column ''error_code'' (SqlString 64)])
     [PrimaryKey [''id''], UniqueKey (Some ''uq_delivery_rule_cycle'') [''reminder_rule_id'', ''cycle_number''],
      references ''reminder_rule_id'' ''reminder_rules'' NoAction]
     [Index ''ix_delivery_pending_due'' [''state'', ''due_at''] False, Index ''ix_delivery_claim_expiry'' [''claim_expires_at''] False]"

definition notifications_table :: sql_table where
  "notifications_table = plain_table ''notifications''
     [id_column, mapped_column ''reminder_delivery_id'' SqlUuid, mapped_column ''scheduled_at'' SqlTimestamptz,
      stamp_column ''created_at'', mapped_column ''title'' (SqlString 255), mapped_column ''body'' SqlText]
     [PrimaryKey [''id''], UniqueKey (Some ''uq_notification_delivery'') [''reminder_delivery_id''],
      references ''reminder_delivery_id'' ''reminder_deliveries'' NoAction] []"

definition outbox_events_table :: sql_table where
  "outbox_events_table = plain_table ''outbox_events''
     [id_column, mapped_column ''event_type'' (SqlString 64), optional_column ''entity_id'' SqlUuid,
      mapped_column ''payload'' SqlJsonb, stamp_column ''created_at'', optional_column ''published_at'' SqlTimestamptz,
      mapped_column ''attempts'' SqlInteger, optional_column ''next_attempt_at'' SqlTimestamptz,
      optional_column ''error_code'' (SqlString 64)]
     [PrimaryKey [''id'']] [Index ''ix_outbox_unpublished'' [''published_at'', ''created_at''] False]"

definition metadata :: "sql_table list" where
  "metadata = [user_settings_table, tags_table, recurrence_series_table, notes_table, trash_actions_table, trash_members_table,
     note_tags_table, series_tags_table, occurrence_exceptions_table, reminder_rules_table, series_reminder_templates_table,
     reminder_deliveries_table, notifications_table, outbox_events_table]"

subsection \<open>Comparison\<close>

definition same_elements :: "'a list \<Rightarrow> 'a list \<Rightarrow> bool" where
  "same_elements xs ys \<longleftrightarrow> list_all (\<lambda>x. x \<in> set ys) xs \<and> list_all (\<lambda>y. y \<in> set xs) ys"

definition builds :: "(string \<times> table_constraint) list \<Rightarrow> sql_table list \<Rightarrow> catalogue \<Rightarrow> bool" where
  "builds extra tables s \<longleftrightarrow> same_elements (map tb_name (sc_tables s)) (map tb_name tables)
     \<and> list_all (\<lambda>t. case find_table (tb_name t) s of None \<Rightarrow> False
         | Some x \<Rightarrow> same_elements (tb_columns x) (tb_columns t) \<and> same_elements (tb_indexes x) (tb_indexes t)
             \<and> same_elements (tb_constraints x) (tb_constraints t @ map snd (filter (\<lambda>(n, k). n = tb_name t) extra))) tables"

definition storage_checks :: "(string \<times> table_constraint) list" where
  "storage_checks =
     [(''reminder_deliveries'', CheckKey ''ck_delivery_error_code_allowlist'' DeliveryErrorAllowed),
      (''reminder_deliveries'', CheckKey ''ck_delivery_state_shape'' DeliveryShape),
      (''outbox_events'', CheckKey ''ck_outbox_error_code_allowlist'' OutboxErrorAllowed),
      (''outbox_events'', CheckKey ''ck_outbox_state_shape'' OutboxShape)]"



end
