(* ===== verification/Operations.thy ===== *)
theory Operations
  imports "HOL-Library.List_Lexorder" "HOL-Library.Char_ord" Realtime JsonReader
begin

section \<open>The gates around the service (src/scripts/compose_db_target.py, src/backend/scripts/require_schema_head.py)\<close>

text \<open>
  The command that scripts ask for the database they may touch: it compares the database of the
  Compose configuration, of \<open>DATABASE_URL\<close> and of the running container, and refuses every
  difference; the gate that lets a process start only on the exact schema revision of its image;
  and the probes of the containers. \<open>docker\<close> is \<open>subprocess.run\<close>, \<open>loads\<close> is \<open>json.loads\<close> (\<open>None\<close> where it
  raises), \<open>decoded\<close> decodes bytes with replacement, and \<open>brackets_ok\<close> is the check of \<open>urllib\<close> on the
  address between brackets. An exception that \<open>main\<close> does not catch is \<open>Crash\<close>: the interpreter
  prints a traceback and exits with status 1.
\<close>

subsection \<open>str() and repr() of JSON values\<close>

definition hex2 :: "nat \<Rightarrow> string" where
  "hex2 n = map (\<lambda>k. if k < 10 then char_of (48 + k) else char_of (87 + k)) [n div 16 mod 16, n mod 16]"

definition repr_char :: "char \<Rightarrow> char \<Rightarrow> string" where
  "repr_char q c =
     (let n = code_point c
      in if c = q \<or> n = 92 then [CHR 0x5C, c]
         else if n = 10 then [CHR 0x5C, CHR ''n''] else if n = 13 then [CHR 0x5C, CHR ''r'']
         else if n = 9 then [CHR 0x5C, CHR ''t'']
         else if n < 32 \<or> 127 \<le> n \<and> n \<le> 160 \<or> n = 173 then [CHR 0x5C, CHR ''x''] @ hex2 n
         else [c])"

definition py_repr :: "string \<Rightarrow> string" where
  "py_repr s =
     (let q = (if CHR 0x27 \<in> set s \<and> CHR 0x22 \<notin> set s then CHR 0x22 else CHR 0x27)
      in q # concat (map (repr_char q) s) @ [q])"

fun repr_json :: "json \<Rightarrow> string" where
  "repr_json JNull = ''None''"
| "repr_json (JBool b) = (if b then ''True'' else ''False'')"
| "repr_json (JInt n) = show_int n"
| "repr_json (JStr s) = py_repr s"
| "repr_json (JArr vs) = ''['' @ join_with '', '' (map repr_json vs) @ '']''"
| "repr_json (JObj kvs) = ''{'' @ join_with '', '' (map (\<lambda>(k, v). py_repr k @ '': '' @ repr_json v) kvs) @ ''}''"

definition py_str :: "json \<Rightarrow> string" where
  "py_str v = (case v of JStr s \<Rightarrow> s | _ \<Rightarrow> repr_json v)"

subsection \<open>URLs\<close>

definition is_ascii :: "char \<Rightarrow> bool" where
  "is_ascii c \<longleftrightarrow> code_point c < 128"

definition scheme_char :: "char \<Rightarrow> bool" where
  "scheme_char c \<longleftrightarrow> (let n = code_point c in 97 \<le> n \<and> n \<le> 122 \<or> 65 \<le> n \<and> n \<le> 90 \<or> 48 \<le> n \<and> n \<le> 57 \<or> c \<in> set ''+-.'')"

definition ascii_letter :: "char \<Rightarrow> bool" where
  "ascii_letter c \<longleftrightarrow> (let n = code_point c in 97 \<le> n \<and> n \<le> 122 \<or> 65 \<le> n \<and> n \<le> 90)"

text \<open>\<open>s.partition(c)\<close> is \<open>partition_at\<close>; \<open>s.rpartition(c)\<close> is found from the end.\<close>

definition rpartition_at :: "char \<Rightarrow> string \<Rightarrow> string \<times> string \<times> string" where
  "rpartition_at c s =
     (case dropWhile (\<lambda>x. x \<noteq> c) (rev s) of
        [] \<Rightarrow> ([], [], s)
      | x # rest \<Rightarrow> (rev rest, [c], rev (takeWhile (\<lambda>x. x \<noteq> c) (rev s))))"

text \<open>The part of a URL after its scheme.\<close>

definition after_scheme :: "string \<Rightarrow> string" where
  "after_scheme url =
     (case partition_at (CHR '':'') url of
        (scheme, sep, rest) \<Rightarrow>
          if sep \<noteq> [] \<and> scheme \<noteq> [] \<and> ascii_letter (hd scheme) \<and> list_all scheme_char scheme then rest else url)"

text \<open>\<open>urlsplit(url)\<close>: network location and path, \<open>None\<close> where it raises ValueError.\<close>

definition urlsplit :: "(string \<Rightarrow> bool) \<Rightarrow> string \<Rightarrow> (string \<times> string) option" where
  "urlsplit brackets_ok url =
     (let url = dropWhile (\<lambda>c. code_point c \<le> 32) url;
          url = filter (\<lambda>c. code_point c \<notin> {9, 10, 13}) url;
          url = after_scheme url;
          has_netloc = startswith url ''//'';
          netloc = (if has_netloc then takeWhile (\<lambda>c. c \<notin> set ''/?#'') (drop 2 url) else []);
          rest = (if has_netloc then dropWhile (\<lambda>c. c \<notin> set ''/?#'') (drop 2 url) else url);
          path = takeWhile (\<lambda>c. c \<noteq> CHR ''?'') (takeWhile (\<lambda>c. c \<noteq> CHR ''#'') rest);
          opened = CHR ''['' \<in> set netloc; closed = CHR '']'' \<in> set netloc
      in if opened \<noteq> closed \<or> opened \<and> \<not> brackets_ok netloc then None else Some (netloc, path))"

definition url_username :: "string \<Rightarrow> string option" where
  "url_username netloc =
     (case rpartition_at (CHR ''@'') netloc of
        (userinfo, sep, host) \<Rightarrow> if sep \<noteq> [] then Some (fst (partition_at (CHR '':'') userinfo)) else None)"

definition url_hostname :: "string \<Rightarrow> string option" where
  "url_hostname netloc =
     (case rpartition_at (CHR ''@'') netloc of
        (userinfo, sep, hostinfo) \<Rightarrow>
          case partition_at (CHR ''['') hostinfo of
            (before, opened, bracketed) \<Rightarrow>
              let name = (if opened \<noteq> [] then fst (partition_at (CHR '']'') bracketed)
                          else fst (partition_at (CHR '':'') hostinfo))
              in if name = [] then None
                 else (case partition_at (CHR ''%'') name of (h, percent, zone) \<Rightarrow> Some (lower h @ percent @ zone)))"

fun percent_decode :: "string \<Rightarrow> string" where
  "percent_decode (c # a # b # cs) =
     (if c = CHR ''%''
      then (case (hex_value a, hex_value b) of
              (Some i, Some j) \<Rightarrow> char_of (16 * i + j) # percent_decode cs
            | _ \<Rightarrow> c # percent_decode (a # b # cs))
      else c # percent_decode (a # b # cs))"
| "percent_decode s = s"

text \<open>\<open>unquote\<close> decodes each run of ASCII characters on its own.\<close>

function unquote_runs :: "(string \<Rightarrow> string) \<Rightarrow> string \<Rightarrow> string" where
  "unquote_runs decoded s =
     (case s of
        [] \<Rightarrow> []
      | c # cs \<Rightarrow>
          if is_ascii c
          then decoded (percent_decode (takeWhile is_ascii s)) @ unquote_runs decoded (dropWhile is_ascii cs)
          else c # unquote_runs decoded cs)"
  by pat_completeness auto
termination
  by (relation "measure (\<lambda>(u, s). length s)") (auto simp: le_imp_less_Suc length_dropWhile_le)

declare unquote_runs.simps [simp del]

definition unquote :: "(string \<Rightarrow> string) \<Rightarrow> string \<Rightarrow> string" where
  "unquote decoded s = (if CHR ''%'' \<in> set s then unquote_runs decoded s else s)"


subsection \<open>The target of the Compose configuration\<close>

datatype failure = TargetError string | Crash string

record target =
  tg_database :: string
  tg_user :: string

text \<open>\<open>value[key]\<close> on a decoded document: \<open>None\<close> for the KeyError and for the TypeError.\<close>

fun item_of :: "string \<Rightarrow> json \<Rightarrow> json option" where
  "item_of k (JObj kvs) = json_get k kvs"
| "item_of k v = None"

definition path_of :: "string list \<Rightarrow> json \<Rightarrow> json option" where
  "path_of ks v = fold (\<lambda>k v. Option.bind v (item_of k)) ks (Some v)"

definition at_sign :: "string \<Rightarrow> string \<Rightarrow> string" where
  "at_sign user database = user @ ''@'' @ database"

definition resolve_target :: "(string \<Rightarrow> bool) \<Rightarrow> (string \<Rightarrow> string) \<Rightarrow> json \<Rightarrow> failure + target" where
  "resolve_target brackets_ok decoded config =
     (case (path_of [''services'', ''postgres'', ''environment'', ''POSTGRES_DB''] config,
            path_of [''services'', ''postgres'', ''environment'', ''POSTGRES_USER''] config,
            path_of [''services'', ''backend'', ''environment'', ''DATABASE_URL''] config) of
        (Some database, Some user, Some database_url) \<Rightarrow>
          let database = py_str database; user = py_str user
          in (case urlsplit brackets_ok (py_str database_url) of
                None \<Rightarrow> Inl (Crash ''ValueError'')
              | Some (netloc, path) \<Rightarrow>
                  let application_database = unquote decoded (dropWhile (\<lambda>c. c = CHR ''/'') path);
                      application_user = unquote decoded (case url_username netloc of None \<Rightarrow> [] | Some u \<Rightarrow> u);
                      hostname = url_hostname netloc
                  in if hostname \<notin> {Some ''postgres'', Some ''localhost'', Some ''127.0.0.1''}
                     then Inl (TargetError (''DATABASE_URL host '' @ (case hostname of None \<Rightarrow> ''None'' | Some h \<Rightarrow> py_repr h)
                            @ '' does not target the Compose PostgreSQL service''))
                     else if (application_database, application_user) \<noteq> (database, user)
                     then Inl (TargetError (''database target mismatch: Compose PostgreSQL is '' @ at_sign user database
                            @ '', but DATABASE_URL is '' @ at_sign application_user application_database))
                     else if database = [] \<or> user = [] \<or> (\<exists>c \<in> set (database @ user). code_point c \<in> {13, 10, 9})
                     then Inl (TargetError ''database and user must be nonempty single-line values'')
                     else Inr \<lparr>tg_database = database, tg_user = user\<rparr>)
      | _ \<Rightarrow> Inl (TargetError ''Compose is missing the PostgreSQL target configuration''))"

subsection \<open>The running container\<close>

datatype process = Stdout string | ProcessFailed | NotStarted

text \<open>\<open>json.loads(text)[0]\<close> and the entries of an environment, with the exceptions that are caught and those that are not.\<close>

fun first_item :: "json \<Rightarrow> failure + json" where
  "first_item (JArr (v # vs)) = Inr v"
| "first_item (JArr []) = Inl (TargetError ''could not inspect the running PostgreSQL target'')"
| "first_item (JObj kvs) = Inl (TargetError ''could not inspect the running PostgreSQL target'')"
| "first_item (JStr (c # cs)) = Inr (JStr [c])"
| "first_item (JStr []) = Inl (TargetError ''could not inspect the running PostgreSQL target'')"
| "first_item v = Inl (Crash ''TypeError'')"

fun sub_item :: "string \<Rightarrow> json \<Rightarrow> failure + json" where
  "sub_item k (JObj kvs) = (case json_get k kvs of
     None \<Rightarrow> Inl (TargetError ''could not inspect the running PostgreSQL target'') | Some v \<Rightarrow> Inr v)"
| "sub_item k v = Inl (Crash ''TypeError'')"

text \<open>The entries with an equals sign, split at the first one.\<close>

fun entry_pairs :: "json list \<Rightarrow> failure + (string \<times> string) list" where
  "entry_pairs [] = Inr []"
| "entry_pairs (JStr s # es) =
     try_then (entry_pairs es) (\<lambda>ps.
       Inr (case partition_at (CHR ''='') s of (k, sep, v) \<Rightarrow> if sep = [] then ps else (k, v) # ps))"
| "entry_pairs (JArr vs # es) =
     (if JStr ''='' \<in> set vs then Inl (Crash ''AttributeError'') else entry_pairs es)"
| "entry_pairs (JObj kvs # es) =
     (if ''='' \<in> fst ` set kvs then Inl (Crash ''AttributeError'') else entry_pairs es)"
| "entry_pairs (v # es) = Inl (Crash ''TypeError'')"

fun iterated :: "json \<Rightarrow> failure + json list" where
  "iterated (JArr vs) = Inr vs"
| "iterated (JObj kvs) = Inr (map (\<lambda>(k, v). JStr k) kvs)"
| "iterated (JStr s) = Inr (map (\<lambda>c. JStr [c]) s)"
| "iterated v = Inl (Crash ''TypeError'')"

fun last_value :: "string \<Rightarrow> (string \<times> string) list \<Rightarrow> string option" where
  "last_value k [] = None"
| "last_value k ((k', v) # ps) =
     (case last_value k ps of Some v' \<Rightarrow> Some v' | None \<Rightarrow> if k' = k then Some v else None)"

definition running_environment :: "json \<Rightarrow> failure + (string \<times> string) list" where
  "running_environment document =
     try_then (first_item document) (\<lambda>inspected.
     try_then (sub_item ''Config'' inspected) (\<lambda>config.
     try_then (sub_item ''Env'' config) (\<lambda>entries.
     try_then (iterated entries) entry_pairs)))"

definition validate_running_container ::
  "(string list \<Rightarrow> process) \<Rightarrow> (string \<Rightarrow> json option) \<Rightarrow> target \<Rightarrow> failure + unit" where
  "validate_running_container docker loads target =
     (case docker [''docker'', ''compose'', ''ps'', ''-q'', ''postgres''] of
        ProcessFailed \<Rightarrow> Inl (TargetError ''could not inspect the Compose PostgreSQL service'')
      | NotStarted \<Rightarrow> Inl (Crash ''OSError'')
      | Stdout out \<Rightarrow>
          let container_id = strip out
          in if container_id = [] then Inl (TargetError ''the Compose PostgreSQL service is not running'')
             else (case docker [''docker'', ''inspect'', container_id] of
                     ProcessFailed \<Rightarrow> Inl (TargetError ''could not inspect the running PostgreSQL target'')
                   | NotStarted \<Rightarrow> Inl (Crash ''OSError'')
                   | Stdout out \<Rightarrow>
                       (case loads out of
                          None \<Rightarrow> Inl (TargetError ''could not inspect the running PostgreSQL target'')
                        | Some document \<Rightarrow>
                            try_then (running_environment document) (\<lambda>env.
                              let value = (\<lambda>k. case last_value k env of None \<Rightarrow> [] | Some v \<Rightarrow> v);
                                  running = \<lparr>tg_database = value ''POSTGRES_DB'', tg_user = value ''POSTGRES_USER''\<rparr>
                              in if running \<noteq> target
                                 then Inl (TargetError (''running PostgreSQL target mismatch: configured ''
                                        @ at_sign (tg_user target) (tg_database target) @ '', running ''
                                        @ at_sign (tg_user running) (tg_database running)))
                                 else Inr ()))))"

definition compose_config :: "(string list \<Rightarrow> process) \<Rightarrow> (string \<Rightarrow> json option) \<Rightarrow> failure + json" where
  "compose_config docker loads =
     (case docker [''docker'', ''compose'', ''config'', ''--format'', ''json''] of
        NotStarted \<Rightarrow> Inl (Crash ''OSError'')
      | ProcessFailed \<Rightarrow> Inl (TargetError ''could not load the Docker Compose configuration'')
      | Stdout out \<Rightarrow> (case loads out of
            None \<Rightarrow> Inl (TargetError ''could not load the Docker Compose configuration'') | Some v \<Rightarrow> Inr v))"

datatype field = FieldDatabase | FieldUser | FieldValidate

text \<open>Exit status, lines on stdout and on stderr; the traceback of a crash is its exception.\<close>

definition target_main ::
  "(string list \<Rightarrow> process) \<Rightarrow> (string \<Rightarrow> json option) \<Rightarrow> (string \<Rightarrow> bool) \<Rightarrow> (string \<Rightarrow> string)
    \<Rightarrow> field \<Rightarrow> bool \<Rightarrow> int \<times> string list \<times> string list" where
  "target_main docker loads brackets_ok decoded field require_running =
     (case try_then (compose_config docker loads) (\<lambda>config.
           try_then (resolve_target brackets_ok decoded config) (\<lambda>target.
           try_then (if require_running then validate_running_container docker loads target else Inr ())
             (\<lambda>_. Inr target))) of
        Inl (TargetError m) \<Rightarrow> (1, [], [''database target validation failed: '' @ m])
      | Inl (Crash e) \<Rightarrow> (1, [], [e])
      | Inr target \<Rightarrow>
          (0, [case field of
                 FieldDatabase \<Rightarrow> tg_database target
               | FieldUser \<Rightarrow> tg_user target
               | FieldValidate \<Rightarrow> ''validated database target '' @ at_sign (tg_user target) (tg_database target)], []))"

subsection \<open>The schema gate\<close>

text \<open>
  \<open>heads\<close> are Alembic's heads of the scripts in the image, \<open>database_of\<close> what the database answers: the
  rows of \<^verbatim>\<open>alembic_version\<close>, \<open>None\<close> when the table is missing, or a psycopg error by its class.
\<close>

datatype database_answer = VersionTable "string list option" | PsycopgError string

text \<open>\<open>s.replace(old, new, 1)\<close> for a nonempty \<open>old\<close>.\<close>

fun replace_first :: "string \<Rightarrow> string \<Rightarrow> string \<Rightarrow> string" where
  "replace_first old new [] = []"
| "replace_first old new (c # cs) =
     (if startswith (c # cs) old then new @ drop (length old) (c # cs) else c # replace_first old new cs)"

definition psycopg_url :: "string \<Rightarrow> string" where
  "psycopg_url url = replace_first ''postgresql+psycopg://'' ''postgresql://'' url"

definition current_heads :: "database_answer \<Rightarrow> string + string list" where
  "current_heads answer =
     (case answer of
        PsycopgError e \<Rightarrow> Inl e
      | VersionTable None \<Rightarrow> Inr []
      | VersionTable (Some rows) \<Rightarrow> Inr (remdups rows))"

definition head_list :: "string list \<Rightarrow> string" where
  "head_list heads = ''['' @ join_with '', '' (map py_repr (sort heads)) @ '']''"

definition schema_gate :: "string list \<Rightarrow> (string \<Rightarrow> database_answer) \<Rightarrow> string \<Rightarrow> int \<times> string" where
  "schema_gate heads database_of database_sync_url =
     (let expected = remdups heads
      in if length expected \<noteq> 1
         then (1, ''schema gate refused image with Alembic heads '' @ head_list expected)
         else (case current_heads (database_of (psycopg_url database_sync_url)) of
                 Inl e \<Rightarrow> (1, ''schema gate could not inspect database: '' @ e)
               | Inr current \<Rightarrow>
                   if set current \<noteq> set expected
                   then (1, ''schema gate rejected database heads '' @ head_list current
                          @ ''; expected '' @ head_list expected)
                   else (0, ''schema gate accepted Alembic head '' @ hd expected)))"


subsection \<open>Probes\<close>

text \<open>
  \<open>docker-healthcheck.py\<close>: the status of the answer, \<open>None\<close> for an OSError. \<open>/health/ready\<close>: the
  status and body, by the exception of the database query. \<open>beat.py\<close> marks a publication by writing a
  temporary file and moving it over the mark, whose time of modification \<open>beat-healthcheck.py\<close> reads.
\<close>

definition docker_healthcheck :: "int option \<Rightarrow> int" where
  "docker_healthcheck status = (case status of None \<Rightarrow> 1 | Some s \<Rightarrow> if 200 \<le> s \<and> s < 300 then 0 else 1)"

datatype query = QueryOk | SqlAlchemyError | OsError | OtherError

definition live :: "int \<times> string" where
  "live = (200, ''ok'')"

definition ready :: "query \<Rightarrow> int \<times> string" where
  "ready q = (case q of QueryOk \<Rightarrow> (200, ''ok'') | SqlAlchemyError \<Rightarrow> (503, ''unavailable'')
     | OsError \<Rightarrow> (503, ''unavailable'') | OtherError \<Rightarrow> (500, []))"

text \<open>A file system as the times of modification of its files.\<close>

type_synonym files = "string \<Rightarrow> instant option"

definition temporary_name :: "string \<Rightarrow> nat \<Rightarrow> string" where
  "temporary_name name pid = ''.'' @ name @ ''.'' @ show_nat pid @ ''.tmp''"

definition write_temporary :: "string \<Rightarrow> nat \<Rightarrow> instant \<Rightarrow> files \<Rightarrow> files" where
  "write_temporary name pid now fs = fs(temporary_name name pid \<mapsto> now)"

definition replace_mark :: "string \<Rightarrow> nat \<Rightarrow> files \<Rightarrow> files" where
  "replace_mark name pid fs = fs(name := fs (temporary_name name pid), temporary_name name pid := None)"

definition record_successful_publication :: "string \<Rightarrow> nat \<Rightarrow> instant \<Rightarrow> files \<Rightarrow> files" where
  "record_successful_publication name pid now fs = replace_mark name pid (write_temporary name pid now fs)"

definition beat_healthcheck :: "string \<Rightarrow> instant \<Rightarrow> instant \<Rightarrow> files \<Rightarrow> int" where
  "beat_healthcheck name maximum_age now fs =
     (case fs name of None \<Rightarrow> 1 | Some m \<Rightarrow> if 0 \<le> now - m \<and> now - m \<le> maximum_age then 0 else 1)"

text \<open>
  Beat as a machine: it publishes a task, which may fail, then writes and moves the mark; it may
  be killed and started again between any two of these. \<open>bt_published\<close> are the times of the publications.
\<close>

record beat =
  bt_files :: files
  bt_published :: "instant list"
  bt_clock :: instant
  bt_phase :: nat

inductive beat_step :: "string \<Rightarrow> nat \<Rightarrow> beat \<Rightarrow> beat \<Rightarrow> bool" for name pid where
  publishes: "bt_phase b = 0 \<Longrightarrow>
     beat_step name pid b (b\<lparr>bt_published := bt_published b @ [bt_clock b], bt_phase := 1\<rparr>)"
| writes: "bt_phase b = 1 \<Longrightarrow>
     beat_step name pid b (b\<lparr>bt_files := write_temporary name pid (bt_clock b) (bt_files b), bt_phase := 2\<rparr>)"
| moves: "bt_phase b = 2 \<Longrightarrow> beat_step name pid b (b\<lparr>bt_files := replace_mark name pid (bt_files b), bt_phase := 0\<rparr>)"
| restarts: "beat_step name pid b (b\<lparr>bt_phase := 0\<rparr>)"
| passes: "0 \<le> k \<Longrightarrow> beat_step name pid b (b\<lparr>bt_clock := bt_clock b + k\<rparr>)"

inductive beat_run :: "string \<Rightarrow> nat \<Rightarrow> beat \<Rightarrow> bool" for name pid where
  beat_begin: "beat_run name pid \<lparr>bt_files = (\<lambda>n. None), bt_published = [], bt_clock = t, bt_phase = 0\<rparr>"
| beat_more: "beat_run name pid b \<Longrightarrow> beat_step name pid b b' \<Longrightarrow> beat_run name pid b'"

lemma temporary_name_other: "temporary_name name pid \<noteq> name"
proof
  assume "temporary_name name pid = name"
  then have "length (temporary_name name pid) = length name" by simp
  then show False by (simp add: temporary_name_def)
qed

text \<open>Every file was written after a publication; in the phases after one, the last is before now.\<close>

definition beat_ok :: "beat \<Rightarrow> bool" where
  "beat_ok b \<longleftrightarrow> (\<forall>t \<in> set (bt_published b). t \<le> bt_clock b) \<and> (bt_phase b \<noteq> 0 \<longrightarrow> bt_published b \<noteq> [])
     \<and> (\<forall>n m. bt_files b n = Some m \<longrightarrow> m \<le> bt_clock b \<and> (\<exists>t \<in> set (bt_published b). t \<le> m))"

lemma beat_step_ok: "beat_step name pid b b' \<Longrightarrow> beat_ok b \<Longrightarrow> beat_ok b'"
proof (induction rule: beat_step.induct)
  case (writes b)
  then obtain t where "t \<in> set (bt_published b)" "t \<le> bt_clock b" by (cases "bt_published b") (auto simp: beat_ok_def)
  with writes show ?case by (auto simp: beat_ok_def write_temporary_def)
next
  case (passes k b)
  then show ?case by (fastforce simp: beat_ok_def)
qed (auto simp: beat_ok_def replace_mark_def)

lemma healthy_beat_published:
  assumes "beat_run name pid b" "beat_healthcheck name maximum_age (bt_clock b) (bt_files b) = 0"
  shows "\<exists>t \<in> set (bt_published b). \<exists>m. bt_files b name = Some m \<and> t \<le> m \<and> bt_clock b - maximum_age \<le> m"
proof -
  have "beat_ok b" using assms(1)
  proof induction
    case beat_begin
    then show ?case by (simp add: beat_ok_def)
  qed (rule beat_step_ok)
  then show ?thesis using assms(2) by (fastforce simp: beat_ok_def beat_healthcheck_def split: option.splits if_splits)
qed


subsection \<open>The three targets agree\<close>

text \<open>A character that stands for itself in every part of a URL.\<close>

definition url_plain :: "char \<Rightarrow> bool" where
  "url_plain c \<longleftrightarrow> 32 < code_point c \<and> c \<notin> set ''/?#@:%[]''"

definition password_char :: "char \<Rightarrow> bool" where
  "password_char c \<longleftrightarrow> 32 < code_point c \<and> c \<notin> set ''/?#[]''"

definition database_url :: "string \<Rightarrow> string \<Rightarrow> string \<Rightarrow> string \<Rightarrow> string \<Rightarrow> string" where
  "database_url user password host port database =
     ''postgresql+asyncpg://'' @ user @ '':'' @ password @ ''@'' @ host @ '':'' @ port @ ''/'' @ database"

definition compose_document :: "string \<Rightarrow> string \<Rightarrow> string \<Rightarrow> json" where
  "compose_document database user url =
     JObj [(''services'', JObj
       [(''postgres'', JObj [(''environment'', JObj [(''POSTGRES_DB'', JStr database), (''POSTGRES_USER'', JStr user)])]),
        (''backend'', JObj [(''environment'', JObj [(''DATABASE_URL'', JStr url)])])])]"

definition inspect_document :: "string \<Rightarrow> string \<Rightarrow> json" where
  "inspect_document database user =
     JArr [JObj [(''Config'', JObj [(''Env'', JArr
       [JStr ''PATH=/usr/bin'', JStr (''POSTGRES_DB='' @ database), JStr (''POSTGRES_USER='' @ user)])])]]"

lemma takeWhile_stop: "list_all P xs \<Longrightarrow> \<not> P y \<Longrightarrow> takeWhile P (xs @ y # ys) = xs \<and> dropWhile P (xs @ y # ys) = y # ys"
  by (induction xs) auto

lemma takeWhile_all: "list_all P xs \<Longrightarrow> takeWhile P xs = xs \<and> dropWhile P xs = []"
  by (induction xs) auto

lemma rpartition_last: "c \<notin> set b \<Longrightarrow> rpartition_at c (a @ c # b) = (a, [c], b)"
proof -
  assume "c \<notin> set b"
  then have "list_all (\<lambda>x. x \<noteq> c) (rev b)" by (auto simp: list_all_iff)
  from takeWhile_stop [OF this, of c "rev a"] show ?thesis by (simp add: rpartition_at_def)
qed

lemma plain_all:
  assumes "list_all url_plain xs"
  shows "list_all (\<lambda>c. 32 < code_point c) xs" "list_all (\<lambda>c. c \<notin> set ''/?#'') xs" "list_all (\<lambda>c. c \<noteq> CHR ''#'') xs"
    "list_all (\<lambda>c. c \<noteq> CHR ''?'') xs" "CHR ''['' \<notin> set xs" "CHR '']'' \<notin> set xs" "CHR ''@'' \<notin> set xs"
    "CHR '':'' \<notin> set xs" "CHR ''%'' \<notin> set xs" "CHR ''/'' \<notin> set xs"
  using assms by (auto simp: list_all_iff url_plain_def)

lemma password_all:
  assumes "list_all password_char xs"
  shows "list_all (\<lambda>c. 32 < code_point c) xs" "list_all (\<lambda>c. c \<notin> set ''/?#'') xs" "CHR ''['' \<notin> set xs" "CHR '']'' \<notin> set xs"
  using assms by (auto simp: list_all_iff password_char_def)

lemma urlsplit_database_url:
  assumes "list_all url_plain user" "list_all url_plain host" "list_all url_plain port" "list_all url_plain database"
    and "list_all password_char password"
  shows "urlsplit brackets_ok (database_url user password host port database)
     = Some (user @ '':'' @ password @ ''@'' @ host @ '':'' @ port, ''/'' @ database)"
proof -
  let ?net = "user @ '':'' @ password @ ''@'' @ host @ '':'' @ port"
  let ?url = "database_url user password host port database"
  note P = plain_all [OF assms(1)] plain_all [OF assms(2)] plain_all [OF assms(3)] plain_all [OF assms(4)] password_all [OF assms(5)]
  have "list_all (\<lambda>c. 32 < code_point c) ?url" using P by (simp add: database_url_def code_point_def)
  then have big: "\<forall>c \<in> set ?url. 32 < code_point c" by (simp only: list_all_iff)
  have lstrip: "dropWhile (\<lambda>c. code_point c \<le> 32) ?url = ?url" by (simp add: database_url_def code_point_def)
  have clean: "filter (\<lambda>c. code_point c \<notin> {9, 10, 13}) ?url = ?url" using big by (intro filter_True) auto
  have "partition_at (CHR '':'') ?url = (''postgresql+asyncpg'', '':'', ''//'' @ ?net @ ''/'' @ database)"
    using partition_at_found [of "CHR '':''" "''postgresql+asyncpg''" "''//'' @ ?net @ ''/'' @ database"] by (simp add: database_url_def)
  then have scheme: "after_scheme ?url = ''//'' @ ?net @ ''/'' @ database"
    by (simp add: after_scheme_def ascii_letter_def scheme_char_def code_point_def)
  have net: "list_all (\<lambda>c. c \<notin> set ''/?#'') ?net"
    using P by simp
  have brackets: "CHR ''['' \<notin> set ?net" "CHR '']'' \<notin> set ?net" using P by simp_all
  have path: "list_all (\<lambda>c. c \<noteq> CHR ''#'') (''/'' @ database)" "list_all (\<lambda>c. c \<noteq> CHR ''?'') (''/'' @ database)"
    using P by simp_all
  have start: "startswith (''//'' @ xs) ''//''" "drop 2 (''//'' @ xs) = xs" for xs by (simp_all add: startswith_def)
  have b: "(CHR ''['' \<in> set ?net) = False" "(CHR '']'' \<in> set ?net) = False" using brackets by simp_all
  have cut: "takeWhile (\<lambda>c. c \<notin> set ''/?#'') (?net @ ''/'' @ database) = ?net"
    "dropWhile (\<lambda>c. c \<notin> set ''/?#'') (?net @ ''/'' @ database) = ''/'' @ database"
    using takeWhile_stop [OF net, of "CHR ''/''" database] by simp_all
  have whole: "takeWhile (\<lambda>c. c \<noteq> CHR ''?'') (takeWhile (\<lambda>c. c \<noteq> CHR ''#'') (''/'' @ database)) = ''/'' @ database"
    by (simp only: takeWhile_all [OF path(1)] takeWhile_all [OF path(2)])
  show ?thesis
    by (simp only: urlsplit_def Let_def lstrip clean scheme start if_True cut whole b simp_thms if_False)
qed

lemma database_url_parts:
  assumes "list_all url_plain user" "list_all url_plain host" "list_all url_plain port" "host \<noteq> []"
  shows "url_username (user @ '':'' @ password @ ''@'' @ host @ '':'' @ port) = Some user"
    and "url_hostname (user @ '':'' @ password @ ''@'' @ host @ '':'' @ port) = Some (lower host)"
proof -
  have at: "CHR ''@'' \<notin> set (host @ '':'' @ port)" and br: "CHR ''['' \<notin> set (host @ '':'' @ port)"
    and colon: "CHR '':'' \<notin> set host" "CHR '':'' \<notin> set user" and pc: "CHR ''%'' \<notin> set host"
    using plain_all [OF assms(1)] plain_all [OF assms(2)] plain_all [OF assms(3)] by simp_all
  have r: "rpartition_at (CHR ''@'') (user @ '':'' @ password @ ''@'' @ host @ '':'' @ port)
      = (user @ '':'' @ password, ''@'', host @ '':'' @ port)"
    using rpartition_last [OF at, of "user @ '':'' @ password"] by simp
  show "url_username (user @ '':'' @ password @ ''@'' @ host @ '':'' @ port) = Some user"
    unfolding url_username_def r using partition_at_found [OF colon(2), of password] by simp
  have none: "partition_at c s = (s, [], [])" if "c \<notin> set s" for c s
  proof -
    have "list_all (\<lambda>x. x \<noteq> c) s" using that by (auto simp: list_all_iff)
    from takeWhile_all [OF this] show ?thesis by (simp only: partition_at_def list.case)
  qed
  show "url_hostname (user @ '':'' @ password @ ''@'' @ host @ '':'' @ port) = Some (lower host)"
    using partition_at_found [OF colon(1), of port] none [OF br] none [OF pc] assms(4)
    unfolding url_hostname_def r by simp
qed

lemma resolve_database_url:
  assumes "list_all url_plain user" "list_all url_plain host" "list_all url_plain port" "list_all url_plain database"
    and "list_all password_char password" "host \<noteq> []" "user \<noteq> []" "database \<noteq> []"
  shows "resolve_target brackets_ok decoded (compose_document d u (database_url user password host port database)) = Inr t
     \<longleftrightarrow> lower host \<in> {''postgres'', ''localhost'', ''127.0.0.1''} \<and> d = database \<and> u = user
         \<and> t = \<lparr>tg_database = database, tg_user = user\<rparr>"
proof -
  have plain: "CHR ''/'' \<noteq> hd database" "CHR ''%'' \<notin> set database" "CHR ''%'' \<notin> set user"
    "\<not> (\<exists>c \<in> set (database @ user). code_point c \<in> {13, 10, 9})"
  proof -
    note P = plain_all [OF assms(1)] plain_all [OF assms(4)]
    show "CHR ''/'' \<noteq> hd database" using P assms(8) by (cases database) auto
    show "CHR ''%'' \<notin> set database" "CHR ''%'' \<notin> set user" using P by simp_all
    have "list_all (\<lambda>c. 32 < code_point c) (database @ user)" using P by simp
    then have "\<forall>c \<in> set (database @ user). 32 < code_point c" by (simp only: list_all_iff)
    then show "\<not> (\<exists>c \<in> set (database @ user). code_point c \<in> {13, 10, 9})" by fastforce
  qed
  have path: "dropWhile (\<lambda>c. c = CHR ''/'') (''/'' @ database) = database"
    using plain(1) by (cases database) auto
  have uq: "unquote decoded database = database" "unquote decoded user = user" using plain by (simp_all add: unquote_def)
  have config: "path_of [''services'', ''postgres'', ''environment'', ''POSTGRES_DB''] (compose_document d u url) = Some (JStr d)"
    "path_of [''services'', ''postgres'', ''environment'', ''POSTGRES_USER''] (compose_document d u url) = Some (JStr u)"
    "path_of [''services'', ''backend'', ''environment'', ''DATABASE_URL''] (compose_document d u url) = Some (JStr url)" for url
    by (simp_all add: path_of_def compose_document_def)
  note url = urlsplit_database_url [OF assms(1-5)] database_url_parts [OF assms(1-3,6)]
  show ?thesis
    using plain(4) assms(7,8)
    by (auto simp: resolve_target_def config py_str_def url uq path Let_def simp del: append.simps)
qed


text \<open>
  The outside world of a run: Compose's configuration, the id of the container and its inspection.
\<close>

definition reads_documents ::
  "(string list \<Rightarrow> process) \<Rightarrow> (string \<Rightarrow> json option) \<Rightarrow> json \<Rightarrow> string \<Rightarrow> json \<Rightarrow> bool" where
  "reads_documents docker loads config container inspected \<longleftrightarrow> strip container \<noteq> []
     \<and> (\<exists>c i. docker [''docker'', ''compose'', ''config'', ''--format'', ''json''] = Stdout c \<and> loads c = Some config
         \<and> docker [''docker'', ''compose'', ''ps'', ''-q'', ''postgres''] = Stdout container
         \<and> docker [''docker'', ''inspect'', strip container] = Stdout i \<and> loads i = Some inspected)"

lemma running_environment_inspect:
  "running_environment (inspect_document database user) =
     Inr [(''PATH'', ''/usr/bin''), (''POSTGRES_DB'', database), (''POSTGRES_USER'', user)]"
  by (simp add: running_environment_def inspect_document_def partition_at_def)


definition sample_docker :: "json \<Rightarrow> string list \<Rightarrow> process" where
  "sample_docker config args =
     (if args = [''docker'', ''compose'', ''config'', ''--format'', ''json''] then Stdout (dumps '','' '':'' config)
      else if args = [''docker'', ''compose'', ''ps'', ''-q'', ''postgres''] then Stdout ''abc''
      else if args = [''docker'', ''inspect'', ''abc''] then Stdout (dumps '','' '':'' (inspect_document ''notes'' ''keeper''))
      else NotStarted)"


end
