(* ===== verification/Spec2Isabelle.thy ===== *)
theory Spec2Isabelle
  imports Prelude PyDate PyText PyJson JsonReader Expansion Models Schemas Validation Common Notes Reconcile
    ReminderInvariant Senders Reminders ReminderSafety ReminderProperties Outbox Realtime Live Profile Series
    NoteHandlers Split Listing Maintenance TrashActions HandlerSafety SeriesCreation Storage StorageSafety
    SeriesStorage Requests Api Purge System EndToEnd TrashRoundTrip Queries SplitResult Workers
    Migration Triggers TriggerSafety Schema Operations
begin

text \<open>
  A model of the backend of the note and reminder service: the Python program under \<^verbatim>\<open>src/backend/app\<close>
  with its migrations under \<^verbatim>\<open>src/backend/migrations/versions\<close>, the start-up gate
  \<^verbatim>\<open>src/backend/scripts/require_schema_head.py\<close> and the target check \<^verbatim>\<open>src/scripts/compose_db_target.py\<close>.

  \<^bold>\<open>The program.\<close> One profile keeps notes, tags and recurring series in PostgreSQL. The HTTP API
  (\<^verbatim>\<open>api/router.py\<close>) changes them in one transaction per request; every change brings the reminder
  rules and deliveries of the note in line (\<^verbatim>\<open>domain/notes.py\<close>) and adds an event to an outbox.
  Workers claim due deliveries under a lease, authorize one attempt, send the email and record the
  outcome (\<^verbatim>\<open>jobs/reminders.py\<close>, \<^verbatim>\<open>email/senders.py\<close>); another task publishes the outbox to Redis
  (\<^verbatim>\<open>jobs/outbox.py\<close>), from where every API process forwards it to its websockets (\<^verbatim>\<open>realtime/\<close>);
  maintenance closes attempts without an outcome and purges the trash (\<^verbatim>\<open>jobs/maintenance.py\<close>).
  Migration 0004 adds CHECK constraints and triggers that a transaction must pass.

  \<^bold>\<open>State.\<close> \<open>world\<close> (Models) is the database, one list of rows per table, with the counters of clock
  readings and of generated identifiers. \<open>env\<close> is everything outside the repository: clock, UUID
  generator, time-zone database, case folding and collation, and the settings the code reads. A
  handler is a function from \<open>world\<close> to \<open>error + (answer \<times> world)\<close>: an exception rolls back, so it
  has no world. Row locks appear where they are observable: \<open>SKIP LOCKED\<close> is the predicate
  \<open>locked\<close> of the rows other transactions hold; otherwise transactions are serial.

  \<^bold>\<open>Theories, in the order of the code.\<close>
  \<^item> Prelude: rows and tables, \<open>try_then\<close>, the locale \<open>keyed_rows\<close> of tables with a key.
  \<^item> PyDate, PyText, PyJson, JsonReader: what the code uses of \<open>datetime\<close>, \<open>str\<close>, \<open>re\<close> and \<open>json\<close>.
  \<^item> Expansion: \<^verbatim>\<open>expand_occurrences\<close> and the RRULE texts of \<^verbatim>\<open>domain/recurrence.py\<close>. The locale
    \<open>cursor_rule\<close> is the contract of a cursor, interpreted for the three frequencies.
  \<^item> Models, Schemas, Validation: \<^verbatim>\<open>db/models.py\<close>, \<^verbatim>\<open>api/schemas.py\<close>, \<^verbatim>\<open>api/errors.py\<close>.
  \<^item> Common, Notes: \<^verbatim>\<open>domain/common.py\<close>, \<^verbatim>\<open>domain/notes.py\<close> with \<open>reconcile_reminders\<close>.
  \<^item> Profile, Series, NoteHandlers, Split, Listing: the handlers of \<^verbatim>\<open>api/router.py\<close> and the row
    operations of \<^verbatim>\<open>domain/recurrence.py\<close>. Api: all routes from the body to the answer, \<open>serve\<close>.
  \<^item> Senders, Reminders, Outbox, Maintenance, Realtime, Live: email, jobs, broker and websocket route.
  \<^item> Workers: \<^verbatim>\<open>config.py\<close>, \<^verbatim>\<open>jobs/celery_app.py\<close> and the deployment of queue and workers.
  \<^item> Migration, Schema, Triggers: the data changes, schema operations and triggers of the migrations.
  \<^item> Operations: the two gates, and the probes of Beat, containers and database.
  \<^item> The remaining theories hold proofs about these definitions, named below.

  \<^bold>\<open>What the lemmas show.\<close>
  \<^item> Reminders. \<open>reminders_ok\<close> (ReminderInvariant) is the invariant of rules and deliveries;
    Reconcile refines \<open>reconcile_reminders\<close> to one rule, ReminderInvariant shows that it restores the
    invariant, HandlerSafety and SeriesCreation that every handler keeps it, ReminderSafety that
    every job does and that an attempt is never taken back.
  \<^item> Storage. \<open>storage_ok\<close> (Storage) is what the triggers and deferred checks of 0004 ask of trash,
    purge and series; StorageSafety, TrashActions and SeriesStorage show it of every handler, Purge of
    the purge; Triggers shows what the triggers freeze whoever writes, and TriggerSafety that the
    statements of a trash pass them.
  \<^item> The whole. \<open>service_ok\<close> joins both contracts. Requests and Api show that no body on any route breaks
    it; System runs requests, jobs and maintenance in any order (locale \<open>spending\<close>: a token
    is spent once); Workers adds the queue, which loses, repeats and reorders messages, and workers
    that die anywhere: at most one email per delivery. EndToEnd shows that a due reminder is sent.
  \<^item> Results. What a purge scrubs (Purge), what a restore brings back and never finds torn
    (TrashRoundTrip), what a split leaves (SplitResult), what a new series contains (SeriesCreation),
    what lists, pages, trash and upcoming notes show (Queries), what the expansion of a schedule is
    (Expansion, against a declarative set of dates), what a refused body is told (Validation).
  \<^item> Profile. Tags stay valid, and the locale \<open>versioned_edit\<close> gives for tags and settings that
    no edit under a stale version succeeds.
  \<^item> Events. What a batch publishes and when it retries (Outbox), what the subscriber forwards, how it
    pauses and when clients are told to refetch (Realtime), that the manager holds the open sockets
    and an event reaches them as written (Live, on the round trip of JsonReader).
  \<^item> Schema. The migrations build the tables the models declare, the downgrades undo the upgrades,
    the backfill makes the CHECK constraints hold, the repairs do what they are meant to.
  \<^item> Gates. The target check accepts exactly when three sources name the same user and database.

  \<^bold>\<open>Loops and bounds.\<close> The scan of due deliveries and the hourly purge may run for ever when other
  transactions keep adding rows: \<open>scan_loop\<close> and \<open>cleanup_loop\<close> are partial functions to \<open>option\<close>;
  that the scan returns is proved for a positive lease. The expansion of a series recurses on
  the days left and its totality is proved for ends before the last dates of the calendar. The
  fuel of \<open>json_read\<close> is twice the length of the text, enough because a value nests at most as
  deep as it is long. Instants are integers of microseconds, dates are those of years 1 to 9999
  and their overflow is a branch. Columns with a length limit refuse longer texts. Characters
  are code points below 256.

  \<^bold>\<open>Not modelled.\<close> FastAPI's parsing of JSON into the declared types and pydantic's messages, SQLAlchemy's
  sessions beyond commit and rollback, PostgreSQL's planner and isolation beyond the locks above,
  Redis, Celery's transport and the SMTP protocol below its commands: they are third-party and
  enter as parameters. \<^verbatim>\<open>lifespan\<close> of \<^verbatim>\<open>main.py\<close> only starts and cancels the subscriber; \<^verbatim>\<open>db/session.py\<close>
  builds engines; \<^verbatim>\<open>migrations/env.py\<close> configures Alembic; \<^verbatim>\<open>scripts/qa_dataset.py\<close> and
  \<^verbatim>\<open>scripts/benchmark_materialization.py\<close> measure a real database. The frontend is not part of the model.
\<close>

end
